(* ===== verification/Prelude.thy ===== *)
theory Prelude
  imports Main "HOL-Library.Word" "HOL-Library.Monad_Syntax" "HOL-Library.Signed_Division"
begin

text \<open>
  Types, automation and generic lemmas shared by every component of the kernel model.

  The C types of \<open>types.h\<close> are words of their width; an \<open>int\<close> of the source whose
  values are screen positions, counters or flags is a HOL \<open>int\<close>.  Memory is a total
  function from 32-bit addresses to bytes.  A C array or struct object that the code
  addresses byte by byte is a memory of its own whose addresses are offsets.
  \<open>overlay m d n f\<close> is the closed form of every copy loop of the kernel: memory \<open>m\<close>
  with the \<open>n\<close> bytes from address \<open>d\<close> on replaced by \<open>f 0, f 1, \<dots>\<close>.
\<close>

unbundle bit_operations_syntax

named_theorems mem_simps \<open>reads of memories built by stores, copies and fills\<close>
named_theorems frame_simps \<open>fields an operation leaves unchanged\<close>
named_theorems inv_intros \<open>operations that preserve a component's invariant\<close>

type_synonym u8 = "8 word"
type_synonym u16 = "16 word"
type_synonym u32 = "32 word"
type_synonym mem = "u32 \<Rightarrow> u8"

subsection \<open>Arithmetic on addresses\<close>

lemma unat_lt32: "unat (x :: u32) < 4294967296"
  using unsigned_less [of x, where ?'a = nat] by simp

lemma unat_of_nat32: "n < 4294967296 \<Longrightarrow> unat (of_nat n :: u32) = n"
  by (simp add: unat_of_nat take_bit_nat_eq_self)

lemma sint_of_nat32: "n < 2147483648 \<Longrightarrow> sint (of_nat n :: u32) = int n"
  by (simp add: signed_of_nat signed_take_bit_int_eq_self)

lemma of_nat_unat32 [simp]: "of_nat (unat (x :: u32)) = x"
  by simp

lemma word_minus_eq_of_nat:
  "(x :: u32) - d = of_nat i \<longleftrightarrow> x = d + of_nat i"
  by (auto simp: algebra_simps)

lemma unat_diff_add: "unat ((d + of_nat i) - d :: u32) = unat (of_nat i :: u32)"
  by simp

lemma unat_offset_lt:
  "i < 4294967296 \<Longrightarrow> unat ((d + of_nat i) - d :: u32) = i"
  by (simp add: unat_of_nat32)

lemma ucast_u32_u8 [simp]: "(ucast (ucast (b :: u8) :: u32) :: u8) = b"
  by (rule bit_word_eqI) (auto simp: bit_simps dest: bit_imp_le_length)

subsection \<open>Overlays: blocks of memory replaced at once\<close>

definition overlay :: "mem \<Rightarrow> u32 \<Rightarrow> nat \<Rightarrow> (nat \<Rightarrow> u8) \<Rightarrow> mem" where
  "overlay m d n f = (\<lambda>x. if unat (x - d) < n then f (unat (x - d)) else m x)"

lemma overlay_outside [mem_simps]: "\<not> unat (x - d) < n \<Longrightarrow> overlay m d n f x = m x"
  by (simp add: overlay_def)

lemma overlay_inside [mem_simps]:
  "i < n \<Longrightarrow> n \<le> 4294967296 \<Longrightarrow> overlay m d n f (d + of_nat i) = f i"
  by (simp add: overlay_def unat_of_nat32)

lemma overlay_0 [simp]: "overlay m d 0 f = m"
  by (simp add: overlay_def)

lemma overlay_Suc:
  assumes "n < 4294967296"
  shows "overlay m d (Suc n) f = (overlay m d n f)(d + of_nat n := f n)"
proof
  fix x
  have "x = d + of_nat n \<longleftrightarrow> unat (x - d) = n"
    using assms by (metis add_diff_cancel_left' diff_add_cancel add.commute unat_of_nat32 of_nat_unat32)
  then show "overlay m d (Suc n) f x = ((overlay m d n f)(d + of_nat n := f n)) x"
    by (auto simp: overlay_def less_Suc_eq)
qed

lemma overlay_1: "overlay m d (Suc 0) f = m(d := f 0)"
  by (simp add: overlay_Suc)

lemma overlay_4:
  "overlay m d 4 f = m(d := f 0, d + 1 := f 1, d + 2 := f 2, d + 3 := f 3)"
proof -
  have "overlay m d (Suc (Suc (Suc (Suc 0)))) f =
      m(d := f 0, d + 1 := f 1, d + 2 := f 2, d + 3 := f 3)"
    by (simp add: overlay_Suc numeral_2_eq_2 numeral_3_eq_3)
  then show ?thesis by (simp add: eval_nat_numeral)
qed

lemma overlay_cong:
  "(\<And>i. i < n \<Longrightarrow> f i = g i) \<Longrightarrow> overlay m d n f = overlay m d n g"
  by (auto simp: overlay_def)

lemma unat_diff_of_nat:
  assumes "n < 4294967296"
  shows "unat (y - of_nat n :: u32) =
    (if n \<le> unat y then unat y - n else unat y + 4294967296 - n)"
  using assms by (simp add: unat_sub_if' unat_of_nat32)

text \<open>Two overlays side by side are one: the step lemma of every copy loop.\<close>

lemma overlay_append:
  assumes "a + b \<le> 4294967296"
  shows "overlay (overlay m d a f) (d + of_nat a) b g =
    overlay m d (a + b) (\<lambda>i. if i < a then f i else g (i - a))"
proof (cases "b = 0")
  case True
  then show ?thesis by (auto simp: overlay_def)
next
  case False
  with assms have a: "a < 4294967296" by simp
  show ?thesis
  proof
    fix x
    define y where "y = x - d"
    have e: "x - (d + of_nat a) = y - of_nat a" by (simp add: y_def algebra_simps)
    show "overlay (overlay m d a f) (d + of_nat a) b g x =
      overlay m d (a + b) (\<lambda>i. if i < a then f i else g (i - a)) x"
      using assms unat_lt32 [of y]
      by (auto simp: overlay_def e y_def [symmetric] unat_diff_of_nat [OF a])
  qed
qed

subsection \<open>Little-endian 32-bit loads and stores\<close>

definition load32 :: "mem \<Rightarrow> u32 \<Rightarrow> u32" where
  "load32 m a = (ucast (m a)) OR push_bit 8 (ucast (m (a + 1)))
     OR push_bit 16 (ucast (m (a + 2))) OR push_bit 24 (ucast (m (a + 3)))"

definition byte_of :: "nat \<Rightarrow> u32 \<Rightarrow> u8" where
  "byte_of k v = ucast (drop_bit (8 * k) v)"

definition store32 :: "mem \<Rightarrow> u32 \<Rightarrow> u32 \<Rightarrow> mem" where
  "store32 m a v = m(a := byte_of 0 v, a + 1 := byte_of 1 v,
     a + 2 := byte_of 2 v, a + 3 := byte_of 3 v)"

lemma load32_bytes:
  "ucast (byte_of 0 v) OR push_bit 8 (ucast (byte_of (Suc 0) v))
     OR push_bit 16 (ucast (byte_of 2 v)) OR push_bit 24 (ucast (byte_of 3 v)) = (v :: u32)"
proof (rule bit_word_eqI)
  fix n assume "n < LENGTH(32)"
  then have n: "n < 32" by simp
  then consider "n < 8" | "8 \<le> n" "n < 16" | "16 \<le> n" "n < 24" | "24 \<le> n"
    by linarith
  then show "bit (ucast (byte_of 0 v) OR push_bit 8 (ucast (byte_of (Suc 0) v))
     OR push_bit 16 (ucast (byte_of 2 v)) OR push_bit 24 (ucast (byte_of 3 v)) :: u32) n = bit v n"
    using n by cases (auto simp: byte_of_def bit_simps)
qed

lemma load32_store32 [mem_simps]: "load32 (store32 m a v) a = v"
  by (simp add: load32_def store32_def load32_bytes)

lemma load32_cong:
  "m a = m' a \<Longrightarrow> m (a + 1) = m' (a + 1) \<Longrightarrow> m (a + 2) = m' (a + 2)
    \<Longrightarrow> m (a + 3) = m' (a + 3) \<Longrightarrow> load32 m a = load32 m' a"
  by (simp add: load32_def)

subsection \<open>String literals\<close>

definition ascii :: "string \<Rightarrow> u8 list" where
  "ascii = map of_char"

subsection \<open>Counting loops over C arrays\<close>

text \<open>
  \<open>for (i = a; i < b; i++) arr[i] = v(i)\<close> on an array seen as a function from indices.
\<close>

lemma fold_fun_upd:
  "fold (\<lambda>i g. g(i := v i)) [a..<b] g = (\<lambda>j. if a \<le> j \<and> j < b then v j else g j)"
  by (induction b) (auto simp: fun_eq_iff)

end
