(* ===== verification/Lib_Mem.thy ===== *)
theory Lib_Mem
  imports Prelude
begin

text \<open>
  The memory routines of \<open>lib.c\<close>: \<open>memset\<close>, \<open>memset_word\<close>, \<open>memset_dword\<close>,
  \<open>memcpy\<close> and \<open>memmove\<close>, translated from their inline assembly.  The registers
  \<open>edi\<close>, \<open>esi\<close> are the address arguments, \<open>ecx\<close> is the count.  Each routine is
  shown equal to one \<open>overlay\<close>; the locale \<open>block_copy\<close> is the contract the file
  system and the terminals use.
\<close>

subsection \<open>Blocks that do not meet\<close>

definition sep :: "u32 \<Rightarrow> nat \<Rightarrow> u32 \<Rightarrow> nat \<Rightarrow> bool" where
  "sep a la b lb \<longleftrightarrow> la \<le> unat (b - a) \<and> lb \<le> unat (a - b)"

lemma sep_notin:
  assumes "sep a la b lb" and "j < lb"
  shows "\<not> unat (b + of_nat j - a) < la"
proof -
  have jb: "j < 4294967296"
    using assms unat_lt32 [of "a - b"] by (simp add: sep_def)
  have ab: "lb \<le> unat (a - b)" and ba: "la \<le> unat (b - a)"
    using assms(1) by (simp_all add: sep_def)
  have nz: "b - a \<noteq> 0"
    using ab assms(2) by auto
  have "unat (- (a - b)) = 4294967296 - unat (a - b)"
    using nz unat_sub_if' [of 0 "a - b"] by (simp add: unat_eq_zero)
  then have d: "unat (b - a) = 4294967296 - unat (a - b)" by simp
  have "unat (b - a + of_nat j) = unat (b - a) + j"
    using d ab assms(2) unat_lt32 [of "a - b"] jb
    by (simp add: unat_word_ariths unat_of_nat32)
  then have "\<not> unat (b - a + of_nat j) < la" using ba by linarith
  moreover have "b + of_nat j - a = b - a + of_nat j" by (simp add: algebra_simps)
  ultimately show ?thesis by (simp only: not_False_eq_True)
qed

lemma sep_sym: "sep a la b lb \<Longrightarrow> sep b lb a la"
  by (simp add: sep_def)

lemma sep_shrink: "sep a la b lb \<Longrightarrow> la' \<le> la \<Longrightarrow> lb' \<le> lb \<Longrightarrow> sep a la' b lb'"
  by (simp add: sep_def)

lemma sep_shift: "sep a (k + n) b (k + n) \<Longrightarrow> sep (a + of_nat k) n (b + of_nat k) n"
  by (simp add: sep_def)

text \<open>Parts of blocks that do not meet do not meet either.\<close>

lemma sep_sub:
  assumes "sep a la b lb" and "x + la' \<le> la" "y + lb' \<le> lb" and "0 < la'" "0 < lb'"
  shows "sep (a + of_nat x) la' (b + of_nat y) lb'"
proof -
  define d where "d = b - a"
  have ab: "lb \<le> unat (a - b)" and la: "la \<le> unat d"
    using assms(1) by (simp_all add: sep_def d_def)
  have "a - b \<noteq> 0" using ab assms(3,5) by auto
  then have minus: "unat (a - b) = 4294967296 - unat d"
    using unat_sub_if' [of 0 d] by (simp add: unat_eq_zero d_def)
  have y: "unat (d + of_nat y) = unat d + y"
    using ab assms(3,5) minus unat_lt32 [of d] by (simp add: unat_word_ariths unat_of_nat32)
  have x: "x < unat d" "x < 4294967296" using assms(2,4) la unat_lt32 [of d] by linarith+
  have sub: "unat (d + of_nat y - of_nat x) = unat d + y - x"
    using x y by (simp add: unat_diff_of_nat)
  have e: "b + of_nat y - (a + of_nat x) = d + of_nat y - of_nat x"
    "a + of_nat x - (b + of_nat y) = 0 - (d + of_nat y - of_nat x)"
    by (simp_all add: d_def algebra_simps)
  have "unat (0 - (d + of_nat y - of_nat x)) = 4294967296 - (unat d + y - x)"
    using sub unat_sub_if' [of 0 "d + of_nat y - of_nat x"] x
    by (simp add: unat_eq_zero split: if_splits)
  then have "lb' \<le> unat (0 - (d + of_nat y - of_nat x))"
    using ab minus assms(3,5) by linarith
  moreover have "la' \<le> unat (d + of_nat y - of_nat x)"
    using sub la assms(2) by linarith
  ultimately show ?thesis unfolding sep_def e by simp
qed

lemma sep_len: "sep a la b lb \<Longrightarrow> la < 4294967296"
  using unat_lt32 [of "b - a"] by (simp add: sep_def)

lemma sep_reads [mem_simps]:
  "sep d n s k \<Longrightarrow> j < k \<Longrightarrow> overlay m d n f (s + of_nat j) = m (s + of_nat j)"
  by (simp add: overlay_outside sep_notin)

lemma sep_load32:
  assumes "sep d n s 4"
  shows "load32 (overlay m d n f) s = load32 m s"
proof -
  have "overlay m d n f (s + of_nat j) = m (s + of_nat j)" if "j < 4" for j
    using assms that by (rule sep_reads)
  from this [of 0] this [of 1] this [of 2] this [of 3]
  show ?thesis by (simp add: load32_def)
qed

text \<open>Copying a block in two pieces, the second read after the first was written.\<close>

lemma copy_append:
  assumes "sep d (a + b) s (a + b)"
  shows "overlay (overlay m d a (\<lambda>i. m (s + of_nat i))) (d + of_nat a) b
      (\<lambda>i. overlay m d a (\<lambda>i. m (s + of_nat i)) (s + of_nat a + of_nat i)) =
    overlay m d (a + b) (\<lambda>i. m (s + of_nat i))" (is "?l = ?r")
proof -
  have "overlay m d a f (s + of_nat a + of_nat i) = m (s + of_nat (a + i))" if "i < b" for i f
    using sep_reads [of d a s "a + b" "a + i" m f] sep_shrink [OF assms, of a "a + b"] that
    by (simp add: add.assoc)
  then have "?l = overlay (overlay m d a (\<lambda>i. m (s + of_nat i))) (d + of_nat a) b
      (\<lambda>i. m (s + of_nat (a + i)))"
    by (intro overlay_cong) simp
  also have "\<dots> = overlay m d (a + b)
      (\<lambda>i. if i < a then m (s + of_nat i) else m (s + of_nat (a + (i - a))))"
    by (rule overlay_append) (use sep_len [OF assms] in simp)
  also have "\<dots> = ?r"
    by (rule overlay_cong) simp
  finally show ?thesis .
qed

subsection \<open>memcpy\<close>

text \<open>
  \<open>movb (%esi), %al; movb %al, (%edi)\<close> and the increments of both pointers, \<open>ecx\<close>
  times; this is also \<open>rep movsb\<close> with the direction flag clear.
\<close>

fun copy_bytes :: "nat \<Rightarrow> mem \<Rightarrow> u32 \<Rightarrow> u32 \<Rightarrow> mem" where
  "copy_bytes 0 m d s = m"
| "copy_bytes (Suc k) m d s = copy_bytes k (m(d := m s)) (d + 1) (s + 1)"

text \<open>\<open>rep movsl\<close> with the direction flag clear.\<close>

fun movsl :: "nat \<Rightarrow> mem \<Rightarrow> u32 \<Rightarrow> u32 \<Rightarrow> mem" where
  "movsl 0 m d s = m"
| "movsl (Suc k) m d s = movsl k (store32 m d (load32 m s)) (d + 4) (s + 4)"

definition memcpy_aligned :: "mem \<Rightarrow> u32 \<Rightarrow> u32 \<Rightarrow> nat \<Rightarrow> mem" where
  "memcpy_aligned m edi esi ecx =
    (let edx = ecx mod 4; ecx' = ecx div 4;
         m' = movsl ecx' m edi esi
     in copy_bytes edx m' (edi + of_nat (4 * ecx')) (esi + of_nat (4 * ecx')))"

fun memcpy_top :: "mem \<Rightarrow> u32 \<Rightarrow> u32 \<Rightarrow> nat \<Rightarrow> mem" where
  "memcpy_top m edi esi 0 = m"
| "memcpy_top m edi esi (Suc ecx) =
    (if edi AND 3 = 0 then memcpy_aligned m edi esi (Suc ecx)
     else memcpy_top (m(edi := m esi)) (edi + 1) (esi + 1) ecx)"

definition memcpy :: "mem \<Rightarrow> u32 \<Rightarrow> u32 \<Rightarrow> u32 \<Rightarrow> mem" where
  "memcpy m dest src n = memcpy_top m dest src (unat n)"

lemma copy_one: "m(d := m s) = overlay m d 1 (\<lambda>i. m (s + of_nat i))"
  by (simp add: overlay_1)

lemma byte_of_load32:
  "byte_of 0 (load32 m a) = m a" "byte_of (Suc 0) (load32 m a) = m (a + 1)"
  "byte_of 2 (load32 m a) = m (a + 2)" "byte_of 3 (load32 m a) = m (a + 3)"
  by (rule bit_word_eqI; auto simp: byte_of_def load32_def bit_simps dest: bit_imp_le_length)+

lemma copy_dword: "store32 m d (load32 m s) = overlay m d 4 (\<lambda>i. m (s + of_nat i))"
  by (simp add: store32_def byte_of_load32 overlay_4)

lemma copy_bytes_overlay:
  "sep d n s n \<Longrightarrow> copy_bytes n m d s = overlay m d n (\<lambda>i. m (s + of_nat i))"
proof (induction n arbitrary: m d s)
  case 0
  then show ?case by simp
next
  case (Suc n)
  from Suc.prems have sep: "sep d (1 + n) s (1 + n)" by simp
  have "copy_bytes (Suc n) m d s = copy_bytes n (overlay m d 1 (\<lambda>i. m (s + of_nat i)))
      (d + of_nat 1) (s + of_nat 1)"
    by (simp add: copy_one)
  also have "\<dots> = overlay m d (1 + n) (\<lambda>i. m (s + of_nat i))"
    by (simp only: Suc.IH [OF sep_shift [OF sep]] copy_append [OF sep])
  finally show ?case by simp
qed

lemma movsl_overlay:
  "sep d (4 * n) s (4 * n) \<Longrightarrow> movsl n m d s = overlay m d (4 * n) (\<lambda>i. m (s + of_nat i))"
proof (induction n arbitrary: m d s)
  case 0
  then show ?case by simp
next
  case (Suc n)
  from Suc.prems have sep: "sep d (4 + 4 * n) s (4 + 4 * n)" by simp
  have "movsl (Suc n) m d s = movsl n (overlay m d 4 (\<lambda>i. m (s + of_nat i)))
      (d + of_nat 4) (s + of_nat 4)"
    by (simp add: copy_dword)
  also have "\<dots> = overlay m d (4 + 4 * n) (\<lambda>i. m (s + of_nat i))"
    by (simp only: Suc.IH [OF sep_shift [OF sep]] copy_append [OF sep])
  finally show ?case by simp
qed

lemma memcpy_aligned_overlay:
  assumes "sep d n s n"
  shows "memcpy_aligned m d s n = overlay m d n (\<lambda>i. m (s + of_nat i))"
proof -
  have n: "4 * (n div 4) + n mod 4 = n" by simp
  have sep: "sep d (4 * (n div 4) + n mod 4) s (4 * (n div 4) + n mod 4)"
    using assms by (simp only: n)
  have front: "sep d (4 * (n div 4)) s (4 * (n div 4))"
    using sep by (rule sep_shrink) simp_all
  show ?thesis
    unfolding memcpy_aligned_def Let_def movsl_overlay [OF front]
      copy_bytes_overlay [OF sep_shift [OF sep]] copy_append [OF sep]
    by (simp only: n)
qed

lemma memcpy_top_overlay:
  "sep d n s n \<Longrightarrow> memcpy_top m d s n = overlay m d n (\<lambda>i. m (s + of_nat i))"
proof (induction n arbitrary: m d s)
  case 0
  then show ?case by simp
next
  case (Suc n)
  from Suc.prems have sep: "sep d (1 + n) s (1 + n)" by simp
  show ?case
  proof (cases "d AND 3 = 0")
    case True
    then show ?thesis using memcpy_aligned_overlay [OF Suc.prems] by simp
  next
    case False
    then have "memcpy_top m d s (Suc n) = memcpy_top (overlay m d 1 (\<lambda>i. m (s + of_nat i)))
        (d + of_nat 1) (s + of_nat 1) n"
      by (simp add: copy_one)
    also have "\<dots> = overlay m d (1 + n) (\<lambda>i. m (s + of_nat i))"
      by (simp only: Suc.IH [OF sep_shift [OF sep]] copy_append [OF sep])
    finally show ?thesis by simp
  qed
qed

lemma memcpy_overlay:
  "sep dest (unat n) src (unat n) \<Longrightarrow>
    memcpy m dest src n = overlay m dest (unat n) (\<lambda>i. m (src + of_nat i))"
  by (simp add: memcpy_def memcpy_top_overlay)

subsection \<open>memmove\<close>

text \<open>
  \<open>cmp %edi, %esi; jae\<close> compares the source address with the destination as unsigned
  words; otherwise both pointers are moved to the last byte and \<open>std\<close> makes
  \<open>rep movsb\<close> run downwards.
\<close>

fun copy_bytes_down :: "nat \<Rightarrow> mem \<Rightarrow> u32 \<Rightarrow> u32 \<Rightarrow> mem" where
  "copy_bytes_down 0 m d s = m"
| "copy_bytes_down (Suc k) m d s = copy_bytes_down k (m(d := m s)) (d - 1) (s - 1)"

definition memmove :: "mem \<Rightarrow> u32 \<Rightarrow> u32 \<Rightarrow> u32 \<Rightarrow> mem" where
  "memmove m dest src n =
    (if src \<ge> dest then copy_bytes (unat n) m dest src
     else copy_bytes_down (unat n) m (dest + n - 1) (src + n - 1))"

text \<open>No byte is read after the copy has overwritten it, going up and going down.\<close>

definition up_safe :: "u32 \<Rightarrow> u32 \<Rightarrow> nat \<Rightarrow> bool" where
  "up_safe d s n \<longleftrightarrow> (\<forall>j<n. \<forall>i<j. s + of_nat j \<noteq> d + of_nat i)"

definition down_safe :: "u32 \<Rightarrow> u32 \<Rightarrow> nat \<Rightarrow> bool" where
  "down_safe d s n \<longleftrightarrow> (\<forall>j<n. \<forall>i<j. s + of_nat i \<noteq> d + of_nat j)"

lemma up_safe_Suc: "up_safe d s (Suc n) \<Longrightarrow> up_safe (d + 1) (s + 1) n"
proof -
  assume *: "up_safe d s (Suc n)"
  show ?thesis unfolding up_safe_def
  proof (intro allI impI)
    fix j i assume "j < n" "i < j"
    with * have "s + of_nat (Suc j) \<noteq> d + of_nat (Suc i)" by (simp add: up_safe_def del: of_nat_Suc)
    then show "s + 1 + of_nat j \<noteq> d + 1 + of_nat i" by (simp add: algebra_simps)
  qed
qed

lemma copy_bytes_up:
  "up_safe d s n \<Longrightarrow> n \<le> 4294967296 \<Longrightarrow>
    copy_bytes n m d s = overlay m d n (\<lambda>i. m (s + of_nat i))"
proof (induction n arbitrary: m d s)
  case 0
  then show ?case by simp
next
  case (Suc n)
  have ne: "s + 1 + of_nat i \<noteq> d" if "i < n" for i
  proof -
    have "s + of_nat (Suc i) \<noteq> d + of_nat 0"
      using Suc.prems(1) that unfolding up_safe_def by blast
    then show ?thesis by (simp add: algebra_simps)
  qed
  have "copy_bytes (Suc n) m d s = overlay (m(d := m s)) (d + 1) n
      (\<lambda>i. (m(d := m s)) (s + 1 + of_nat i))"
    using Suc.IH [OF up_safe_Suc [OF Suc.prems(1)]] Suc.prems(2) by simp
  also have "\<dots> = overlay (overlay m d 1 (\<lambda>i. m s)) (d + of_nat 1) n
      (\<lambda>i. m (s + of_nat (Suc i)))"
    using ne by (auto simp: overlay_1 algebra_simps intro!: overlay_cong)
  also have "\<dots> = overlay m d (Suc n) (\<lambda>i. m (s + of_nat i))"
    using Suc.prems(2) by (subst overlay_append) (auto intro!: overlay_cong)
  finally show ?case .
qed

lemma overlay_upd_outside:
  "\<not> unat (x - d) < n \<Longrightarrow> overlay (m(x := v)) d n f = (overlay m d n f)(x := v)"
  by (auto simp: overlay_def fun_eq_iff)

lemma copy_bytes_down_overlay:
  "down_safe d s n \<Longrightarrow> n \<le> 4294967296 \<Longrightarrow>
    copy_bytes_down n m (d + of_nat n - 1) (s + of_nat n - 1) =
    overlay m d n (\<lambda>i. m (s + of_nat i))"
proof (induction n arbitrary: m)
  case 0
  then show ?case by simp
next
  case (Suc n)
  let ?m = "m(d + of_nat n := m (s + of_nat n))"
  have ne: "s + of_nat i \<noteq> d + of_nat n" if "i < n" for i
    using Suc.prems(1) that by (simp add: down_safe_def)
  have safe: "down_safe d s n" using Suc.prems(1) by (simp add: down_safe_def)
  have out: "\<not> unat (d + of_nat n - d) < n"
    using Suc.prems(2) by (simp add: unat_of_nat32)
  have "copy_bytes_down (Suc n) m (d + of_nat (Suc n) - 1) (s + of_nat (Suc n) - 1) =
      copy_bytes_down n ?m (d + of_nat n - 1) (s + of_nat n - 1)"
    by (simp add: algebra_simps)
  also have "\<dots> = overlay ?m d n (\<lambda>i. ?m (s + of_nat i))"
    using Suc.IH [OF safe] Suc.prems(2) by simp
  also have "\<dots> = overlay ?m d n (\<lambda>i. m (s + of_nat i))"
    using ne by (intro overlay_cong) simp
  also have "\<dots> = overlay m d (Suc n) (\<lambda>i. m (s + of_nat i))"
    using Suc.prems(2) by (simp add: overlay_upd_outside [OF out] overlay_Suc)
  finally show ?case .
qed

lemma unat_add_of_nat:
  "unat a + i < 4294967296 \<Longrightarrow> unat (a + of_nat i :: u32) = unat a + i"
  by (simp add: unat_word_ariths unat_of_nat32)

lemma memmove_overlay:
  assumes "unat dest + unat n \<le> 4294967296" and "unat src + unat n \<le> 4294967296"
  shows "memmove m dest src n = overlay m dest (unat n) (\<lambda>i. m (src + of_nat i))"
proof (cases "src \<ge> dest")
  case True
  have "src + of_nat j \<noteq> dest + of_nat i" if "j < unat n" "i < j" for i j
  proof -
    have "unat (src + of_nat j) = unat src + j" "unat (dest + of_nat i) = unat dest + i"
      using assms that by (simp_all add: unat_add_of_nat)
    then show ?thesis using True that by (metis add_le_less_mono leD order_refl word_le_nat_alt)
  qed
  then have "up_safe dest src (unat n)" by (simp add: up_safe_def)
  then show ?thesis using True copy_bytes_up unat_lt32 [of n] by (simp add: memmove_def)
next
  case False
  have "src + of_nat i \<noteq> dest + of_nat j" if "j < unat n" "i < j" for i j
  proof -
    have "unat (src + of_nat i) = unat src + i" "unat (dest + of_nat j) = unat dest + j"
      using assms that by (simp_all add: unat_add_of_nat)
    moreover have "unat src < unat dest" using False by (simp add: word_le_nat_alt)
    ultimately show ?thesis using that by (metis add_less_mono nat_neq_iff)
  qed
  then have "down_safe dest src (unat n)" by (simp add: down_safe_def)
  from copy_bytes_down_overlay [OF this, of m] False unat_lt32 [of n]
  show ?thesis by (simp add: memmove_def)
qed

lemma sep_up_safe: "sep d n s n \<Longrightarrow> up_safe d s n"
  using sep_notin [of d n s n] sep_len [of d n s n]
  by (fastforce simp: up_safe_def unat_of_nat32)

lemma sep_down_safe:
  assumes "sep d n s n"
  shows "down_safe d s n"
  unfolding down_safe_def
proof (intro allI impI)
  fix j i assume "j < n" "i < j"
  then have "\<not> unat (s + of_nat i - d) < n"
    using sep_notin [OF assms] by simp
  moreover have "unat (d + of_nat j - d) < n"
    using \<open>j < n\<close> sep_len [OF assms] by (simp add: unat_of_nat32)
  ultimately show "s + of_nat i \<noteq> d + of_nat j" by metis
qed

lemma memmove_sep:
  assumes "sep dest (unat n) src (unat n)"
  shows "memmove m dest src n = overlay m dest (unat n) (\<lambda>i. m (src + of_nat i))"
proof (cases "src \<ge> dest")
  case True
  then show ?thesis
    using copy_bytes_up [OF sep_up_safe [OF assms]] unat_lt32 [of n] by (simp add: memmove_def)
next
  case False
  with copy_bytes_down_overlay [OF sep_down_safe [OF assms], of m] unat_lt32 [of n]
  show ?thesis by (simp add: memmove_def)
qed

subsection \<open>memset, memset_word, memset_dword\<close>

text \<open>\<open>movb %al, (%edi); addl $1, %edi\<close>, and \<open>rep stosw\<close>, \<open>rep stosl\<close>.\<close>

fun fill_bytes :: "nat \<Rightarrow> mem \<Rightarrow> u32 \<Rightarrow> u32 \<Rightarrow> mem" where
  "fill_bytes 0 m d eax = m"
| "fill_bytes (Suc k) m d eax = fill_bytes k (m(d := byte_of 0 eax)) (d + 1) eax"

fun stosw :: "nat \<Rightarrow> mem \<Rightarrow> u32 \<Rightarrow> u32 \<Rightarrow> mem" where
  "stosw 0 m d eax = m"
| "stosw (Suc k) m d eax = stosw k (m(d := byte_of 0 eax, d + 1 := byte_of 1 eax)) (d + 2) eax"

fun stosl :: "nat \<Rightarrow> mem \<Rightarrow> u32 \<Rightarrow> u32 \<Rightarrow> mem" where
  "stosl 0 m d eax = m"
| "stosl (Suc k) m d eax = stosl k (store32 m d eax) (d + 4) eax"

definition memset_aligned :: "mem \<Rightarrow> u32 \<Rightarrow> u32 \<Rightarrow> nat \<Rightarrow> mem" where
  "memset_aligned m edi eax ecx =
    (let edx = ecx mod 4; ecx' = ecx div 4
     in fill_bytes edx (stosl ecx' m edi eax) (edi + of_nat (4 * ecx')) eax)"

fun memset_top :: "mem \<Rightarrow> u32 \<Rightarrow> u32 \<Rightarrow> nat \<Rightarrow> mem" where
  "memset_top m edi eax 0 = m"
| "memset_top m edi eax (Suc ecx) =
    (if edi AND 3 = 0 then memset_aligned m edi eax (Suc ecx)
     else memset_top (m(edi := byte_of 0 eax)) (edi + 1) eax ecx)"

definition memset :: "mem \<Rightarrow> u32 \<Rightarrow> u32 \<Rightarrow> u32 \<Rightarrow> mem" where
  "memset m s c n =
    (let c = c AND 0xFF
     in memset_top m s (push_bit 24 c OR push_bit 16 c OR push_bit 8 c OR c) (unat n))"

definition memset_word :: "mem \<Rightarrow> u32 \<Rightarrow> u32 \<Rightarrow> u32 \<Rightarrow> mem" where
  "memset_word m s c n = stosw (unat n) m s c"

definition memset_dword :: "mem \<Rightarrow> u32 \<Rightarrow> u32 \<Rightarrow> u32 \<Rightarrow> mem" where
  "memset_dword m s c n = stosl (unat n) m s c"

lemma overlay_2: "overlay m d 2 f = m(d := f 0, d + 1 := f 1)"
  by (simp add: overlay_Suc numeral_2_eq_2)

text \<open>A store of \<open>w\<close> bytes repeated \<open>k\<close> times is one overlay of \<open>k * w\<close> bytes.\<close>

lemma overlay_repeat:
  assumes "\<And>k m d. r (Suc k) m d = r k (overlay m d w f) (d + of_nat w)" "\<And>m d. r 0 m d = m"
    and "k * w \<le> 4294967296"
  shows "r k m d = overlay m d (k * w) (\<lambda>i. f (i mod w))"
  using assms(3)
proof (induction k arbitrary: m d)
  case 0
  then show ?case by (simp add: assms(2))
next
  case (Suc k)
  then have le: "w + k * w \<le> 4294967296" by simp
  have "r (Suc k) m d = overlay (overlay m d w f) (d + of_nat w) (k * w) (\<lambda>i. f (i mod w))"
    using Suc by (simp add: assms(1))
  also have "\<dots> = overlay m d (w + k * w) (\<lambda>i. f (i mod w))"
    by (subst overlay_append [OF le]) (auto intro!: overlay_cong simp: mod_if [of _ w])
  finally show ?case by simp
qed

lemma fill_bytes_overlay:
  "n \<le> 4294967296 \<Longrightarrow> fill_bytes n m d eax = overlay m d n (\<lambda>_. byte_of 0 eax)"
  using overlay_repeat [of "\<lambda>k m d. fill_bytes k m d eax" "Suc 0" "\<lambda>_. byte_of 0 eax" n m d]
  by (simp add: overlay_1)

lemma stosl_overlay:
  "4 * n \<le> 4294967296 \<Longrightarrow> stosl n m d eax = overlay m d (4 * n) (\<lambda>i. byte_of (i mod 4) eax)"
  using overlay_repeat [of "\<lambda>k m d. stosl k m d eax" 4 "\<lambda>i. byte_of i eax" n m d]
  by (simp add: overlay_4 store32_def mult.commute)

lemma stosw_overlay:
  "2 * n \<le> 4294967296 \<Longrightarrow> stosw n m d eax = overlay m d (2 * n) (\<lambda>i. byte_of (i mod 2) eax)"
  using overlay_repeat [of "\<lambda>k m d. stosw k m d eax" 2 "\<lambda>i. byte_of i eax" n m d]
  by (simp add: overlay_2 mult.commute)

text \<open>\<open>eax\<close> holds the fill byte four times over.\<close>

definition splat :: "u8 \<Rightarrow> u32 \<Rightarrow> bool" where
  "splat b eax \<longleftrightarrow> (\<forall>k<4. byte_of k eax = b)"

lemma memset_aligned_overlay:
  assumes "splat b eax" and "n < 4294967296"
  shows "memset_aligned m d eax n = overlay m d n (\<lambda>_. b)"
proof -
  have n: "4 * (n div 4) + n mod 4 = n" by simp
  have b: "byte_of (i mod 4) eax = b" "byte_of 0 eax = b" for i
    using assms(1) by (simp_all add: splat_def)
  have "4 * (n div 4) \<le> 4294967296" "n mod 4 \<le> 4294967296"
    using assms(2) by simp_all
  then have "memset_aligned m d eax n =
      overlay (overlay m d (4 * (n div 4)) (\<lambda>_. b)) (d + of_nat (4 * (n div 4))) (n mod 4) (\<lambda>_. b)"
    by (simp only: memset_aligned_def Let_def stosl_overlay fill_bytes_overlay b)
  also have "\<dots> = overlay m d (4 * (n div 4) + n mod 4) (\<lambda>_. b)"
    using assms(2) by (subst overlay_append) simp_all
  finally show ?thesis by (simp only: n)
qed

lemma memset_top_overlay:
  "splat b eax \<Longrightarrow> n < 4294967296 \<Longrightarrow> memset_top m d eax n = overlay m d n (\<lambda>_. b)"
proof (induction n arbitrary: m d)
  case 0
  then show ?case by simp
next
  case (Suc n)
  have b: "byte_of 0 eax = b" using Suc.prems(1) by (simp add: splat_def)
  show ?case
  proof (cases "d AND 3 = 0")
    case True
    then show ?thesis using memset_aligned_overlay [OF Suc.prems] by simp
  next
    case False
    then have "memset_top m d eax (Suc n) =
        overlay (overlay m d 1 (\<lambda>_. b)) (d + of_nat 1) n (\<lambda>_. b)"
      using Suc by (simp add: b overlay_1)
    also have "\<dots> = overlay m d (1 + n) (\<lambda>_. b)"
      using Suc.prems(2) by (subst overlay_append) simp_all
    finally show ?thesis by simp
  qed
qed

lemma splat_memset:
  "splat (ucast c) (let c = (c :: u32) AND 0xFF
    in push_bit 24 c OR push_bit 16 c OR push_bit 8 c OR c)"
proof -
  have ff: "(0xFF :: u32) = mask 8" by (simp add: mask_eq_exp_minus_1)
  have "byte_of k (let c = c AND 0xFF in push_bit 24 c OR push_bit 16 c OR push_bit 8 c OR c)
      = ucast c" if "k < 4" for k
  proof -
    have "k = 0 \<or> k = 1 \<or> k = 2 \<or> k = 3" using that by linarith
    then show ?thesis
      unfolding ff
      by (elim disjE; simp add: byte_of_def Let_def; intro bit_word_eqI)
         (auto simp: bit_simps)
  qed
  then show ?thesis by (simp add: splat_def)
qed

lemma memset_overlay: "memset m s c n = overlay m s (unat n) (\<lambda>_. ucast c)"
  using memset_top_overlay [OF splat_memset unat_lt32] by (simp add: memset_def Let_def)

subsection \<open>The contract of a block copy\<close>

text \<open>
  What the callers of \<open>memcpy\<close> rely on: between blocks that do not meet, the copy
  replaces the destination block by the source block and touches nothing else.
\<close>

locale block_copy =
  fixes copy :: "mem \<Rightarrow> u32 \<Rightarrow> u32 \<Rightarrow> u32 \<Rightarrow> mem"
  assumes copy_overlay:
    "sep dest (unat n) src (unat n) \<Longrightarrow>
      copy m dest src n = overlay m dest (unat n) (\<lambda>i. m (src + of_nat i))"
begin

lemma copy_inside:
  "sep dest (unat n) src (unat n) \<Longrightarrow> i < unat n \<Longrightarrow>
    copy m dest src n (dest + of_nat i) = m (src + of_nat i)"
  using unat_lt32 [of n] by (simp add: copy_overlay overlay_inside)

lemma copy_frame:
  "sep dest (unat n) src (unat n) \<Longrightarrow> \<not> unat (a - dest) < unat n \<Longrightarrow>
    copy m dest src n a = m a"
  by (simp add: copy_overlay overlay_outside)

lemma copy_source:
  "sep dest (unat n) src (unat n) \<Longrightarrow> i < unat n \<Longrightarrow>
    copy m dest src n (src + of_nat i) = m (src + of_nat i)"
  by (simp add: copy_overlay sep_reads)

text \<open>
  Saving a block and copying it back later restores it, whatever was written to the
  block in between: the video pages of the terminals rest on this.
\<close>

lemma copy_back:
  assumes "sep dest (unat n) src (unat n)" and "i < unat n"
    and "\<And>i. i < unat n \<Longrightarrow> m' (dest + of_nat i) = copy m dest src n (dest + of_nat i)"
  shows "copy m' src dest n (src + of_nat i) = m (src + of_nat i)"
  using assms copy_inside [OF sep_sym [OF assms(1)], of i m'] copy_inside [OF assms(1)] by simp

end

interpretation cpy: block_copy memcpy
  by unfold_locales (rule memcpy_overlay)

interpretation mov: block_copy memmove
  by unfold_locales (rule memmove_sep)

subsection \<open>Properties\<close>

text \<open>\<open>memcpy\<close> (head bytes up to an aligned destination, \<open>rep movsl\<close>, tail bytes) copies
  exactly the \<open>n\<close> bytes of the source block when the blocks do not meet, and changes
  no other byte.\<close>

theorem memcpy_copies_block:
  assumes "sep dest (unat n) src (unat n)"
  shows "memcpy m dest src n a =
    (if unat (a - dest) < unat n then m (src + (a - dest)) else m a)"
  by (simp add: cpy.copy_overlay [OF assms] overlay_def)

theorem memcpy_copies_block_witness:
  "memcpy (\<lambda>a. ucast a) 0x1003 0x2001 11 0x1009 = 7"
  using memcpy_copies_block [of "0x1003" 11 "0x2001" "\<lambda>a. ucast a" "0x1009"]
  by (simp add: sep_def)

text \<open>C19: \<open>memmove\<close> is correct for blocks that overlap in any way: every destination byte gets
  the value its source byte had before the call, as long as neither block wraps around the
  end of the address space.\<close>

theorem memmove_any_overlap:
  assumes "unat dest + unat n \<le> 2 ^ 32" and "unat src + unat n \<le> 2 ^ 32"
  shows "memmove m dest src n a =
    (if unat (a - dest) < unat n then m (src + (a - dest)) else m a)"
  using assms by (simp add: memmove_overlay overlay_def)

theorem memmove_any_overlap_witness:
  "memmove (\<lambda>a. ucast a) 0x1003 0x1001 11 0x1009 = 7"
  using memmove_any_overlap [of "0x1003" 11 "0x1001" "\<lambda>a. ucast a" "0x1009"] by simp

text \<open>\<open>memset\<close> (head bytes, \<open>rep stosl\<close> of the byte repeated four times, tail bytes) sets
  exactly \<open>n\<close> bytes to the low byte of \<open>c\<close>, for every alignment and every \<open>n\<close>.\<close>

theorem memset_fills_block:
  "memset m s c n a = (if unat (a - s) < unat n then ucast c else m a)"
  by (simp add: memset_overlay overlay_def)

end
