(* ===== verification/Lib_String.thy ===== *)
theory Lib_String
  imports Lib_Mem
begin

text \<open>
  The string routines of \<open>lib.c\<close>: \<open>strlen\<close>, \<open>strncmp\<close>, \<open>strcpy\<close>, \<open>strncpy\<close>,
  \<open>strrev\<close> and \<open>itoa\<close>.  A string argument that is only read is the function \<open>i \<mapsto> s[i]\<close>
  (\<open>view m p\<close> for a pointer \<open>p\<close> into memory \<open>m\<close>); a destination is a pointer into the
  memory the routine returns.  Source and destination of the copying routines are
  different objects, as in every call of the kernel.  A loop without a bound of its own
  is an \<open>option\<close> function: \<open>None\<close> says that it does not return, or that it indexes
  outside an object.
\<close>

type_synonym cstr = "u32 \<Rightarrow> u8"

definition view :: "mem \<Rightarrow> u32 \<Rightarrow> cstr" where
  "view m p = (\<lambda>i. m (p + i))"

lemma view_apply [simp]: "view m p i = m (p + i)"
  by (simp add: view_def)

text \<open>\<open>s\<close> holds the bytes \<open>xs\<close>, none of them zero, and then a NUL.\<close>

definition holds_str :: "cstr \<Rightarrow> u8 list \<Rightarrow> bool" where
  "holds_str s xs \<longleftrightarrow> length xs < 4294967296 \<and> 0 \<notin> set xs \<and>
     (\<forall>i<length xs. s (of_nat i) = xs ! i) \<and> s (of_nat (length xs)) = 0"

text \<open>The bytes of \<open>s\<close> from index \<open>i\<close> on, up to a NUL and at most \<open>k\<close> of them.\<close>

fun chars :: "cstr \<Rightarrow> u32 \<Rightarrow> nat \<Rightarrow> u8 list" where
  "chars s i 0 = []"
| "chars s i (Suc k) = (if s i = 0 then [] else s i # chars s (i + 1) k)"

lemma chars_length: "length (chars s i k) \<le> k"
  by (induction k arbitrary: i) auto

lemma chars_nonzero: "0 \<notin> set (chars s i k)"
  by (induction k arbitrary: i) auto

lemma chars_nth: "j < length (chars s i k) \<Longrightarrow> chars s i k ! j = s (i + of_nat j)"
proof (induction k arbitrary: i j)
  case (Suc k)
  then show ?case by (cases j) (auto simp: algebra_simps split: if_splits)
qed simp

lemma chars_stop: "length (chars s i k) < k \<Longrightarrow> s (i + of_nat (length (chars s i k))) = 0"
  by (induction k arbitrary: i) (auto simp: add.assoc [symmetric])

subsection \<open>strlen\<close>

partial_function (option) strlen_from :: "cstr \<Rightarrow> u32 \<Rightarrow> u32 option" where
  "strlen_from s len = (if s len \<noteq> 0 then strlen_from s (len + 1) else Some len)"

definition strlen :: "cstr \<Rightarrow> u32 option" where
  "strlen s = strlen_from s 0"

lemma strlen_from_walk:
  "\<forall>j<n. s (l + of_nat j) \<noteq> 0 \<Longrightarrow> s (l + of_nat n) = 0 \<Longrightarrow>
    strlen_from s l = Some (l + of_nat n)"
proof (induction n arbitrary: l)
  case 0
  then show ?case by (simp add: strlen_from.simps)
next
  case (Suc n)
  have "s l \<noteq> 0" using Suc.prems(1) [rule_format, of 0] by simp
  moreover have "strlen_from s (l + 1) = Some (l + 1 + of_nat n)"
  proof (rule Suc.IH)
    show "\<forall>j<n. s (l + 1 + of_nat j) \<noteq> 0"
    proof (intro allI impI)
      fix j assume "j < n"
      then show "s (l + 1 + of_nat j) \<noteq> 0"
        using Suc.prems(1) [rule_format, of "Suc j"] by (simp add: add.assoc)
    qed
    show "s (l + 1 + of_nat n) = 0"
      using Suc.prems(2) by (simp add: algebra_simps)
  qed
  ultimately show ?case by (subst strlen_from.simps) (simp add: algebra_simps)
qed

lemma strlen_holds: "holds_str s xs \<Longrightarrow> strlen s = Some (of_nat (length xs))"
  unfolding strlen_def holds_str_def
  by (subst strlen_from_walk [of "length xs"]) (auto simp: nth_mem dest: nth_mem)

lemma strlen_from_result: "strlen_from s l = Some r \<Longrightarrow> s r = 0"
  by (rule strlen_from.raw_induct [where P = "\<lambda>s l r. s r = 0"]) (auto split: if_splits)

lemma strlen_returns: "(\<exists>n. strlen s = Some n) \<longleftrightarrow> (\<exists>i. s i = 0)"
proof
  assume "\<exists>n. strlen s = Some n"
  then show "\<exists>i. s i = 0" by (auto simp: strlen_def dest: strlen_from_result)
next
  assume "\<exists>i. s i = 0"
  then obtain i where "s i = 0" ..
  then have ex: "s (of_nat (unat i)) = 0" by simp
  define n where "n = (LEAST n. s (of_nat n) = 0)"
  have "s (of_nat n) = 0" unfolding n_def by (rule LeastI) (rule ex)
  moreover have "\<forall>j<n. s (of_nat j) \<noteq> 0" unfolding n_def by (blast dest: not_less_Least)
  ultimately show "\<exists>n. strlen s = Some n"
    using strlen_from_walk [of n s 0] by (auto simp: strlen_def)
qed

subsection \<open>strncmp\<close>

text \<open>The characters are \<open>int8_t\<close>: the difference is taken on their signed values.\<close>

fun strncmp_from :: "cstr \<Rightarrow> cstr \<Rightarrow> u32 \<Rightarrow> nat \<Rightarrow> int" where
  "strncmp_from s1 s2 i 0 = 0"
| "strncmp_from s1 s2 i (Suc k) =
    (if s1 i \<noteq> s2 i \<or> s1 i = 0 then sint (s1 i) - sint (s2 i)
     else strncmp_from s1 s2 (i + 1) k)"

definition strncmp :: "cstr \<Rightarrow> cstr \<Rightarrow> u32 \<Rightarrow> int" where
  "strncmp s1 s2 n = strncmp_from s1 s2 0 (unat n)"

lemma sint_eq_iff8: "sint (a :: u8) = sint b \<longleftrightarrow> a = b"
  by (auto intro: signed_word_eqI)

lemma strncmp_from_eq: "strncmp_from s1 s2 i k = 0 \<longleftrightarrow> chars s1 i k = chars s2 i k"
  by (induction k arbitrary: i) (auto simp: sint_eq_iff8 sint_eq_iff8 [of _ 0, simplified])

lemma strncmp_eq: "strncmp s1 s2 n = 0 \<longleftrightarrow> chars s1 0 (unat n) = chars s2 0 (unat n)"
  by (simp add: strncmp_def strncmp_from_eq)

subsection \<open>strcpy and strncpy\<close>

partial_function (option) strcpy_from :: "mem \<Rightarrow> u32 \<Rightarrow> cstr \<Rightarrow> u32 \<Rightarrow> mem option" where
  "strcpy_from m dest src i =
    (if src i \<noteq> 0 then strcpy_from (m(dest + i := src i)) dest src (i + 1)
     else Some (m(dest + i := 0)))"

definition strcpy :: "mem \<Rightarrow> u32 \<Rightarrow> cstr \<Rightarrow> mem option" where
  "strcpy m dest src = strcpy_from m dest src 0"

fun strncpy_fill :: "mem \<Rightarrow> u32 \<Rightarrow> u32 \<Rightarrow> nat \<Rightarrow> mem" where
  "strncpy_fill m dest i 0 = m"
| "strncpy_fill m dest i (Suc k) = strncpy_fill (m(dest + i := 0)) dest (i + 1) k"

fun strncpy_from :: "mem \<Rightarrow> u32 \<Rightarrow> cstr \<Rightarrow> u32 \<Rightarrow> nat \<Rightarrow> mem" where
  "strncpy_from m dest src i 0 = m"
| "strncpy_from m dest src i (Suc k) =
    (if src i \<noteq> 0 then strncpy_from (m(dest + i := src i)) dest src (i + 1) k
     else strncpy_fill m dest i (Suc k))"

definition strncpy :: "mem \<Rightarrow> u32 \<Rightarrow> cstr \<Rightarrow> u32 \<Rightarrow> mem" where
  "strncpy m dest src n = strncpy_from m dest src 0 (unat n)"

text \<open>A list of bytes, or a list padded with NULs, as the contents of an overlay.\<close>

definition bytes_at :: "u8 list \<Rightarrow> nat \<Rightarrow> u8" where
  "bytes_at xs i = (if i < length xs then xs ! i else 0)"

lemma bytes_at_Nil [simp]: "bytes_at [] i = 0"
  by (simp add: bytes_at_def)

lemma bytes_at_Cons: "bytes_at (x # xs) i = (case i of 0 \<Rightarrow> x | Suc j \<Rightarrow> bytes_at xs j)"
  by (cases i) (simp_all add: bytes_at_def)

lemma overlay_step:
  "Suc k \<le> 4294967296 \<Longrightarrow> overlay (m(a := v)) (a + 1) k f =
    overlay m a (Suc k) (\<lambda>i. case i of 0 \<Rightarrow> v | Suc j \<Rightarrow> f j)"
  using overlay_append [of "Suc 0" k m a "\<lambda>_. v" f]
  by (auto simp: overlay_1 intro!: overlay_cong split: nat.split)

lemma strncpy_fill_overlay:
  "k \<le> 4294967296 \<Longrightarrow> strncpy_fill m dest i k = overlay m (dest + i) k (\<lambda>_. 0)"
proof (induction k arbitrary: m i)
  case (Suc k)
  then have "strncpy_fill m dest i (Suc k) = overlay (m(dest + i := 0)) (dest + i + 1) k (\<lambda>_. 0)"
    by (simp add: algebra_simps)
  also have "\<dots> = overlay m (dest + i) (Suc k) (\<lambda>_. 0)"
    using Suc.prems by (subst overlay_step) (auto intro!: overlay_cong split: nat.split)
  finally show ?case .
qed simp

lemma strncpy_from_overlay:
  "k \<le> 4294967296 \<Longrightarrow>
    strncpy_from m dest src i k = overlay m (dest + i) k (bytes_at (chars src i k))"
proof (induction k arbitrary: m i)
  case (Suc k)
  show ?case
  proof (cases "src i = 0")
    case True
    then show ?thesis
      using Suc.prems strncpy_fill_overlay [of "Suc k" m dest i]
      by (auto intro!: overlay_cong simp del: strncpy_fill.simps)
  next
    case False
    then have "strncpy_from m dest src i (Suc k) =
        overlay (m(dest + i := src i)) (dest + i + 1) k (bytes_at (chars src (i + 1) k))"
      using Suc by (simp add: algebra_simps)
    also have "\<dots> = overlay m (dest + i) (Suc k) (bytes_at (chars src i (Suc k)))"
      using Suc.prems False by (subst overlay_step) (auto intro!: overlay_cong simp: bytes_at_Cons)
    finally show ?thesis .
  qed
qed simp

lemma strncpy_overlay:
  "strncpy m dest src n = overlay m dest (unat n) (bytes_at (chars src 0 (unat n)))"
  using strncpy_from_overlay [of "unat n" m dest src 0] unat_lt32 [of n]
  by (simp add: strncpy_def)

lemma strcpy_from_walk:
  "\<forall>j<n. src (i + of_nat j) \<noteq> 0 \<Longrightarrow> src (i + of_nat n) = 0 \<Longrightarrow> Suc n \<le> 4294967296 \<Longrightarrow>
    strcpy_from m dest src i = Some (overlay m (dest + i) (Suc n) (\<lambda>j. src (i + of_nat j)))"
proof (induction n arbitrary: m i)
  case 0
  then show ?case by (subst strcpy_from.simps) (simp add: overlay_1)
next
  case (Suc n)
  have nz: "src i \<noteq> 0" using Suc.prems(1) [rule_format, of 0] by simp
  have "strcpy_from (m(dest + i := src i)) dest src (i + 1) =
      Some (overlay (m(dest + i := src i)) (dest + (i + 1)) (Suc n) (\<lambda>j. src (i + 1 + of_nat j)))"
  proof (rule Suc.IH)
    show "\<forall>j<n. src (i + 1 + of_nat j) \<noteq> 0"
    proof (intro allI impI)
      fix j assume "j < n"
      then show "src (i + 1 + of_nat j) \<noteq> 0"
        using Suc.prems(1) [rule_format, of "Suc j"] by (simp add: add.assoc)
    qed
    show "src (i + 1 + of_nat n) = 0" using Suc.prems(2) by (simp add: algebra_simps)
  qed (use Suc.prems(3) in simp)
  then have "strcpy_from m dest src i =
      Some (overlay (m(dest + i := src i)) (dest + i + 1) (Suc n) (\<lambda>j. src (i + 1 + of_nat j)))"
    using nz by (subst strcpy_from.simps) (simp add: add.assoc)
  also have "\<dots> = Some (overlay m (dest + i) (Suc (Suc n)) (\<lambda>j. src (i + of_nat j)))"
    using Suc.prems(3) by (subst overlay_step)
      (auto intro!: overlay_cong simp: algebra_simps split: nat.split)
  finally show ?case .
qed

lemma strcpy_holds:
  assumes "holds_str src xs"
  shows "strcpy m dest src = Some (overlay m dest (Suc (length xs)) (bytes_at xs))"
proof -
  have "strcpy m dest src =
      Some (overlay m (dest + 0) (Suc (length xs)) (\<lambda>j. src (0 + of_nat j)))"
    unfolding strcpy_def using assms
    by (intro strcpy_from_walk) (auto simp: holds_str_def dest: nth_mem)
  also have "\<dots> = Some (overlay m dest (Suc (length xs)) (bytes_at xs))"
    using assms by (auto simp: holds_str_def bytes_at_def less_Suc_eq intro!: overlay_cong)
  finally show ?thesis .
qed

subsection \<open>strrev\<close>

text \<open>
  \<open>beg\<close> and \<open>end\<close> are \<open>int32_t\<close>; \<open>end\<close> starts at \<open>strlen(s) - 1\<close>, which is \<open>-1\<close> for the
  empty string.
\<close>

function strrev_loop :: "mem \<Rightarrow> u32 \<Rightarrow> int \<Rightarrow> int \<Rightarrow> mem" where
  "strrev_loop m s beg end' =
    (if beg < end' then
       let tmp = m (s + of_int end');
           m1 = m(s + of_int end' := m (s + of_int beg));
           m2 = m1(s + of_int beg := tmp)
       in strrev_loop m2 s (beg + 1) (end' - 1)
     else m)"
  by pat_completeness auto
termination
  by (relation "measure (\<lambda>(m, s, b, e). nat (e - b))") auto

declare strrev_loop.simps [simp del]

definition strrev :: "mem \<Rightarrow> u32 \<Rightarrow> mem option" where
  "strrev m s =
    do { len \<leftarrow> strlen (view m s);
         Some (strrev_loop m s 0 (sint (len - 1))) }"

text \<open>The loop on the contents of the buffer: positions between \<open>b\<close> and \<open>e\<close> are mirrored.\<close>

lemma strrev_loop_overlay:
  "Suc e - b = k \<Longrightarrow> e < n \<Longrightarrow> n \<le> 4294967296 \<Longrightarrow> b \<le> Suc e \<Longrightarrow>
    strrev_loop (overlay m s n f) s (int b) (int e) =
      overlay m s n (\<lambda>i. if b \<le> i \<and> i \<le> e then f (b + e - i) else f i)"
proof (induction k arbitrary: b e f rule: less_induct)
  case (less k)
  show ?case
  proof (cases "b < e")
    case False
    with less.prems have "b + e - i = i" if "b \<le> i" "i \<le> e" for i using that by simp
    then show ?thesis using False
      by (subst strrev_loop.simps) (auto intro!: overlay_cong)
  next
    case True
    let ?g = "f(e := f b, b := f e)"
    have be: "of_int (int b) = (of_nat b :: u32)" "of_int (int e) = (of_nat e :: u32)" by simp_all
    have ub: "unat (of_nat b :: u32) = b" "unat (of_nat e :: u32) = e"
      using True less.prems by (simp_all add: unat_of_nat32)
    have swap: "(overlay m s n f)(s + of_nat e := f b, s + of_nat b := f e) = overlay m s n ?g"
      using True less.prems by (auto simp: fun_eq_iff overlay_def ub)
    have "strrev_loop (overlay m s n f) s (int b) (int e) =
        strrev_loop (overlay m s n ?g) s (int (Suc b)) (int (e - 1))"
      using True less.prems swap
      by (subst strrev_loop.simps) (simp add: Let_def be overlay_inside of_nat_diff add.commute)
    also have "\<dots> = overlay m s n
        (\<lambda>i. if Suc b \<le> i \<and> i \<le> e - 1 then ?g (Suc b + (e - 1) - i) else ?g i)"
      using True less.prems by (intro less.IH [OF _ refl]) simp_all
    also have "\<dots> = overlay m s n (\<lambda>i. if b \<le> i \<and> i \<le> e then f (b + e - i) else f i)"
      using True by (intro overlay_cong) auto
    finally show ?thesis .
  qed
qed

lemma overlay_self:
  "(\<And>i. i < n \<Longrightarrow> m (s + of_nat i) = f i) \<Longrightarrow> overlay m s n f = m"
proof
  fix x assume *: "\<And>i. i < n \<Longrightarrow> m (s + of_nat i) = f i"
  show "overlay m s n f x = m x"
    using * [of "unat (x - s)"] by (auto simp: overlay_def)
qed

lemma strrev_holds:
  assumes "holds_str (view m s) xs" and "length xs \<le> 2147483648"
  shows "strrev m s = Some (overlay m s (length xs) (bytes_at (rev xs)))"
proof (cases "xs = []")
  case True
  then show ?thesis
    using strlen_holds [OF assms(1)] by (simp add: strrev_def strrev_loop.simps)
next
  case False
  define n where "n = length xs"
  have n: "0 < n" "n \<le> 2147483648" using False assms(2) by (auto simp: n_def)
  have len: "strlen (view m s) = Some (of_nat n)"
    using strlen_holds [OF assms(1)] by (simp add: n_def)
  have m: "overlay m s n (bytes_at xs) = m"
    using assms(1) by (intro overlay_self) (simp add: holds_str_def bytes_at_def n_def)
  have e: "sint (of_nat n - 1 :: u32) = int (n - 1)"
  proof -
    obtain k where "n = Suc k" using n(1) by (cases n) auto
    then show ?thesis using n(2) by (simp add: sint_of_nat32)
  qed
  have "strrev_loop (overlay m s n (bytes_at xs)) s (int 0) (int (n - 1)) =
      overlay m s n (\<lambda>i. if 0 \<le> i \<and> i \<le> n - 1 then bytes_at xs (0 + (n - 1) - i) else bytes_at xs i)"
    using n by (intro strrev_loop_overlay) simp_all
  also have "\<dots> = overlay m s n (bytes_at (rev xs))"
    using n by (intro overlay_cong) (auto simp: bytes_at_def rev_nth n_def)
  finally have "strrev_loop m s 0 (sint (of_nat n - 1 :: u32)) = overlay m s n (bytes_at (rev xs))"
    by (simp add: e m)
  then show ?thesis using len by (simp add: strrev_def n_def)
qed

subsection \<open>itoa\<close>

definition lookup :: "u8 list" where
  "lookup = ascii ''0123456789ABCDEFGHIJKLMNOPQRSTUVWXYZ'' @ [0]"

text \<open>
  \<open>i = newval % radix\<close> on unsigned words; a zero radix raises the divide exception and an
  index past the 37 bytes of \<open>lookup\<close> reads outside the table.
\<close>

partial_function (option) itoa_loop :: "mem \<Rightarrow> u32 \<Rightarrow> u32 \<Rightarrow> u32 \<Rightarrow> (mem \<times> u32) option" where
  "itoa_loop m newbuf newval radix =
    (if newval > 0 then
       if radix = 0 \<or> \<not> unat (newval mod radix) < length lookup then None
       else itoa_loop (m(newbuf := lookup ! unat (newval mod radix)))
              (newbuf + 1) (newval div radix) radix
     else Some (m, newbuf))"

definition itoa :: "mem \<Rightarrow> u32 \<Rightarrow> u32 \<Rightarrow> u32 \<Rightarrow> mem option" where
  "itoa m value buf radix =
    (if value = 0 then Some (m(buf := 0x30, buf + 1 := 0))
     else do { (m', newbuf) \<leftarrow> itoa_loop m buf value radix;
               strrev (m'(newbuf := 0)) buf })"

text \<open>Reference: the digits of a number, least significant first, and how to read them.\<close>

fun digits :: "nat \<Rightarrow> nat \<Rightarrow> nat list" where
  "digits r n = (if n = 0 \<or> r < 2 then [] else n mod r # digits r (n div r))"

declare digits.simps [simp del]

lemma digits_simps [simp]:
  "digits r 0 = []"
  "0 < n \<Longrightarrow> 2 \<le> r \<Longrightarrow> digits r n = n mod r # digits r (n div r)"
  by (simp_all add: digits.simps [of r])

definition digit_val :: "u8 \<Rightarrow> nat" where
  "digit_val b = (if b \<le> 0x39 then unat b - 0x30 else unat b - 0x37)"

definition read_number :: "nat \<Rightarrow> u8 list \<Rightarrow> nat" where
  "read_number r xs = foldl (\<lambda>a b. a * r + digit_val b) 0 xs"

definition itoa_str :: "nat \<Rightarrow> nat \<Rightarrow> u8 list" where
  "itoa_str r n = (if n = 0 then [0x30] else map (\<lambda>d. lookup ! d) (rev (digits r n)))"

lemma lookup_bytes:
  "lookup = [48, 49, 50, 51, 52, 53, 54, 55, 56, 57, 65, 66, 67, 68, 69, 70, 71, 72,
    73, 74, 75, 76, 77, 78, 79, 80, 81, 82, 83, 84, 85, 86, 87, 88, 89, 90, 0]"
  by (simp add: lookup_def ascii_def)

lemma length_lookup [simp]: "length lookup = 37"
  by (simp add: lookup_bytes)

lemma lookup_digit: "d < 36 \<Longrightarrow> lookup ! d \<noteq> 0 \<and> digit_val (lookup ! d) = d"
proof -
  have "list_all (\<lambda>d. lookup ! d \<noteq> 0 \<and> digit_val (lookup ! d) = d) [0..<36]"
    by (simp add: lookup_bytes digit_val_def upt_rec)
  then show "d < 36 \<Longrightarrow> lookup ! d \<noteq> 0 \<and> digit_val (lookup ! d) = d"
    by (simp add: list_all_iff)
qed

lemma digits_lt: "2 \<le> r \<Longrightarrow> d \<in> set (digits r n) \<Longrightarrow> d < r"
proof (induction n rule: less_induct)
  case (less n)
  show ?case
  proof (cases "n = 0")
    case False
    with less.prems have "n div r < n" by simp
    with False less show ?thesis by auto
  qed (use less.prems in simp)
qed

lemma digits_length: "2 \<le> r \<Longrightarrow> n < 2 ^ k \<Longrightarrow> length (digits r n) \<le> k"
proof (induction k arbitrary: n)
  case 0
  then show ?case by simp
next
  case (Suc k)
  have "n div r \<le> n div 2" using Suc.prems(1) by (intro div_le_mono2) simp_all
  also have "n div 2 < 2 ^ k" using Suc.prems(2) by auto
  finally show ?case using Suc by (cases "n = 0") simp_all
qed

lemma digits_value: "2 \<le> r \<Longrightarrow> foldr (\<lambda>d a. a * r + d) (digits r n) 0 = n"
proof (induction n rule: less_induct)
  case (less n)
  then show ?case by (cases "n = 0") (simp_all add: div_mult_mod_eq)
qed

lemma read_itoa_str:
  assumes "2 \<le> r" "r \<le> 36"
  shows "read_number r (itoa_str r n) = n"
proof (cases "n = 0")
  case True
  then show ?thesis by (simp add: itoa_str_def read_number_def digit_val_def)
next
  case False
  have "foldl (\<lambda>a b. a * r + digit_val b) 0 (map (\<lambda>d. lookup ! d) (rev ds)) =
      foldr (\<lambda>d a. a * r + d) ds 0" if "\<forall>d \<in> set ds. d < 36" for ds
    using that by (induction ds) (simp_all add: lookup_digit)
  moreover have "\<forall>d \<in> set (digits r n). d < 36"
    using digits_lt [OF assms(1)] assms(2) by fastforce
  ultimately show ?thesis
    using False digits_value [OF assms(1), of n] by (simp add: itoa_str_def read_number_def)
qed

lemma itoa_loop_overlay:
  assumes "2 \<le> unat r" "unat r \<le> 36"
  shows "unat v < 2 ^ k \<Longrightarrow> k \<le> 32 \<Longrightarrow> itoa_loop m p v r =
    Some (overlay m p (length (digits (unat r) (unat v)))
            (bytes_at (map (\<lambda>d. lookup ! d) (digits (unat r) (unat v)))),
          p + of_nat (length (digits (unat r) (unat v))))"
proof (induction k arbitrary: m p v)
  case 0
  then have "v = 0" by (simp add: unat_eq_zero)
  then show ?case by (subst itoa_loop.simps) simp
next
  case (Suc k)
  show ?case
  proof (cases "v = 0")
    case True
    then show ?thesis by (subst itoa_loop.simps) simp
  next
    case False
    let ?ds = "digits (unat r) (unat v div unat r)"
    have pos: "0 < v" "0 < unat v" using False by (simp_all add: word_neq_0_conv unat_gt_0)
    have r0: "r \<noteq> 0" using assms(1) by auto
    have dm: "unat (v mod r) = unat v mod unat r" "unat (v div r) = unat v div unat r"
      by (simp_all add: unat_mod unat_div)
    have "unat v mod unat r < 36"
      using assms mod_less_divisor [of "unat r" "unat v"] by linarith
    then have i: "unat (v mod r) < 37" using dm by simp
    have small: "unat v div unat r < 2 ^ k"
    proof -
      have "unat v div unat r \<le> unat v div 2" using assms(1) by (intro div_le_mono2) simp_all
      also have "\<dots> < 2 ^ k" using Suc.prems(1) by auto
      finally show ?thesis .
    qed
    have len: "length ?ds \<le> 31"
      using digits_length [OF assms(1) small] Suc.prems(2) by simp
    have "itoa_loop m p v r =
        Some (overlay (m(p := lookup ! unat (v mod r))) (p + 1) (length ?ds)
                (bytes_at (map (\<lambda>d. lookup ! d) ?ds)), p + 1 + of_nat (length ?ds))"
      using pos r0 i Suc.IH [of "v div r"] small Suc.prems(2)
      by (subst itoa_loop.simps) (simp add: dm)
    also have "overlay (m(p := lookup ! unat (v mod r))) (p + 1) (length ?ds)
          (bytes_at (map (\<lambda>d. lookup ! d) ?ds)) =
        overlay m p (Suc (length ?ds)) (bytes_at (map (\<lambda>d. lookup ! d) (digits (unat r) (unat v))))"
      using len pos assms(1)
      by (subst overlay_step) (auto simp: bytes_at_Cons dm intro!: overlay_cong)
    finally show ?thesis using pos assms(1) by (simp add: add.assoc)
  qed
qed

lemma itoa_overlay:
  assumes "2 \<le> unat r" "unat r \<le> 36"
  shows "itoa m v buf r = Some (overlay m buf (Suc (length (itoa_str (unat r) (unat v))))
    (bytes_at (itoa_str (unat r) (unat v))))"
proof (cases "v = 0")
  case True
  have "overlay m buf (Suc (Suc 0)) (bytes_at [48]) = m(buf := 48, buf + 1 := 0)"
    by (simp add: overlay_Suc bytes_at_def)
  then show ?thesis using True by (simp add: itoa_def itoa_str_def)
next
  case False
  define ds where "ds = digits (unat r) (unat v)"
  define xs where "xs = map (\<lambda>d. lookup ! d) ds"
  have str: "itoa_str (unat r) (unat v) = rev xs"
    using False by (simp add: itoa_str_def xs_def ds_def rev_map unat_eq_zero)
  have len: "length xs \<le> 32"
    using digits_length [OF assms(1), of "unat v" 32] unat_lt32 [of v] by (simp add: xs_def ds_def)
  have "0 \<notin> set xs"
    using digits_lt [OF assms(1)] assms(2) lookup_digit by (fastforce simp: xs_def ds_def)
  let ?m = "(overlay m buf (length xs) (bytes_at xs))(buf + of_nat (length xs) := 0)"
  have m: "?m = overlay m buf (Suc (length xs)) (bytes_at xs)"
    using len by (simp add: overlay_Suc) (simp add: bytes_at_def)
  have "itoa_loop m buf v r = Some (overlay m buf (length xs) (bytes_at xs), buf + of_nat (length xs))"
    using itoa_loop_overlay [OF assms, of v 32 m buf] unat_lt32 [of v] by (simp add: xs_def ds_def)
  then have "itoa m v buf r = strrev ?m buf"
    using False by (simp add: itoa_def)
  also have "\<dots> = Some (overlay ?m buf (length xs) (bytes_at (rev xs)))"
  proof (rule strrev_holds)
    show "holds_str (view ?m buf) xs"
      unfolding m using len \<open>0 \<notin> set xs\<close> by (auto simp: holds_str_def overlay_inside bytes_at_def)
  qed (use len in simp)
  also have "overlay ?m buf (length xs) (bytes_at (rev xs)) =
      overlay m buf (Suc (length xs)) (bytes_at (rev xs))"
    unfolding m using len by (auto simp: fun_eq_iff overlay_def bytes_at_def less_Suc_eq)
  finally show ?thesis by (simp add: str)
qed

lemma itoa_str_ok:
  assumes "2 \<le> unat r" "unat r \<le> 36"
  shows "0 \<notin> set (itoa_str (unat r) (unat (v :: u32))) \<and> length (itoa_str (unat r) (unat v)) \<le> 32"
proof -
  have "lookup ! d \<noteq> 0" if "d \<in> set (digits (unat r) (unat v))" for d
    using digits_lt [OF assms(1) that] assms(2) lookup_digit by simp
  then show ?thesis
    using digits_length [OF assms(1), of "unat v" 32] unat_lt32 [of v]
    by (force simp: itoa_str_def)
qed

lemma unat_le_of_nat: "unat (of_nat k :: u32) \<le> k"
  by (simp add: unat_of_nat take_bit_nat_less_eq_self)

subsection \<open>Properties\<close>

text \<open>C20: \<open>itoa\<close> always returns, for every radix from 2 to 36 and every value: it writes a
  NUL-terminated string into the buffer, and reading that string back in the same radix
  gives the value.\<close>

theorem itoa_round_trip:
  assumes "2 \<le> unat radix" and "unat radix \<le> 36"
  shows "\<exists>m' xs. itoa m v buf radix = Some m' \<and> holds_str (view m' buf) xs \<and>
    read_number (unat radix) xs = unat v \<and>
    (\<forall>a. \<not> unat (a - buf) \<le> length xs \<longrightarrow> m' a = m a)"
proof -
  define xs where "xs = itoa_str (unat radix) (unat v)"
  have "holds_str (view (overlay m buf (Suc (length xs)) (bytes_at xs)) buf) xs"
    using itoa_str_ok [OF assms, of v] by (auto simp: holds_str_def overlay_inside bytes_at_def xs_def)
  then show ?thesis
    using itoa_overlay [OF assms, of m v buf] read_itoa_str [OF assms, of "unat v"]
    by (intro exI [of _ "overlay m buf (Suc (length xs)) (bytes_at xs)"] exI [of _ xs])
       (auto simp: xs_def overlay_def)
qed

theorem itoa_round_trip_witness:
  "\<exists>m' xs. itoa (\<lambda>_. 0) 0x391 0x1000 16 = Some m' \<and> holds_str (view m' 0x1000) xs \<and>
    read_number 16 xs = 913 \<and> (\<forall>a. \<not> unat (a - 0x1000) \<le> length xs \<longrightarrow> m' a = 0)"
  using itoa_round_trip [of 16 "\<lambda>_. 0" "0x391" "0x1000"] by simp

text \<open>\<open>strncmp\<close> returns 0 exactly when the strings agree up to a NUL or up to \<open>n\<close>
  characters; this is the equality by which the file system finds names.\<close>

theorem strncmp_zero_iff:
  "strncmp s1 s2 n = 0 \<longleftrightarrow> chars s1 0 (unat n) = chars s2 0 (unat n)"
  by (rule strncmp_eq)

text \<open>\<open>strlen\<close> returns exactly when there is a NUL, and then its result is the length of the
  string before the first one.\<close>

theorem strlen_first_nul:
  "strlen s = Some n \<longleftrightarrow> s n = 0 \<and> (\<forall>i<n. s i \<noteq> 0)"
proof
  assume *: "strlen s = Some n"
  then have z: "s n = 0" by (auto simp: strlen_def dest: strlen_from_result)
  have "\<exists>k. s (of_nat k) = 0 \<and> (\<forall>j<k. s (of_nat j) \<noteq> 0)"
    using exists_least_iff [of "\<lambda>k. s (of_nat k) = 0"] z by (metis of_nat_unat32)
  then obtain k where k: "s (of_nat k) = 0" "\<forall>j<k. s (of_nat j) \<noteq> 0" by blast
  then have n: "n = of_nat k"
    using strlen_from_walk [of k s 0] * by (simp add: strlen_def)
  have "s i \<noteq> 0" if "i < n" for i
  proof -
    have "unat i < k"
      using that n by (metis le_less_trans of_nat_unat32 not_le word_less_nat_alt unat_le_of_nat)
    then show ?thesis using k(2) by (metis of_nat_unat32)
  qed
  then show "s n = 0 \<and> (\<forall>i<n. s i \<noteq> 0)" using z by blast
next
  assume *: "s n = 0 \<and> (\<forall>i<n. s i \<noteq> 0)"
  have "s (of_nat j) \<noteq> 0" if "j < unat n" for j
    using that * unat_lt32 [of n] by (simp add: word_less_nat_alt unat_of_nat32)
  then show "strlen s = Some n"
    using strlen_from_walk [of "unat n" s 0] * by (simp add: strlen_def)
qed

theorem strlen_first_nul_witness:
  "strlen (\<lambda>i. if i = 3 then 0 else 0x41) = Some 3"
  using strlen_first_nul [of "\<lambda>i. if i = 3 then 0 else 0x41" 3] by simp

end
