(* ===== verification/Machine.thy ===== *)
theory Machine
  imports Prelude
begin

text \<open>
  The machine under the C code: physical memory, the bytes sent to I/O ports by \<open>outb\<close>
  (oldest first) and the interrupt flag set by \<open>cli\<close> and \<open>sti\<close>.  A byte read by \<open>inb\<close>
  comes from a device and is an argument of the operation that reads it.  The records of
  the components extend this one, so that every C global is one field of the kernel state.
\<close>

record machine =
  phys :: mem
  io :: "(u16 \<times> u8) list"
  intr :: bool

definition outb :: "u32 \<Rightarrow> u16 \<Rightarrow> 'a machine_scheme \<Rightarrow> 'a machine_scheme" where
  "outb data port s = s\<lparr>io := io s @ [(port, ucast data)]\<rparr>"

definition cli :: "'a machine_scheme \<Rightarrow> 'a machine_scheme" where
  "cli s = s\<lparr>intr := False\<rparr>"

definition sti :: "'a machine_scheme \<Rightarrow> 'a machine_scheme" where
  "sti s = s\<lparr>intr := True\<rparr>"

lemma machine_frame [frame_simps]:
  "phys (outb d p s) = phys s" "intr (outb d p s) = intr s"
  "phys (cli s) = phys s" "io (cli s) = io s" "phys (sti s) = phys s" "io (sti s) = io s"
  by (simp_all add: outb_def cli_def sti_def)

lemma machine_effect [simp]:
  "io (outb d p s) = io s @ [(p, ucast d)]" "\<not> intr (cli s)" "intr (sti s)"
  by (simp_all add: outb_def cli_def sti_def)

lemma machine_more [frame_simps]:
  "machine.more (outb d p s) = machine.more s" "machine.more (cli s) = machine.more s"
  "machine.more (sti s) = machine.more s"
  by (simp_all add: outb_def cli_def sti_def)

text \<open>The last byte sent to a port: what a write-only device register holds.\<close>

fun last_out :: "u16 \<Rightarrow> (u16 \<times> u8) list \<Rightarrow> u8 option" where
  "last_out p [] = None"
| "last_out p ((q, d) # xs) =
    (case last_out p xs of Some e \<Rightarrow> Some e | None \<Rightarrow> if p = q then Some d else None)"

lemma last_out_append [simp]:
  "last_out p (xs @ ys) = (case last_out p ys of Some e \<Rightarrow> Some e | None \<Rightarrow> last_out p xs)"
  by (induction xs) (auto split: option.splits)

subsection \<open>Busy waiting\<close>

text \<open>
  \<open>while (p);\<close> with interrupts enabled.  The list holds what the rest of the system does
  between two evaluations of the condition; \<open>None\<close> says that the loop is still spinning when
  the list is used up (or that one of the events has no defined result).
\<close>

fun spin_while :: "('s \<Rightarrow> bool) \<Rightarrow> ('s \<Rightarrow> 's option) list \<Rightarrow> 's \<Rightarrow> 's option" where
  "spin_while p [] s = (if p s then None else Some s)"
| "spin_while p (e # es) s =
    (if p s then do { s' \<leftarrow> e s; spin_while p es s' } else Some s)"

lemma spin_while_exit: "spin_while p es s = Some t \<Longrightarrow> \<not> p t"
  by (induction es arbitrary: s) (auto split: if_splits bind_splits)

lemma spin_while_inv:
  assumes "\<And>e s t. e \<in> set es \<Longrightarrow> I s \<Longrightarrow> e s = Some t \<Longrightarrow> I t"
  shows "I s \<Longrightarrow> spin_while p es s = Some t \<Longrightarrow> I t"
  using assms
proof (induction es arbitrary: s)
  case Nil
  then show ?case by (auto split: if_splits)
next
  case (Cons e es)
  show ?case
  proof (cases "p s")
    case True
    with Cons.prems(2) obtain u where u: "e s = Some u" "spin_while p es u = Some t"
      by (auto split: bind_splits)
    have "I u" using Cons.prems(3) [of e] Cons.prems(1) u(1) by simp
    then show ?thesis using u(2) Cons.prems(3) by (intro Cons.IH) auto
  next
    case False
    with Cons.prems show ?thesis by simp
  qed
qed

text \<open>As long as no event ends the wait, the loop does not return.\<close>

lemma spin_while_stuck:
  assumes "\<And>e s t. e \<in> set es \<Longrightarrow> p s \<Longrightarrow> e s = Some t \<Longrightarrow> p t"
  shows "p s \<Longrightarrow> spin_while p es s = None"
  using assms
proof (induction es arbitrary: s)
  case Nil
  then show ?case by simp
next
  case (Cons e es)
  then show ?case by (cases "e s") auto
qed

text \<open>An event that ends the wait is enough, whatever comes before and after it.\<close>

lemma spin_while_returns:
  assumes "\<And>e s. e \<in> set es1 \<Longrightarrow> \<exists>t. e s = Some t"
    and "\<And>s. \<exists>t. e s = Some t \<and> \<not> p t"
  shows "\<exists>t. spin_while p (es1 @ e # es2) s = Some t"
  using assms(1)
proof (induction es1 arbitrary: s)
  case Nil
  obtain t where "e s = Some t" "\<not> p t" using assms(2) by blast
  moreover have "spin_while p es2 t = Some t" using \<open>\<not> p t\<close> by (cases es2) auto
  ultimately show ?case by simp
next
  case (Cons f es1)
  then obtain t where "f s = Some t" by (meson list.set_intros(1))
  moreover have "\<exists>u. spin_while p (es1 @ e # es2) t = Some u"
    using Cons by (meson list.set_intros(2))
  ultimately show ?case by simp
qed

end
