(* ===== verification/I8259.thy ===== *)
theory I8259
  imports Machine
begin

text \<open>
  The interrupt controller (\<open>i8259.c\<close>): the two mask variables, initialisation, and the
  masking, unmasking and end-of-interrupt operations.  The abstract view of the controller
  is the set of masked interrupt lines.
\<close>

record pic = machine +
  master_mask :: u8
  slave_mask :: u8

abbreviation "MASTER_8259_PORT \<equiv> (0x20 :: u16)"
abbreviation "SLAVE_8259_PORT \<equiv> (0xA0 :: u16)"
abbreviation "MASTER_8259_PORT_DATA \<equiv> (0x21 :: u16)"
abbreviation "SLAVE_8259_PORT_DATA \<equiv> (0xA1 :: u16)"

definition i8259_init :: "'a pic_scheme \<Rightarrow> 'a pic_scheme" where
  "i8259_init s =
    (let s = s\<lparr>master_mask := 0xFF, slave_mask := 0xFF\<rparr>;
         s = outb 0x11 MASTER_8259_PORT s;
         s = outb 0x11 SLAVE_8259_PORT s;
         s = outb 0x20 MASTER_8259_PORT_DATA s;
         s = outb 0x28 SLAVE_8259_PORT_DATA s;
         s = outb 0x04 MASTER_8259_PORT_DATA s;
         s = outb 0x02 SLAVE_8259_PORT_DATA s;
         s = outb 0x01 MASTER_8259_PORT_DATA s;
         s = outb 0x01 SLAVE_8259_PORT_DATA s;
         s = outb (ucast (master_mask s)) MASTER_8259_PORT_DATA s
     in outb (ucast (slave_mask s)) SLAVE_8259_PORT_DATA s)"

text \<open>The last two lines of \<open>enable_irq\<close> and \<open>disable_irq\<close>.\<close>

definition write_masks :: "'a pic_scheme \<Rightarrow> 'a pic_scheme" where
  "write_masks s = outb (ucast (slave_mask s)) SLAVE_8259_PORT_DATA
     (outb (ucast (master_mask s)) MASTER_8259_PORT_DATA s)"

text \<open>
  \<open>1 << n\<close> is an \<open>int\<close>; the compound assignments truncate the result to the 8 bits of the mask.
\<close>

definition irq_bit :: "u32 \<Rightarrow> u8" where
  "irq_bit n = ucast (push_bit (unat n) (1 :: u32))"

definition enable_irq :: "u32 \<Rightarrow> 'a pic_scheme \<Rightarrow> 'a pic_scheme" where
  "enable_irq irq_num s =
    write_masks
      (if irq_num < 8 then s\<lparr>master_mask := master_mask s AND NOT (irq_bit irq_num)\<rparr>
       else s\<lparr>slave_mask := slave_mask s AND NOT (irq_bit (irq_num - 8)),
              master_mask := master_mask s AND NOT (irq_bit irq_num)\<rparr>)"

definition disable_irq :: "u32 \<Rightarrow> 'a pic_scheme \<Rightarrow> 'a pic_scheme" where
  "disable_irq irq_num s =
    write_masks
      (if irq_num < 8 then s\<lparr>master_mask := master_mask s OR irq_bit irq_num\<rparr>
       else s\<lparr>slave_mask := slave_mask s OR irq_bit (irq_num - 8),
              master_mask := master_mask s OR irq_bit irq_num\<rparr>)"

definition send_eoi :: "u32 \<Rightarrow> 'a pic_scheme \<Rightarrow> 'a pic_scheme" where
  "send_eoi irq_num s =
    (if irq_num \<ge> 8 then
       outb (0x60 OR 0x02) MASTER_8259_PORT (outb (0x60 OR (irq_num - 8)) SLAVE_8259_PORT s)
     else outb (0x60 OR irq_num) MASTER_8259_PORT s)"

lemmas pic_defs = i8259_init_def write_masks_def enable_irq_def disable_irq_def send_eoi_def

subsection \<open>The masked lines\<close>

definition masked :: "'a pic_scheme \<Rightarrow> nat set" where
  "masked s = {i. i < 8 \<and> bit (master_mask s) i} \<union> {i. 8 \<le> i \<and> i < 16 \<and> bit (slave_mask s) (i - 8)}"

text \<open>The controllers hold the masks the variables say.\<close>

definition pic_synced :: "'a pic_scheme \<Rightarrow> bool" where
  "pic_synced s \<longleftrightarrow> last_out MASTER_8259_PORT_DATA (io s) = Some (master_mask s) \<and>
     last_out SLAVE_8259_PORT_DATA (io s) = Some (slave_mask s)"

lemma write_masks_state [simp]:
  "master_mask (write_masks s) = master_mask s" "slave_mask (write_masks s) = slave_mask s"
  "pic_synced (write_masks s)"
  by (simp_all add: write_masks_def outb_def pic_synced_def)

lemma bit_irq_bit: "bit (irq_bit n) i \<longleftrightarrow> i < 8 \<and> i = unat n"
  by (auto simp: irq_bit_def bit_simps bit_1_iff)

lemma unat_irq_sub: "8 \<le> (n :: u32) \<Longrightarrow> unat (n - 8) = unat n - 8"
  by (simp add: unat_sub word_le_nat_alt)

lemma masked_enable: "n < 16 \<Longrightarrow> masked (enable_irq n s) = masked s - {unat n}"
  by (auto simp: masked_def enable_irq_def bit_and_iff bit_not_iff bit_irq_bit unat_irq_sub
      word_less_nat_alt word_le_nat_alt)

lemma masked_disable: "n < 16 \<Longrightarrow> masked (disable_irq n s) = masked s \<union> {unat n}"
  by (auto simp: masked_def disable_irq_def bit_or_iff bit_irq_bit unat_irq_sub
      word_less_nat_alt word_le_nat_alt)

lemma masked_init: "masked (i8259_init s) = {..<16}"
proof -
  have ff: "(0xFF :: u8) = mask 8" by (simp add: mask_eq_exp_minus_1)
  show ?thesis
    by (auto simp: masked_def i8259_init_def Let_def outb_def ff bit_mask_iff)
qed

lemma synced_ops [inv_intros]:
  "pic_synced (i8259_init s)" "pic_synced (enable_irq n s)" "pic_synced (disable_irq n s)"
  "pic_synced s \<Longrightarrow> pic_synced (send_eoi n s)"
  by (auto simp: i8259_init_def enable_irq_def disable_irq_def send_eoi_def pic_synced_def
      write_masks_def Let_def outb_def)

lemma pic_frame [frame_simps]:
  "phys (enable_irq n s) = phys s" "phys (disable_irq n s) = phys s" "phys (send_eoi n s) = phys s"
  "intr (enable_irq n s) = intr s" "intr (disable_irq n s) = intr s" "intr (send_eoi n s) = intr s"
  "master_mask (send_eoi n s) = master_mask s" "slave_mask (send_eoi n s) = slave_mask s"
  by (auto simp: pic_defs outb_def)

lemma pic_more [frame_simps]:
  "pic.more (enable_irq n s) = pic.more s" "pic.more (disable_irq n s) = pic.more s"
  "pic.more (send_eoi n s) = pic.more s"
  by (auto simp: pic_defs outb_def)

text \<open>The state before initialisation, for the examples.\<close>

definition pic_bss :: pic where
  "pic_bss = \<lparr>phys = (\<lambda>_. 0), io = [], intr = False, master_mask = 0, slave_mask = 0\<rparr>"

subsection \<open>Properties\<close>

text \<open>\<open>enable_irq\<close> and \<open>disable_irq\<close> unmask and mask exactly the line they are given, on the
  master and on the slave, and both leave the controllers holding the masks the driver's
  variables say; neither touches memory or the interrupt flag.\<close>

theorem irq_masking:
  assumes "irq_num < 16"
  shows "masked (enable_irq irq_num s) = masked s - {unat irq_num} \<and>
    masked (disable_irq irq_num s) = insert (unat irq_num) (masked s) \<and>
    pic_synced (enable_irq irq_num s) \<and> pic_synced (disable_irq irq_num s) \<and>
    phys (enable_irq irq_num s) = phys s \<and> intr (disable_irq irq_num s) = intr s"
  using masked_enable [OF assms, of s] masked_disable [OF assms, of s]
  by (simp add: inv_intros frame_simps)

theorem irq_masking_witness:
  "masked (enable_irq 8 (i8259_init pic_bss)) = {..<16} - {8}"
  using irq_masking [of 8 "i8259_init pic_bss"] by (simp add: masked_init)

end
