(* ===== verification/Rtc.thy ===== *)
theory Rtc
  imports I8259
begin

text \<open>
  The real-time clock driver (\<open>rtc.c\<close>).  The bytes its \<open>inb\<close> calls read are arguments.
  \<open>cmos\<close> replays a sequence of port writes on the clock's register file, by the protocol
  the comments of \<open>rtc.c\<close> quote: port 0x70 selects a register (bit 7 disables NMI), port
  0x71 writes it.
\<close>

record rtc = pic +
  rate :: u8
  rtc_interrupt_flag :: int

abbreviation "PORT_1 \<equiv> (0x70 :: u16)"
abbreviation "PORT_2 \<equiv> (0x71 :: u16)"

definition rtc_init :: "u8 \<Rightarrow> u8 \<Rightarrow> 'a rtc_scheme \<Rightarrow> 'a rtc_scheme" where
  "rtc_init prev_b prev_a s =
    (let s = cli s;
         s = disable_irq 8 s;
         s = disable_irq 2 s;
         s = outb 0x8B PORT_1 s;
         s = outb 0x8B PORT_1 s;
         s = outb (ucast (prev_b OR 0x40)) PORT_2 s;
         s = s\<lparr>rate := 0x0F\<rparr>;
         s = outb 0x8A PORT_1 s;
         s = outb 0x8A PORT_1 s;
         s = outb (ucast ((prev_a AND 0xF0) OR rate s)) PORT_2 s;
         s = enable_irq 2 s;
         s = enable_irq 8 s;
         s = outb 0x8C PORT_1 s
     in sti s)"

definition rtc_handle_interrupt :: "'a rtc_scheme \<Rightarrow> 'a rtc_scheme" where
  "rtc_handle_interrupt s =
    (let s = cli s;
         s = outb 0x8C PORT_1 s;
         s = send_eoi 8 s;
         s = s\<lparr>rtc_interrupt_flag := 0\<rparr>
     in sti s)"

definition rtc_open :: "u8 \<Rightarrow> u8 \<Rightarrow> 'a rtc_scheme \<Rightarrow> 'a rtc_scheme \<times> int" where
  "rtc_open prev_b prev_a s = (rtc_init prev_b prev_a s, 0)"

definition rtc_read ::
  "('a rtc_scheme \<Rightarrow> 'a rtc_scheme option) list \<Rightarrow> 'a rtc_scheme \<Rightarrow> ('a rtc_scheme \<times> int) option" where
  "rtc_read env s =
    do { let s = sti s;
         let s = s\<lparr>rtc_interrupt_flag := 1\<rparr>;
         s \<leftarrow> spin_while (\<lambda>s. rtc_interrupt_flag s \<noteq> 0) env s;
         Some (s, 0) }"

text \<open>The \<open>switch\<close> of \<open>rtc_write\<close>.\<close>

definition rtc_rate :: "u32 \<Rightarrow> u32 option" where
  "rtc_rate freq =
    (if freq = 2 then Some 0xF else if freq = 4 then Some 0xE
     else if freq = 8 then Some 0xD else if freq = 16 then Some 0xC
     else if freq = 32 then Some 0xB else if freq = 64 then Some 0xA
     else if freq = 128 then Some 0x9 else if freq = 256 then Some 0x8
     else if freq = 512 then Some 0x7 else if freq = 1024 then Some 0x6
     else None)"

text \<open>\<open>freq\<close> is \<open>*(int*)buf\<close>, \<open>prev\<close> the byte read back from register A.\<close>

definition rtc_write :: "u32 \<Rightarrow> u8 \<Rightarrow> 'a rtc_scheme \<Rightarrow> 'a rtc_scheme \<times> int" where
  "rtc_write freq prev s =
    (let s = sti s
     in if freq AND (freq - 1) \<noteq> 0 then (s, -1)
        else if sint freq < 0 \<or> sint freq > 1024 then (s, -1)
        else case rtc_rate freq of
            None \<Rightarrow> (s, -1)
          | Some r \<Rightarrow>
             (let s = cli s;
                  s = outb 0x8A PORT_1 s;
                  s = outb 0x8A PORT_1 s;
                  s = outb ((ucast prev AND 0xF0) OR r) PORT_2 s
              in (sti s, 0)))"

definition rtc_close :: "'a rtc_scheme \<Rightarrow> 'a rtc_scheme \<times> int" where
  "rtc_close s = (s, 0)"

subsection \<open>The clock's registers\<close>

fun cmos_step :: "u8 \<times> (u8 \<Rightarrow> u8 option) \<Rightarrow> u16 \<times> u8 \<Rightarrow> u8 \<times> (u8 \<Rightarrow> u8 option)" where
  "cmos_step (sel, regs) (p, d) =
    (if p = PORT_1 then (d AND 0x7F, regs)
     else if p = PORT_2 then (sel, regs(sel \<mapsto> d)) else (sel, regs))"

definition cmos :: "(u16 \<times> u8) list \<Rightarrow> u8 \<Rightarrow> u8 option" where
  "cmos tr = snd (foldl cmos_step (0x0D, Map.empty) tr)"

lemma cmos_select_write:
  "cmos (tr @ [(PORT_1, r), (PORT_1, r), (PORT_2, d)]) = (cmos tr)(r AND 0x7F \<mapsto> d)"
  by (cases "foldl cmos_step (0x0D, Map.empty) tr") (simp add: cmos_def)

lemma cmos_step_other [simp]: "p \<noteq> PORT_1 \<Longrightarrow> p \<noteq> PORT_2 \<Longrightarrow> cmos_step r (p, d) = r"
  by (cases r) simp

lemma cmos_select: "cmos (tr @ [(PORT_1, r)]) = cmos tr"
  by (cases "foldl cmos_step (0x0D, Map.empty) tr") (simp add: cmos_def)

lemma cmos_pic:
  "cmos (io (enable_irq n s)) = cmos (io s)" "cmos (io (disable_irq n s)) = cmos (io s)"
  by (simp_all add: enable_irq_def disable_irq_def write_masks_def outb_def cmos_def)

subsection \<open>rtc_write\<close>

lemma rtc_rate_pow:
  "rtc_rate freq = Some r \<longleftrightarrow> (\<exists>k. 1 \<le> k \<and> k \<le> 10 \<and> freq = 2 ^ k \<and> r = of_nat (16 - k))"
proof -
  have range: "1 \<le> k \<and> k \<le> 10 \<longleftrightarrow> k \<in> {1, 2, 3, 4, 5, 6, 7, 8, 9, 10}" for k :: nat
  proof -
    have "{k. 1 \<le> k \<and> k \<le> 10} = set [1..<11 :: nat]" by auto
    also have "\<dots> = {1, 2, 3, 4, 5, 6, 7, 8, 9, 10}" by (simp add: upt_rec numeral_eq_Suc)
    finally show ?thesis by blast
  qed
  have "(\<exists>k. 1 \<le> k \<and> k \<le> 10 \<and> freq = 2 ^ k \<and> r = of_nat (16 - k)) \<longleftrightarrow>
      (\<exists>k \<in> {1, 2, 3, 4, 5, 6, 7, 8, 9, 10}. freq = 2 ^ k \<and> r = of_nat (16 - k))"
    by (simp only: Bex_def range [symmetric] conj_assoc)
  also have "\<dots> \<longleftrightarrow> rtc_rate freq = Some r"
    by (auto simp: rtc_rate_def)
  finally show ?thesis ..
qed

lemma rtc_rate_guards:
  assumes "rtc_rate freq = Some r"
  shows "freq AND (freq - 1) = 0" "\<not> sint freq < 0" "\<not> sint freq > 1024" "r AND 0xF0 = 0" "r < 16"
  using assms by (auto simp: rtc_rate_def split: if_splits)

lemma rtc_write_error: "rtc_rate freq = None \<Longrightarrow> rtc_write freq prev s = (sti s, -1)"
  by (simp add: rtc_write_def Let_def)

lemma rtc_write_ok:
  assumes "rtc_rate freq = Some r"
  shows "rtc_write freq prev s =
    (s\<lparr>intr := True, io := io s @ [(PORT_1, 0x8A), (PORT_1, 0x8A),
        (PORT_2, (prev AND 0xF0) OR ucast r)]\<rparr>, 0)"
proof -
  have "(ucast ((ucast prev AND 0xF0) OR r) :: u8) = (prev AND 0xF0) OR ucast r"
    by (rule bit_word_eqI) (auto simp: bit_simps)
  then show ?thesis
    using rtc_rate_guards [OF assms] assms
    by (simp add: rtc_write_def Let_def outb_def cli_def sti_def)
qed

lemma rtc_write_cmos:
  assumes "rtc_rate freq = Some r"
  shows "cmos (io (fst (rtc_write freq prev s))) = (cmos (io s))(0x0A \<mapsto> (prev AND 0xF0) OR ucast r)"
  using cmos_select_write [of "io s" "0x8A"] by (simp add: rtc_write_ok [OF assms])

subsection \<open>Waiting for an interrupt\<close>

lemma rtc_handle_clears: "rtc_interrupt_flag (rtc_handle_interrupt s) = 0"
  by (simp add: rtc_handle_interrupt_def Let_def sti_def)

lemma rtc_handle_frame [frame_simps]:
  "phys (rtc_handle_interrupt s) = phys s"
  "master_mask (rtc_handle_interrupt s) = master_mask s"
  "slave_mask (rtc_handle_interrupt s) = slave_mask s"
  "rate (rtc_handle_interrupt s) = rate s"
  "rtc.more (rtc_handle_interrupt s) = rtc.more s"
  "intr (rtc_handle_interrupt s)"
  by (simp_all add: rtc_handle_interrupt_def Let_def sti_def cli_def outb_def send_eoi_def)

lemma rtc_read_waits:
  assumes "\<And>e s t. e \<in> set env \<Longrightarrow> rtc_interrupt_flag s \<noteq> 0 \<Longrightarrow> e s = Some t \<Longrightarrow>
    rtc_interrupt_flag t \<noteq> 0"
  shows "rtc_read env s = None"
proof -
  have "spin_while (\<lambda>s. rtc_interrupt_flag s \<noteq> 0) env ((sti s)\<lparr>rtc_interrupt_flag := 1\<rparr>) = None"
    by (rule spin_while_stuck) (use assms in auto)
  then show ?thesis by (simp add: rtc_read_def Let_def)
qed

lemma rtc_read_wakes:
  assumes "\<And>e s. e \<in> set es1 \<Longrightarrow> \<exists>t. e s = Some t"
  shows "\<exists>t. rtc_read (es1 @ (\<lambda>s. Some (rtc_handle_interrupt s)) # es2) s = Some (t, 0)"
proof -
  have "\<exists>t. spin_while (\<lambda>s. rtc_interrupt_flag s \<noteq> 0)
      (es1 @ (\<lambda>s. Some (rtc_handle_interrupt s)) # es2) ((sti s)\<lparr>rtc_interrupt_flag := 1\<rparr>) = Some t"
    by (rule spin_while_returns) (use assms rtc_handle_clears in auto)
  then show ?thesis by (auto simp: rtc_read_def Let_def)
qed

lemma ucast_small: "n \<le> 16 \<Longrightarrow> (ucast (of_nat n :: u32) :: u8) = of_nat n"
  by (simp add: unsigned_of_nat take_bit_nat_eq_self)

lemma rtc_read_flag: "rtc_read env s = Some (t, r) \<Longrightarrow> rtc_interrupt_flag t = 0"
  by (auto simp: rtc_read_def Let_def dest: spin_while_exit split: bind_splits)

text \<open>The state before initialisation, for the examples.\<close>

definition rtc_bss :: rtc where
  "rtc_bss = \<lparr>phys = (\<lambda>_. 0), io = [], intr = False, master_mask = 0xFF, slave_mask = 0xFF,
    rate = 0, rtc_interrupt_flag = 0\<rparr>"

subsection \<open>Properties\<close>

text \<open>C24: \<open>rtc_write\<close> accepts exactly the powers of two from 2 to 1024; for \<open>2 ^ k\<close> it programs
  the rate \<open>16 - k\<close> into register A of the clock, keeping the upper half of the register, and
  for any other frequency it fails without a port write.\<close>

theorem rtc_write_rates:
  "(case rtc_write freq prev s of (s', r) \<Rightarrow>
     (if \<exists>k \<in> {1..10}. freq = 2 ^ k
      then r = 0 \<and> (\<exists>k \<in> {1..10}. freq = 2 ^ k \<and>
             cmos (io s') = (cmos (io s))(0x0A \<mapsto> (prev AND 0xF0) OR of_nat (16 - k)))
      else r = -1 \<and> io s' = io s) \<and> intr s' \<and> phys s' = phys s)"
proof (cases "rtc_rate freq")
  case None
  then have "\<not> (\<exists>k \<in> {1..10}. freq = 2 ^ k)"
    using rtc_rate_pow [of freq] by fastforce
  then show ?thesis by (simp add: rtc_write_error [OF None] frame_simps)
next
  case (Some r)
  then obtain k where k: "k \<in> {1..10}" "freq = 2 ^ k" "r = of_nat (16 - k)"
    using rtc_rate_pow [of freq r] by auto
  then have u: "(ucast r :: u8) = of_nat (16 - k)"
    using ucast_small [of "16 - k"] by simp
  obtain s' where w: "rtc_write freq prev s = (s', 0)" "intr s'" "phys s' = phys s"
    using rtc_write_ok [OF Some, of prev s] by auto
  have "cmos (io s') = (cmos (io s))(0x0A \<mapsto> (prev AND 0xF0) OR of_nat (16 - k))"
    using rtc_write_cmos [OF Some, of prev s] u w(1) by simp
  then show ?thesis using k(1,2) w by (simp only: w prod.case) metis
qed

text \<open>A read of the clock blocks until the next clock interrupt: it does not return as long as
  nothing that happens meanwhile clears the flag, and returns 0 once the handler has run.\<close>

theorem rtc_read_until_interrupt:
  assumes total: "\<And>e s. e \<in> set es1 \<Longrightarrow> \<exists>t. e s = Some t"
    and quiet: "\<And>e s t. e \<in> set es1 \<Longrightarrow> rtc_interrupt_flag s \<noteq> 0 \<Longrightarrow> e s = Some t \<Longrightarrow>
      rtc_interrupt_flag t \<noteq> 0"
  shows "rtc_read es1 s = None \<and>
    (\<exists>t. rtc_read (es1 @ (\<lambda>s. Some (rtc_handle_interrupt s)) # es2) s = Some (t, 0) \<and>
      rtc_interrupt_flag t = 0)"
proof
  show "rtc_read es1 s = None" by (rule rtc_read_waits) (rule quiet)
  have "\<exists>t. rtc_read (es1 @ (\<lambda>s. Some (rtc_handle_interrupt s)) # es2) s = Some (t, 0)"
    by (rule rtc_read_wakes) (rule total)
  then show "\<exists>t. rtc_read (es1 @ (\<lambda>s. Some (rtc_handle_interrupt s)) # es2) s = Some (t, 0) \<and>
      rtc_interrupt_flag t = 0"
    using rtc_read_flag by blast
qed

theorem rtc_read_until_interrupt_witness:
  "rtc_read [\<lambda>s. Some (send_eoi 0 s)] rtc_bss = None \<and>
   (\<exists>t. rtc_read ([\<lambda>s. Some (send_eoi 0 s)] @ (\<lambda>s. Some (rtc_handle_interrupt s)) # []) rtc_bss =
      Some (t, 0) \<and> rtc_interrupt_flag t = 0)"
  by (rule rtc_read_until_interrupt) (auto simp: send_eoi_def outb_def)

end
