(* ===== verification/Paging.thy ===== *)
theory Paging
  imports Rtc
begin

text \<open>
  The page tables (\<open>initpaging.c\<close>, with the control-register writes of \<open>paging.S\<close>).  The
  two static tables are arrays of 1024 entries; the addresses the linker gives them are the
  fields \<open>pd_addr\<close> and \<open>pt_addr\<close>, which no operation changes.  \<open>seen_pd\<close> and \<open>seen_pt\<close> are
  the tables as they were when \<open>cr3\<close> was last loaded: a change made after that may be
  hidden by the translation cache until \<open>tlb_flush\<close>.

  \<open>walk\<close> is the machine's translation of a 32-bit linear address through such tables
  (two levels, 4 MB pages when bit 7 of the directory entry is set); the lemmas say which
  addresses the kernel's tables map, where, and for whom.
\<close>

record paging = rtc +
  page_directory :: "nat \<Rightarrow> u32"
  first_page_table :: "nat \<Rightarrow> u32"
  pd_addr :: u32
  pt_addr :: u32
  cr0 :: u32
  cr3 :: u32
  cr4 :: u32
  seen_pd :: "nat \<Rightarrow> u32"
  seen_pt :: "nat \<Rightarrow> u32"

abbreviation "page_size \<equiv> (1024 :: nat)"
abbreviation "videomemory \<equiv> (0xB8000 :: u32)"

definition load_cr3 :: "u32 \<Rightarrow> 'a paging_scheme \<Rightarrow> 'a paging_scheme" where
  "load_cr3 v s = s\<lparr>cr3 := v, seen_pd := page_directory s, seen_pt := first_page_table s\<rparr>"

definition loadPageDirectory :: "u32 \<Rightarrow> 'a paging_scheme \<Rightarrow> 'a paging_scheme" where
  "loadPageDirectory pd s = (let s = load_cr3 pd s in s\<lparr>cr4 := cr4 s OR 0x10\<rparr>)"

definition enablePaging :: "'a paging_scheme \<Rightarrow> 'a paging_scheme" where
  "enablePaging s = s\<lparr>cr0 := cr0 s OR 0x80000000\<rparr>"

definition tlb_flush :: "'a paging_scheme \<Rightarrow> 'a paging_scheme" where
  "tlb_flush s = load_cr3 (cr3 s) s"

definition paging_initialize :: "'a paging_scheme \<Rightarrow> 'a paging_scheme" where
  "paging_initialize s =
    (let s = s\<lparr>page_directory :=
               fold (\<lambda>i pd. pd(i := 0x00000002)) [0..<page_size] (page_directory s)\<rparr>;
         vm_index = unat (drop_bit 12 videomemory);
         s = s\<lparr>first_page_table :=
               fold (\<lambda>i pt. pt(i := if i = vm_index then videomemory OR 3
                                    else (of_nat i * 0x1000) OR 2))
                 [0..<page_size] (first_page_table s)\<rparr>;
         s = s\<lparr>page_directory := (page_directory s)(0 := pt_addr s OR 3)\<rparr>;
         s = s\<lparr>page_directory := (page_directory s)(1 := 0x400000 OR 0x83)\<rparr>;
         s = loadPageDirectory (pd_addr s) s
     in enablePaging s)"

definition map_to_user_phy :: "u32 \<Rightarrow> u32 \<Rightarrow> u32 \<Rightarrow> 'a paging_scheme \<Rightarrow> 'a paging_scheme" where
  "map_to_user_phy program_number start_address program_size s =
    (let pde_index = 128 div 4;
         cur_address = (program_number + 2) * program_size;
         s = s\<lparr>page_directory := (page_directory s)(pde_index := cur_address OR 0x87)\<rparr>
     in tlb_flush s)"

definition map_to_vid :: "u32 \<Rightarrow> u32 \<Rightarrow> 'a paging_scheme \<Rightarrow> 'a paging_scheme" where
  "map_to_vid virtual_address phy_address s =
    (let pde_index = (128 + 4) div 4;
         s = s\<lparr>page_directory := (page_directory s)(pde_index := pt_addr s OR 0x07)\<rparr>
     in s\<lparr>first_page_table := (first_page_table s)(0 := phy_address OR 0x07)\<rparr>)"

definition vur_phy :: "u32 \<Rightarrow> u32 \<Rightarrow> 'a paging_scheme \<Rightarrow> 'a paging_scheme" where
  "vur_phy phy vir s =
    (let pde_index = unat (vir div 0x400000)
     in s\<lparr>page_directory := (page_directory s)(pde_index := phy OR 0x87)\<rparr>)"

definition teminial_map_pages :: "u32 \<Rightarrow> 'a paging_scheme \<Rightarrow> 'a paging_scheme" where
  "teminial_map_pages terminal_id s =
    (let vm = videomemory + terminal_id * 0x1000;
         vm_index = unat (drop_bit 12 vm)
     in s\<lparr>first_page_table := (first_page_table s)(vm_index := vm OR 3)\<rparr>)"

subsection \<open>Address translation\<close>

text \<open>The physical address, whether user code may use it, whether it may be written.\<close>

definition walk :: "(nat \<Rightarrow> u32) \<Rightarrow> (nat \<Rightarrow> u32) \<Rightarrow> u32 \<Rightarrow> u32 \<Rightarrow> (u32 \<times> bool \<times> bool) option" where
  "walk pd pt pt_base va =
    (let pde = pd (unat (drop_bit 22 va))
     in if \<not> bit pde 0 then None
        else if bit pde 7 then
          Some (push_bit 22 (drop_bit 22 pde) OR (va AND mask 22), bit pde 2, bit pde 1)
        else if push_bit 12 (drop_bit 12 pde) \<noteq> pt_base then None
        else let pte = pt (unat (drop_bit 12 va AND mask 10))
             in if \<not> bit pte 0 then None
                else Some (push_bit 12 (drop_bit 12 pte) OR (va AND mask 12),
                           bit pde 2 \<and> bit pte 2, bit pde 1 \<and> bit pte 1))"

definition translate :: "'a paging_scheme \<Rightarrow> u32 \<Rightarrow> (u32 \<times> bool \<times> bool) option" where
  "translate s = walk (page_directory s) (first_page_table s) (pt_addr s)"

text \<open>Translation by the tables the cache was last filled from.\<close>

definition seen_translate :: "'a paging_scheme \<Rightarrow> u32 \<Rightarrow> (u32 \<times> bool \<times> bool) option" where
  "seen_translate s = walk (seen_pd s) (seen_pt s) (pt_addr s)"

definition flushed :: "'a paging_scheme \<Rightarrow> bool" where
  "flushed s \<longleftrightarrow> (\<forall>i<page_size. seen_pd s i = page_directory s i \<and> seen_pt s i = first_page_table s i)"

subsection \<open>Bits of addresses and entries\<close>

lemma split_address: "push_bit n (drop_bit n va) OR (va AND mask n) = (va :: u32)"
  by (rule bit_word_eqI) (auto simp: bit_simps)

lemma unat_drop: "unat (drop_bit n (va :: u32)) = unat va div 2 ^ n"
  by (simp add: unsigned_drop_bit_eq drop_bit_eq_div [where ?'a = nat]
      take_bit_nat_eq_self unat_lt32)

lemma dir_index: "unat (drop_bit 22 (va :: u32)) = unat va div 4194304"
  by (simp add: unat_drop)

lemma table_index: "unat (drop_bit 12 (va :: u32) AND mask 10) = unat va div 4096 mod 1024"
  by (simp flip: take_bit_eq_mask) (simp add: unat_drop take_bit_eq_mod unat_mod)

lemma dir_index_bound: "unat (drop_bit 22 (va :: u32)) < page_size"
  using unat_lt32 [of va] by (simp add: dir_index)

lemma drop_bit_flags:
  assumes "unat f < 2 ^ n"
  shows "drop_bit n ((x :: u32) OR f) = drop_bit n x"
proof -
  have "unat (drop_bit n f) = 0" using assms by (simp add: unat_drop)
  then show ?thesis by (simp add: unat_eq_zero)
qed

text \<open>An address is page aligned when the machine finds no flag bits in it.\<close>

definition page_aligned :: "u32 \<Rightarrow> bool" where
  "page_aligned a \<longleftrightarrow> push_bit 12 (drop_bit 12 a) = a"

lemma page_aligned_bit: "page_aligned a \<Longrightarrow> n < 12 \<Longrightarrow> \<not> bit a n"
  unfolding page_aligned_def by (metis bit_push_bit_iff linorder_not_le)

lemma aligned_entry:
  assumes "page_aligned a" and "unat f < 4096"
  shows "push_bit 12 (drop_bit 12 (a OR f)) = a"
  using assms drop_bit_flags [of f 12 a] by (simp add: page_aligned_def)

lemma present_table_entry:
  assumes "page_aligned (pt_addr s)"
  shows "bit (pt_addr s OR 3) 0" "\<not> bit (pt_addr s OR 3) 7" "\<not> bit (pt_addr s OR 3) 2"
    "bit (pt_addr s OR 3) (Suc 0)"
    "push_bit 12 (drop_bit 12 (pt_addr s OR 3)) = pt_addr s"
    "bit (pt_addr s OR 7) 0" "\<not> bit (pt_addr s OR 7) 7" "bit (pt_addr s OR 7) 2"
    "bit (pt_addr s OR 7) (Suc 0)"
    "push_bit 12 (drop_bit 12 (pt_addr s OR 7)) = pt_addr s"
  using assms page_aligned_bit [OF assms] aligned_entry [OF assms, of 3] aligned_entry [OF assms, of 7]
  by (simp_all add: bit_or_iff)

subsection \<open>The kernel's own mappings\<close>

lemma init_page_directory:
  "page_directory (paging_initialize s) =
    (\<lambda>i. if i = 0 then pt_addr s OR 3 else if i = 1 then 0x400083
         else if i < page_size then 2 else page_directory s i)"
  by (auto simp: paging_initialize_def Let_def fold_fun_upd loadPageDirectory_def load_cr3_def
      enablePaging_def fun_eq_iff)

lemma init_first_page_table:
  "first_page_table (paging_initialize s) =
    (\<lambda>i. if i = 0xB8 then 0xB8003 else if i < page_size then (of_nat i * 0x1000) OR 2
         else first_page_table s i)"
  by (auto simp: paging_initialize_def Let_def fold_fun_upd loadPageDirectory_def load_cr3_def
      enablePaging_def fun_eq_iff)

lemma init_seen:
  "seen_pd (paging_initialize s) = page_directory (paging_initialize s)"
  "seen_pt (paging_initialize s) = first_page_table (paging_initialize s)"
  "pt_addr (paging_initialize s) = pt_addr s" "pd_addr (paging_initialize s) = pd_addr s"
  "cr3 (paging_initialize s) = pd_addr s" "bit (cr0 (paging_initialize s)) 31"
  by (simp_all add: paging_initialize_def Let_def loadPageDirectory_def load_cr3_def
      enablePaging_def bit_or_iff)

lemma table_entry_present: "\<not> bit ((of_nat i * 0x1000 :: u32) OR 2) 0"
proof -
  have "(of_nat i * 0x1000 :: u32) = push_bit 12 (of_nat i)"
    by (simp add: push_bit_eq_mult)
  then show ?thesis by (simp add: bit_or_iff bit_push_bit_iff)
qed

lemma init_translate:
  assumes "page_aligned (pt_addr s)"
  shows "translate (paging_initialize s) va =
    (if 0xB8000 \<le> va \<and> va < 0xB9000 \<or> 0x400000 \<le> va \<and> va < 0x800000
     then Some (va, False, True) else None)"
proof -
  define hi where "hi = unat (drop_bit 22 va)"
  define lo where "lo = unat (drop_bit 12 va AND mask 10)"
  have hi: "hi = unat va div 4194304" "hi < page_size"
    unfolding hi_def by (rule dir_index) (rule dir_index_bound)
  have lo: "lo = unat va div 4096 mod 1024" "lo < page_size"
    unfolding lo_def by (simp_all add: table_index)
  note unfold = translate_def walk_def Let_def init_page_directory init_first_page_table init_seen
    hi_def [symmetric] lo_def [symmetric] present_table_entry [OF assms]
    assms [unfolded page_aligned_def]
  consider "hi = 0" | "hi = 1" | "1 < hi" by linarith
  then show ?thesis
  proof cases
    case 1
    then have small: "unat va < 4194304" and lo': "lo = unat va div 4096" using hi lo by auto
    show ?thesis
    proof (cases "lo = 0xB8")
      case True
      then have d12: "drop_bit 12 va = 0xB8" using lo' unat_drop [of 12 va]
        by (simp add: word_unat_eq_iff)
      have "va = push_bit 12 0xB8 OR (va AND mask 12)"
        using split_address [of 12 va] by (simp add: d12)
      moreover have "0xB8000 \<le> va" "va < 0xB9000"
        using True lo' by (simp_all add: word_le_nat_alt word_less_nat_alt)
      ultimately show ?thesis using 1 True by (simp add: unfold)
    next
      case False
      then have "\<not> (0xB8000 \<le> va \<and> va < 0xB9000)" "\<not> 0x400000 \<le> va"
        using lo' small by (auto simp: word_le_nat_alt word_less_nat_alt)
      then show ?thesis using 1 False lo by (simp add: unfold table_entry_present)
    qed
  next
    case 2
    then have "0x400000 \<le> va" "va < 0x800000"
      using hi by (auto simp: word_le_nat_alt word_less_nat_alt)
    moreover have d22: "drop_bit 22 va = 1" using 2 by (simp add: hi_def word_unat_eq_iff)
    have "va = push_bit 22 1 OR (va AND mask 22)" using split_address [of 22 va] by (simp add: d22)
    ultimately show ?thesis using 2 by (simp add: unfold)
  next
    case 3
    then have "\<not> va < 0xB9000" "\<not> va < 0x800000"
      using hi by (auto simp: word_le_nat_alt word_less_nat_alt)
    then show ?thesis using 3 hi by (simp add: unfold)
  qed
qed

subsection \<open>The user window at 128 MB\<close>

definition in_user_window :: "u32 \<Rightarrow> bool" where
  "in_user_window va \<longleftrightarrow> 0x8000000 \<le> va \<and> va < 0x8400000"

lemma window_index: "unat (drop_bit 22 va) = 32 \<longleftrightarrow> in_user_window va"
  by (auto simp: dir_index in_user_window_def word_le_nat_alt word_less_nat_alt)

lemma window_offset:
  assumes "in_user_window va"
  shows "va AND mask 22 = va - 0x8000000"
proof -
  have "unat (va AND mask 22) = unat va mod 4194304"
    by (simp flip: take_bit_eq_mask) (simp add: take_bit_eq_mod unat_mod)
  also have "\<dots> = unat va - 134217728"
  proof -
    have "unat va = 32 * 4194304 + (unat va - 134217728)" "unat va - 134217728 < 4194304"
      using assms by (auto simp: in_user_window_def word_le_nat_alt word_less_nat_alt)
    then show ?thesis by (metis mod_less mod_mult_self3)
  qed
  also have "\<dots> = unat (va - 0x8000000)"
    using assms by (simp add: unat_sub word_le_nat_alt in_user_window_def)
  finally show ?thesis by (simp add: word_unat_eq_iff)
qed

lemma big_page_base: "push_bit 22 (drop_bit 22 ((x * 0x400000 :: u32) OR 0x87)) = x * 0x400000"
proof -
  have x: "x * 0x400000 = push_bit 22 x" by (simp add: push_bit_eq_mult)
  have "push_bit 22 (drop_bit 22 (push_bit 22 x)) = push_bit 22 x"
    by (rule bit_word_eqI) (auto simp: bit_simps)
  then show ?thesis by (subst drop_bit_flags) (simp_all add: x)
qed

lemma big_page_add: "(x * 0x400000 :: u32) OR (va AND mask 22) = x * 0x400000 + (va AND mask 22)"
proof -
  have x: "x * 0x400000 = push_bit 22 x" by (simp add: push_bit_eq_mult)
  have "push_bit 22 x AND (va AND mask 22) = 0"
    by (rule bit_word_eqI) (auto simp: bit_simps)
  then show ?thesis unfolding x by (rule disjunctive_add_eq_or [symmetric])
qed

lemma map_to_user_phy_state:
  "page_directory (map_to_user_phy n a sz s) = (page_directory s)(32 := ((n + 2) * sz) OR 0x87)"
  "first_page_table (map_to_user_phy n a sz s) = first_page_table s"
  "pt_addr (map_to_user_phy n a sz s) = pt_addr s"
  "seen_pd (map_to_user_phy n a sz s) = page_directory (map_to_user_phy n a sz s)"
  "seen_pt (map_to_user_phy n a sz s) = first_page_table s"
  "cr3 (map_to_user_phy n a sz s) = cr3 s" "phys (map_to_user_phy n a sz s) = phys s"
  "io (map_to_user_phy n a sz s) = io s" "intr (map_to_user_phy n a sz s) = intr s"
  by (simp_all add: map_to_user_phy_def Let_def tlb_flush_def load_cr3_def)

lemma user_translate:
  assumes "in_user_window va"
  shows "translate (map_to_user_phy n a 0x400000 s) va =
    Some ((n + 2) * 0x400000 + (va - 0x8000000), True, True)"
proof -
  obtain x where x: "n + 2 = x" by simp
  have pde: "page_directory (map_to_user_phy n a 0x400000 s) 32 = (x * 0x400000) OR 0x87"
    by (simp only: map_to_user_phy_state x fun_upd_same)
  have i: "unat (drop_bit 22 va) = 32" using assms by (simp only: window_index)
  have flags: "bit ((x * 0x400000) OR 0x87) k" if "k \<in> {0, 1, 2, 7}" for k
    using that by (auto simp: bit_or_iff)
  show ?thesis
    using flags [of 0] flags [of 1] flags [of 2] flags [of 7]
    by (simp only: translate_def walk_def Let_def i pde big_page_base
        big_page_add [of x va, unfolded window_offset [OF assms]]
        window_offset [OF assms] x simp_thms insert_iff if_True if_False)
qed

lemma user_translate_other:
  "\<not> in_user_window va \<Longrightarrow> translate (map_to_user_phy n a sz s) va = translate s va"
  by (simp add: translate_def walk_def map_to_user_phy_state window_index)

text \<open>The remapping of the scheduler is the remapping of program loading.\<close>

lemma vur_phy_user:
  "tlb_flush (vur_phy (0x800000 + n * 0x400000) 0x8000000 s) =
    map_to_user_phy n 0x8000000 0x400000 s"
proof -
  have "unat ((0x8000000 :: u32) div 0x400000) = 32" by simp
  moreover have "(n + 2) * 0x400000 = (0x800000 + n * 0x400000 :: u32)" by (simp add: algebra_simps)
  ultimately show ?thesis by (simp only: vur_phy_def map_to_user_phy_def Let_def) simp
qed

text \<open>The frames of two processes do not meet, and lie above the kernel's 8 MB.\<close>

lemma frame_address:
  assumes "n < 6" and "unat off < 4194304"
  shows "unat ((n + 2) * 0x400000 + off :: u32) = (unat n + 2) * 4194304 + unat off"
proof -
  have n: "unat n < 6" using assms(1) by (simp add: word_less_nat_alt)
  then have "unat ((n + 2) * 0x400000 :: u32) = (unat n + 2) * 4194304"
    by (simp add: unat_word_ariths)
  then show ?thesis using n assms(2) by (simp add: unat_word_ariths)
qed

lemma frames_disjoint:
  assumes "n < 6" "k < 6" "unat o1 < 4194304" "unat o2 < 4194304"
    and "(n + 2) * 0x400000 + o1 = ((k + 2) * 0x400000 + o2 :: u32)"
  shows "n = k \<and> o1 = o2"
proof -
  have eq: "(unat n + 2) * 4194304 + unat o1 = (unat k + 2) * 4194304 + unat o2"
    using assms frame_address by metis
  moreover have "((a + 2) * 4194304 + b) div 4194304 = a + 2" if "b < 4194304" for a b :: nat
    using that by simp
  ultimately have "unat n + 2 = unat k + 2" using assms(3,4) by metis
  with eq have "unat n = unat k \<and> unat o1 = unat o2" by simp
  then show ?thesis by (simp add: word_unat_eq_iff)
qed

subsection \<open>What user code can reach\<close>

definition in_vid_page :: "u32 \<Rightarrow> bool" where
  "in_vid_page va \<longleftrightarrow> 0x8400000 \<le> va \<and> va < 0x8401000"

text \<open>
  No entry outside the two user slots of the directory is open to user code, and in the
  page table only entry 0, which \<open>vidmap\<close> sets.
\<close>

definition user_private :: "'a paging_scheme \<Rightarrow> bool" where
  "user_private s \<longleftrightarrow> page_aligned (pt_addr s) \<and>
     (\<forall>i<page_size. i \<noteq> 32 \<and> i \<noteq> 33 \<longrightarrow> \<not> (bit (page_directory s i) 0 \<and> bit (page_directory s i) 2)) \<and>
     (\<forall>i<page_size. i \<noteq> 0 \<longrightarrow> \<not> bit (first_page_table s i) 2) \<and>
     (bit (page_directory s 33) 0 \<longrightarrow> \<not> bit (page_directory s 33) 7)"

lemma table_entry_private: "\<not> bit ((x * 0x1000 :: u32) OR 2) 2" "\<not> bit ((x * 0x1000 :: u32) OR 3) 2"
proof -
  have "x * 0x1000 = push_bit 12 x" by (simp add: push_bit_eq_mult)
  then show "\<not> bit ((x * 0x1000 :: u32) OR 2) 2" "\<not> bit ((x * 0x1000 :: u32) OR 3) 2"
    by (simp_all add: bit_or_iff bit_push_bit_iff)
qed

lemma init_private [inv_intros]:
  "page_aligned (pt_addr s) \<Longrightarrow> user_private (paging_initialize s)"
  by (auto simp: user_private_def init_page_directory init_first_page_table init_seen
      present_table_entry table_entry_private)

lemma map_user_private [inv_intros]:
  "user_private s \<Longrightarrow> user_private (map_to_user_phy n a sz s)"
  by (simp add: user_private_def map_to_user_phy_state)

lemma flush_state:
  "page_directory (tlb_flush s) = page_directory s" "first_page_table (tlb_flush s) = first_page_table s"
  "pt_addr (tlb_flush s) = pt_addr s" "seen_pd (tlb_flush s) = page_directory s"
  "seen_pt (tlb_flush s) = first_page_table s" "phys (tlb_flush s) = phys s"
  by (simp_all add: tlb_flush_def load_cr3_def)

lemma flush_private [inv_intros]: "user_private s \<Longrightarrow> user_private (tlb_flush s)"
  by (simp add: user_private_def flush_state)

lemma vid_private [inv_intros]: "user_private s \<Longrightarrow> user_private (map_to_vid va p s)"
  using present_table_entry [of s]
  by (auto simp: user_private_def map_to_vid_def Let_def)

lemma term_private [inv_intros]:
  assumes "user_private s" and "tid \<le> 3"
  shows "user_private (teminial_map_pages tid s)"
proof -
  have "videomemory + tid * 0x1000 = (0xB8 + tid) * 0x1000" by (simp add: algebra_simps)
  then have "\<not> bit ((videomemory + tid * 0x1000) OR 3) 2" by (simp only: table_entry_private not_False_eq_True)
  then show ?thesis using assms by (auto simp: user_private_def teminial_map_pages_def Let_def)
qed

lemma user_access:
  assumes "user_private s" and "translate s va = Some (pa, True, w)"
  shows "in_user_window va \<or> in_vid_page va"
proof -
  define hi where "hi = unat (drop_bit 22 va)"
  define lo where "lo = unat (drop_bit 12 va AND mask 10)"
  have hi: "hi = unat va div 4194304" "hi < page_size"
    unfolding hi_def by (rule dir_index) (rule dir_index_bound)
  have lo: "lo = unat va div 4096 mod 1024" "lo < page_size"
    unfolding lo_def by (simp_all add: table_index)
  have pde: "bit (page_directory s hi) 0" "bit (page_directory s hi) 2"
    using assms(2) by (auto simp: translate_def walk_def Let_def hi_def split: if_splits)
  then consider "hi = 32" | "hi = 33" using assms(1) hi(2) by (auto simp: user_private_def)
  then show ?thesis
  proof cases
    case 1
    then show ?thesis using window_index by (simp add: hi_def)
  next
    case 2
    then have "bit (first_page_table s lo) 2"
      using assms pde by (auto simp: user_private_def translate_def walk_def Let_def
          hi_def [symmetric] lo_def [symmetric] split: if_splits)
    then have "lo = 0" using assms(1) lo(2) by (auto simp: user_private_def)
    then have "unat va div 4096 mod 1024 = 0" "unat va div 4096 div 1024 = 33"
      using 2 hi(1) lo(1) by (simp_all flip: div_mult2_eq)
    then have "unat va div 4096 = 33792" using div_mult_mod_eq [of "unat va div 4096" 1024] by simp
    then have "138412032 \<le> unat va \<and> unat va < 138416128" by linarith
    then show ?thesis by (simp add: in_vid_page_def word_le_nat_alt word_less_nat_alt)
  qed
qed

lemma vid_translate:
  assumes "page_aligned (pt_addr s)" and "page_aligned p" and "in_vid_page va"
  shows "translate (map_to_vid v p s) va = Some (p OR (va AND mask 12), True, True)"
proof -
  have va: "138412032 \<le> unat va" "unat va < 138416128"
    using assms(3) by (auto simp: in_vid_page_def word_le_nat_alt word_less_nat_alt)
  then have "unat va div 4194304 = 33" "unat va div 4096 = 33792" by linarith+
  then have i: "unat (drop_bit 22 va) = 33" "unat (drop_bit 12 va AND mask 10) = 0"
    by (simp_all add: dir_index table_index)
  show ?thesis
    using present_table_entry [OF assms(1)] page_aligned_bit [OF assms(2)]
      aligned_entry [OF assms(2), of 7]
    by (simp add: translate_def walk_def Let_def map_to_vid_def i bit_or_iff
        assms(1) [unfolded page_aligned_def])
qed

subsection \<open>The page tables over a run of the kernel\<close>

text \<open>
  Every change the kernel makes to its tables after boot: the loading of program \<open>n\<close>, the
  remapping of the scheduler, \<open>vidmap\<close>, the mapping of a terminal's video page, a reload
  of \<open>cr3\<close>.
\<close>

inductive paging_run :: "'a paging_scheme \<Rightarrow> bool" where
  boot: "page_aligned (pt_addr s) \<Longrightarrow> paging_run (paging_initialize s)"
| load: "paging_run s \<Longrightarrow> paging_run (map_to_user_phy n 0x8000000 0x400000 s)"
| switch: "paging_run s \<Longrightarrow> paging_run (vur_phy phy 0x8000000 s)"
| video: "paging_run s \<Longrightarrow> paging_run (map_to_vid v p s)"
| terminal: "paging_run s \<Longrightarrow> tid \<le> 3 \<Longrightarrow> paging_run (teminial_map_pages tid s)"
| flush: "paging_run s \<Longrightarrow> paging_run (tlb_flush s)"

lemma vur_private [inv_intros]: "user_private s \<Longrightarrow> user_private (vur_phy phy 0x8000000 s)"
proof -
  have "unat ((0x8000000 :: u32) div 0x400000) = 32" by simp
  then show "user_private s \<Longrightarrow> user_private (vur_phy phy 0x8000000 s)"
    by (simp add: user_private_def vur_phy_def)
qed

lemma paging_run_private: "paging_run s \<Longrightarrow> user_private s"
  by (induction rule: paging_run.induct) (simp_all add: inv_intros)

text \<open>The state before initialisation, for the examples.\<close>

definition paging_bss :: paging where
  "paging_bss = \<lparr>phys = (\<lambda>_. 0), io = [], intr = False, master_mask = 0xFF, slave_mask = 0xFF,
    rate = 0, rtc_interrupt_flag = 0, page_directory = (\<lambda>_. 0), first_page_table = (\<lambda>_. 0),
    pd_addr = 0x404000, pt_addr = 0x405000, cr0 = 1, cr3 = 0, cr4 = 0,
    seen_pd = (\<lambda>_. 0), seen_pt = (\<lambda>_. 0)\<rparr>"

lemma paging_bss_aligned: "page_aligned (pt_addr paging_bss)"
  by (simp add: paging_bss_def page_aligned_def)

subsection \<open>Properties\<close>

text \<open>C23: after \<open>paging_initialize\<close> the machine translates the video page and the kernel's 4 MB
  page to themselves, writable and for the kernel only, and no other address at all.\<close>

theorem paging_initialize_map:
  assumes "page_aligned (pt_addr s)"
  shows "translate (paging_initialize s) va =
      (if 0xB8000 \<le> va \<and> va < 0xB9000 \<or> 0x400000 \<le> va \<and> va < 0x800000
       then Some (va, False, True) else None) \<and>
    seen_translate (paging_initialize s) va = translate (paging_initialize s) va \<and>
    bit (cr0 (paging_initialize s)) 31 \<and> cr3 (paging_initialize s) = pd_addr s"
  using init_translate [OF assms, of va] by (simp add: init_seen seen_translate_def translate_def)

theorem paging_initialize_map_witness:
  "translate (paging_initialize paging_bss) 0xB8ABC = Some (0xB8ABC, False, True) \<and>
   translate (paging_initialize paging_bss) 0x8000000 = None"
  using paging_initialize_map [of "paging_bss" "0xB8ABC"]
    paging_initialize_map [of "paging_bss" "0x8000000"]
  by (simp add: paging_bss_aligned)

text \<open>Loading program \<open>n\<close> maps the 4 MB user window at 128 MB onto the program's own physical
  frame, with user access; the translation in force is the new one, no other address is
  affected, and the frames of different programs do not meet.\<close>

theorem user_window_frame:
  assumes "in_user_window va"
  shows "translate (map_to_user_phy n 0x8000000 0x400000 s) va =
      Some ((n + 2) * 0x400000 + (va - 0x8000000), True, True) \<and>
    seen_translate (map_to_user_phy n 0x8000000 0x400000 s) va =
      Some ((n + 2) * 0x400000 + (va - 0x8000000), True, True) \<and>
    (\<forall>vb k. n < 6 \<and> k < 6 \<and> n \<noteq> k \<and> in_user_window vb \<longrightarrow>
      (n + 2) * 0x400000 + (va - 0x8000000) \<noteq> (k + 2) * 0x400000 + (vb - 0x8000000)) \<and>
    (\<forall>vb. \<not> in_user_window vb \<longrightarrow>
      translate (map_to_user_phy n 0x8000000 0x400000 s) vb = translate s vb)"
proof -
  have off: "unat (v - 0x8000000) < 4194304" if "in_user_window v" for v
    using that by (auto simp: in_user_window_def word_le_nat_alt word_less_nat_alt unat_sub)
  have seen: "seen_translate (map_to_user_phy n 0x8000000 0x400000 s) va =
      translate (map_to_user_phy n 0x8000000 0x400000 s) va"
    by (simp add: seen_translate_def translate_def map_to_user_phy_state)
  show ?thesis
    unfolding seen user_translate [OF assms]
    using frames_disjoint [OF _ _ off off] assms user_translate_other by blast
qed

theorem user_window_frame_witness:
  "translate (map_to_user_phy 1 0x8000000 0x400000 paging_bss) 0x8048000 = Some (0xC48000, True, True)"
  using user_window_frame [of "0x8048000" 1 paging_bss] by (simp add: in_user_window_def)



text \<open>\<open>map_to_vid\<close>, as \<open>vidmap\<close> uses it, gives user code the video page it names at 132 MB.\<close>

theorem vidmap_page:
  assumes "page_aligned (pt_addr s)" and "page_aligned p" and "in_vid_page va"
  shows "translate (map_to_vid v p s) va = Some (p OR (va AND mask 12), True, True)"
  using assms by (rule vid_translate)

theorem vidmap_page_witness:
  "translate (map_to_vid 0x8400000 0xB8000 paging_bss) 0x8400123 =
    Some (0xB8123, True, True)"
  using vidmap_page [of "paging_bss" "0xB8000" "0x8400123" "0x8400000"]
  by (simp add: paging_bss_aligned, simp add: page_aligned_def in_vid_page_def mask_eq_exp_minus_1)

end
