(* ===== verification/Filesystem.thy ===== *)
theory Filesystem
  imports Lib_String Paging
begin

text \<open>
  The read-only file system (\<open>filesystem.c\<close>): the boot block with its directory entries,
  index nodes and data blocks, all addressed in the memory of the running kernel.  The
  offsets of \<open>boot_block_t\<close> and \<open>dentry_t\<close> are those of \<open>filesystem.h\<close>: a directory entry
  has its name at 0, its type at 32 and its inode number at 36 of 64 bytes; entry \<open>i\<close> of
  the boot block is at \<open>64 + 64 * i\<close>.  A local \<open>dentry_t\<close> is a memory of its own addressed
  from 0; a pointer that may be \<open>NULL\<close> is an \<open>option\<close>.
\<close>

record fs = paging +
  file_sys :: u32
  dentry_addr :: u32
  dir_read_loc :: int

abbreviation "block_size \<equiv> (4096 :: u32)"
abbreviation "B_63 \<equiv> (63 :: nat)"
abbreviation "B_32 \<equiv> (32 :: u32)"

definition file_init :: "u32 \<Rightarrow> 'a fs_scheme \<Rightarrow> 'a fs_scheme" where
  "file_init addr s = s\<lparr>dentry_addr := addr, file_sys := addr\<rparr>"

subsection \<open>The structures in memory\<close>

text \<open>\<open>file_sys->num_dentry\<close>, \<open>file_sys->num_inode\<close> and \<open>&file_sys->dentry[i]\<close>.\<close>

definition num_dentry :: "'a fs_scheme \<Rightarrow> mem \<Rightarrow> u32" where
  "num_dentry s m = load32 m (file_sys s)"

definition num_inode :: "'a fs_scheme \<Rightarrow> mem \<Rightarrow> u32" where
  "num_inode s m = load32 m (file_sys s + 4)"

definition dentry_ptr :: "'a fs_scheme \<Rightarrow> u32 \<Rightarrow> u32" where
  "dentry_ptr s i = file_sys s + 64 + 64 * i"

text \<open>The words of an index node: its length, and the number of its \<open>j\<close>-th data block.\<close>

definition inode_length :: "'a fs_scheme \<Rightarrow> mem \<Rightarrow> u32 \<Rightarrow> u32" where
  "inode_length s m inode = load32 m (dentry_addr s + (inode + 1) * block_size)"

definition data_block_index :: "'a fs_scheme \<Rightarrow> mem \<Rightarrow> u32 \<Rightarrow> u32 \<Rightarrow> u32" where
  "data_block_index s m inode data_block_num =
    load32 m (dentry_addr s + (inode + 1) * block_size + (data_block_num + 1) * 4)"

text \<open>The fields of a \<open>dentry_t\<close> object.\<close>

definition d_name :: "mem \<Rightarrow> cstr" where "d_name d = view d 0"
definition d_type :: "mem \<Rightarrow> u32" where "d_type d = load32 d 32"
definition d_inode :: "mem \<Rightarrow> u32" where "d_inode d = load32 d 36"

subsection \<open>Directory entries\<close>

text \<open>The three assignments that fill \<open>dentry\<close> from entry \<open>i\<close> once its name is known.\<close>

definition copy_dentry :: "'a fs_scheme \<Rightarrow> mem \<Rightarrow> u32 \<Rightarrow> cstr \<Rightarrow> mem \<Rightarrow> mem" where
  "copy_dentry s m i name d =
    (let d = strncpy d 0 name B_32;
         d = store32 d 32 (load32 m (dentry_ptr s i + 32))
     in store32 d 36 (load32 m (dentry_ptr s i + 36)))"

text \<open>The \<open>for\<close> loop with \<open>k\<close> iterations left.\<close>

fun read_dentry_loop :: "nat \<Rightarrow> 'a fs_scheme \<Rightarrow> mem \<Rightarrow> cstr \<Rightarrow> u32 \<Rightarrow> mem \<Rightarrow> mem \<times> int" where
  "read_dentry_loop 0 s m fname i d = (d, -1)"
| "read_dentry_loop (Suc k) s m fname i d =
    (if strncmp fname (view m (dentry_ptr s i)) B_32 = 0 then (copy_dentry s m i fname d, 0)
     else read_dentry_loop k s m fname (i + 1) d)"

definition read_dentry_by_name ::
  "'a fs_scheme \<Rightarrow> mem \<Rightarrow> cstr option \<Rightarrow> mem option \<Rightarrow> mem option \<times> int" where
  "read_dentry_by_name s m fname dentry =
    (case (dentry, fname) of
       (Some d, Some name) \<Rightarrow> apfst Some (read_dentry_loop B_63 s m name 0 d)
     | _ \<Rightarrow> (dentry, -1))"

definition read_dentry_by_index :: "'a fs_scheme \<Rightarrow> mem \<Rightarrow> u32 \<Rightarrow> mem \<Rightarrow> mem \<times> int" where
  "read_dentry_by_index s m index d =
    (if index \<ge> num_dentry s m then (d, -1)
     else (copy_dentry s m index (view m (dentry_ptr s index)) d, 0))"

subsection \<open>The directory as a file\<close>

fun clear_name :: "mem \<Rightarrow> u32 \<Rightarrow> nat \<Rightarrow> nat \<Rightarrow> mem" where
  "clear_name m buf i 0 = m"
| "clear_name m buf i (Suc k) = clear_name (m(buf + of_nat i := 0)) buf (Suc i) k"

text \<open>\<open>temp\<close> is the uninitialised local \<open>temp_dentry\<close>, and what follows it on the stack.\<close>

definition dir_read ::
  "mem \<Rightarrow> u32 \<Rightarrow> 'a fs_scheme \<Rightarrow> mem \<Rightarrow> ('a fs_scheme \<times> mem \<times> u32) option" where
  "dir_read temp buf s m =
    (let (temp', r) = read_dentry_by_index s m (of_int (dir_read_loc s)) temp
     in if r \<noteq> 0 then Some (s\<lparr>dir_read_loc := 0\<rparr>, m, 0)
        else do {
          let m = clear_name m buf 0 33;
          n \<leftarrow> strlen (d_name temp');
          let file_length = (if n > B_32 then B_32 else n);
          let m = strncpy m buf (d_name temp') (file_length + 1);
          Some (s\<lparr>dir_read_loc := dir_read_loc s + 1\<rparr>, m, file_length) })"

definition dir_write :: "'a fs_scheme \<Rightarrow> 'a fs_scheme \<times> int" where
  "dir_write s = (s, -1)"

definition dir_open :: "'a fs_scheme \<Rightarrow> 'a fs_scheme \<times> int" where
  "dir_open s = (s, 0)"

definition dir_close :: "'a fs_scheme \<Rightarrow> 'a fs_scheme \<times> int" where
  "dir_close s = (s, 0)"

definition file_open :: "'a fs_scheme \<Rightarrow> 'a fs_scheme \<times> int" where
  "file_open s = (s, 0)"

definition file_close :: "'a fs_scheme \<Rightarrow> 'a fs_scheme \<times> int" where
  "file_close s = (s, 0)"

definition file_write :: "'a fs_scheme \<Rightarrow> 'a fs_scheme \<times> int" where
  "file_write s = (s, -1)"

subsection \<open>File data\<close>

definition file_size :: "'a fs_scheme \<Rightarrow> mem \<Rightarrow> u32 \<Rightarrow> u32" where
  "file_size s m inode = load32 m (dentry_addr s + (inode + 1) * block_size)"

text \<open>The address of byte \<open>data_block_pos\<close> of a data block.\<close>

definition cur_pos :: "'a fs_scheme \<Rightarrow> mem \<Rightarrow> u32 \<Rightarrow> u32 \<Rightarrow> u32" where
  "cur_pos s m index data_block_pos =
    dentry_addr s + ((num_inode s m + 1) + index) * block_size + data_block_pos"

lemma remaining_decreases:
  "block_size \<le> r - d \<Longrightarrow> unat (r - (d + block_size)) = unat (r - d) - 4096"
proof -
  assume *: "block_size \<le> r - d"
  have "r - (d + block_size) = (r - d) - block_size" by (simp add: algebra_simps)
  moreover have "unat (r - d - block_size) = unat (r - d) - 4096"
    using unat_sub [OF *] by simp
  ultimately show ?thesis by (simp only:)
qed

text \<open>
  The \<open>while\<close> loop over whole blocks: memory, \<open>data_read\<close> and \<open>data_block_num\<close>.  The words
  it reads come from the memory as the copies so far have left it.
\<close>

function read_blocks ::
  "'a fs_scheme \<Rightarrow> u32 \<Rightarrow> u32 \<Rightarrow> u32 \<Rightarrow> mem \<Rightarrow> u32 \<Rightarrow> u32 \<Rightarrow> mem \<times> u32 \<times> u32" where
  "read_blocks s inode buf data_to_read m data_read data_block_num =
    (if data_to_read - data_read \<ge> block_size then
       let data_block_num = data_block_num + 1;
           index = data_block_index s m inode data_block_num;
           m = memcpy m (buf + data_read) (cur_pos s m index 0) block_size
       in read_blocks s inode buf data_to_read m (data_read + block_size) data_block_num
     else (m, data_read, data_block_num))"
  by pat_completeness auto

termination
  by (relation "measure (\<lambda>(s, inode, buf, r, m, d, k). unat (r - d))")
     (auto simp: remaining_decreases word_le_nat_alt)

declare read_blocks.simps [simp del]

definition read_data ::
  "'a fs_scheme \<Rightarrow> mem \<Rightarrow> u32 \<Rightarrow> u32 \<Rightarrow> u32 \<Rightarrow> u32 \<Rightarrow> mem \<times> u32" where
  "read_data s m inode offset buf len =
    (let inode_len = inode_length s m inode
     in if inode > num_inode s m then (m, -1)
        else if offset \<ge> inode_len then (m, 0)
        else
         let data_block_num = offset div block_size;
             index = data_block_index s m inode data_block_num;
             pos = cur_pos s m index (offset mod block_size);
             data_to_read = (if len \<le> inode_len then len else inode_len);
             data_remain = (data_block_num + 1) * block_size - offset;
             data_remain =
               (if len < inode_len then (if data_remain > len then len else data_remain)
                else if data_remain > inode_len then inode_len else data_remain);
             m = memcpy m buf pos data_remain;
             (m, data_read, data_block_num) =
               read_blocks s inode buf data_to_read m data_remain data_block_num
         in if data_to_read - data_read > 0 then
              let data_remain = data_to_read - data_read;
                  data_block_num = data_block_num + 1;
                  index = data_block_index s m inode data_block_num;
                  m = memcpy m (buf + data_read) (cur_pos s m index 0) data_remain
              in (m, data_read + data_remain)
            else (m, data_read))"

subsection \<open>Reading a file: the loops and the copies\<close>

text \<open>Byte \<open>x\<close> of a file: the byte \<open>x mod 4096\<close> of its block number \<open>x div 4096\<close>.\<close>

definition file_byte :: "'a fs_scheme \<Rightarrow> mem \<Rightarrow> u32 \<Rightarrow> nat \<Rightarrow> u8" where
  "file_byte s m inode x =
    m (cur_pos s m (data_block_index s m inode (of_nat (x div 4096))) (of_nat (x mod 4096)))"

text \<open>
  The image occupies \<open>sz\<close> bytes from \<open>dentry_addr\<close>, and the first \<open>k\<close> bytes of the file have
  their index words inside the index node and their blocks inside the image.
\<close>

definition file_in_image :: "'a fs_scheme \<Rightarrow> mem \<Rightarrow> nat \<Rightarrow> u32 \<Rightarrow> nat \<Rightarrow> bool" where
  "file_in_image s m sz inode k \<longleftrightarrow> file_sys s = dentry_addr s \<and>
     unat inode < unat (num_inode s m) \<and> (unat (num_inode s m) + 1) * 4096 \<le> sz \<and>
     (\<forall>j<k. j div 4096 < 1023 \<and>
       (unat (num_inode s m) + 2 + unat (data_block_index s m inode (of_nat (j div 4096)))) * 4096 \<le> sz)"

lemma image_load32:
  assumes "sep buf r base sz" and "n \<le> r" and "x + 4 \<le> sz"
  shows "load32 (overlay m buf n f) (base + of_nat x) = load32 m (base + of_nat x)"
proof (cases "n = 0")
  case False
  then have "sep (buf + of_nat 0) n (base + of_nat x) 4"
    using assms by (intro sep_sub [OF assms(1)]) simp_all
  then show ?thesis by (simp add: sep_load32)
qed simp

lemma image_copy:
  assumes "sep buf r base sz" and "n + c \<le> r" and "x + c \<le> sz"
    and "\<And>i. i < c \<Longrightarrow> f (n + i) = m (base + of_nat (x + i))"
  shows "memcpy (overlay m buf n f) (buf + of_nat n) (base + of_nat x) (of_nat c) =
    overlay m buf (n + c) f"
proof (cases "c = 0")
  case True
  then show ?thesis by (simp add: memcpy_def)
next
  case False
  have c: "unat (of_nat c :: u32) = c"
    using sep_len [OF assms(1)] assms(2) by (simp add: unat_of_nat32)
  have "sep (buf + of_nat n) c (base + of_nat x) c"
    using False assms by (intro sep_sub [OF assms(1)]) simp_all
  then have "memcpy (overlay m buf n f) (buf + of_nat n) (base + of_nat x) (of_nat c) =
      overlay (overlay m buf n f) (buf + of_nat n) c
        (\<lambda>i. overlay m buf n f (base + of_nat x + of_nat i))"
    by (simp add: memcpy_overlay c)
  also have "\<dots> = overlay (overlay m buf n f) (buf + of_nat n) c (\<lambda>i. f (n + i))"
  proof (rule overlay_cong)
    fix i assume "i < c"
    then show "overlay m buf n f (base + of_nat x + of_nat i) = f (n + i)"
      using sep_reads [OF sep_shrink [OF assms(1), of n sz], of "x + i" m f] assms(2-4)
      by (simp add: add.assoc)
  qed
  also have "\<dots> = overlay m buf (n + c) f"
    using sep_len [OF assms(1)] assms(2)
    by (subst overlay_append) (auto intro!: overlay_cong)
  finally show ?thesis .
qed

lemma image_words:
  "dentry_addr s + (inode + 1) * block_size = dentry_addr s + of_nat ((unat inode + 1) * 4096)"
  "dentry_addr s + (inode + 1) * block_size + (of_nat j + 1) * 4 =
    dentry_addr s + of_nat ((unat inode + 1) * 4096 + (j + 1) * 4)"
  "cur_pos s m idx (of_nat p) =
    dentry_addr s + of_nat ((unat (num_inode s m) + 1 + unat idx) * 4096 + p)"
  by (simp_all add: cur_pos_def algebra_simps)

text \<open>The words that direct a read are the same in the memory it has partly filled.\<close>

lemma image_unchanged:
  assumes "file_in_image s m sz inode k" and "sep buf r (dentry_addr s) sz" and "n \<le> r"
  shows "num_inode s (overlay m buf n f) = num_inode s m"
    and "j < 1023 \<Longrightarrow> data_block_index s (overlay m buf n f) inode (of_nat j) =
      data_block_index s m inode (of_nat j)"
    and "cur_pos s (overlay m buf n f) idx p = cur_pos s m idx p"
proof -
  have sz: "(unat inode + 2) * 4096 \<le> sz" "8 \<le> sz"
    using assms(1) by (auto simp: file_in_image_def)
  show n: "num_inode s (overlay m buf n f) = num_inode s m"
    using image_load32 [OF assms(2,3), of 4 m f] sz assms(1)
    by (simp add: num_inode_def file_in_image_def)
  show "j < 1023 \<Longrightarrow> data_block_index s (overlay m buf n f) inode (of_nat j) =
      data_block_index s m inode (of_nat j)"
    unfolding data_block_index_def image_words(2)
    using sz by (intro image_load32 [OF assms(2,3)]) simp
  show "cur_pos s (overlay m buf n f) idx p = cur_pos s m idx p"
    by (simp add: cur_pos_def n)
qed

text \<open>One copy of \<open>read_data\<close>: \<open>c\<close> bytes of block \<open>j\<close> from position \<open>p\<close> on.\<close>

lemma copy_from_block:
  assumes img: "file_in_image s m sz inode (off + r)" and sep: "sep buf r (dentry_addr s) sz"
    and pos: "off + n = j * 4096 + p" "p + c \<le> 4096" "n + c \<le> r" "0 < c"
    and m': "m' = overlay m buf n (\<lambda>i. file_byte s m inode (off + i))"
  shows "memcpy m' (buf + of_nat n)
      (cur_pos s m' (data_block_index s m' inode (of_nat j)) (of_nat p)) (of_nat c) =
    overlay m buf (n + c) (\<lambda>i. file_byte s m inode (off + i))"
proof -
  have jn: "(off + n) div 4096 = j" using pos by simp
  then have j: "j < 1023"
    and blk: "(unat (num_inode s m) + 2 + unat (data_block_index s m inode (of_nat j))) * 4096 \<le> sz"
    using img pos(3,4) by (auto simp: file_in_image_def)
  have n: "n \<le> r" using pos(3) by simp
  let ?x = "(unat (num_inode s m) + 1 + unat (data_block_index s m inode (of_nat j))) * 4096 + p"
  show ?thesis
    unfolding m' image_unchanged(1) [OF img sep n] image_unchanged(2) [OF img sep n j] image_words
  proof (rule image_copy [OF sep pos(3)])
    show "?x + c \<le> sz" using blk pos(2) by simp
    fix i assume "i < c"
    then have e: "off + (n + i) = (p + i) + j * 4096" and lt: "p + i < 4096" using pos by simp_all
    have "(off + (n + i)) div 4096 = j" "(off + (n + i)) mod 4096 = p + i"
      unfolding e using lt by simp_all
    then show "file_byte s m inode (off + (n + i)) = m (dentry_addr s + of_nat (?x + i))"
      by (simp only: file_byte_def image_words add.assoc)
  qed
qed

lemma read_blocks_overlay:
  assumes img: "file_in_image s m sz inode (off + r)" and sep: "sep buf r (dentry_addr s) sz"
  shows "n \<le> r \<Longrightarrow> off + n = (j + 1) * 4096 \<Longrightarrow>
    read_blocks s inode buf (of_nat r) (overlay m buf n (\<lambda>i. file_byte s m inode (off + i)))
      (of_nat n) (of_nat j) =
    (let q = (r - n) div 4096
     in (overlay m buf (n + q * 4096) (\<lambda>i. file_byte s m inode (off + i)),
         of_nat (n + q * 4096), of_nat (j + q)))"
proof (induction "(r - n) div 4096" arbitrary: n j)
  case 0
  have r: "r < 4294967296" using sep_len [OF sep] .
  have "(of_nat r :: u32) - of_nat n = of_nat (r - n)" using 0 by (simp add: of_nat_diff)
  then have "unat (of_nat r - of_nat n :: u32) = r - n" using r by (simp add: unat_of_nat32)
  moreover have "r - n < 4096" using 0(1) by simp
  ultimately have "\<not> block_size \<le> of_nat r - of_nat n" by (simp add: word_le_nat_alt)
  then show ?case using 0(1) by (subst read_blocks.simps) simp
next
  case (Suc q)
  have r: "r < 4294967296" using sep_len [OF sep] .
  have ge: "4096 \<le> r - n" "q = (r - (n + 4096)) div 4096" using Suc(2) by simp_all
  have "(of_nat r :: u32) - of_nat n = of_nat (r - n)" using Suc.prems by (simp add: of_nat_diff)
  then have "unat (of_nat r - of_nat n :: u32) = r - n" using r by (simp only: unat_of_nat32)
  then have go: "block_size \<le> of_nat r - of_nat n" using ge by (simp add: word_le_nat_alt)
  let ?f = "\<lambda>i. file_byte s m inode (off + i)"
  have copy: "memcpy (overlay m buf n ?f) (buf + of_nat n)
      (cur_pos s (overlay m buf n ?f)
        (data_block_index s (overlay m buf n ?f) inode (of_nat (j + 1))) (of_nat 0)) (of_nat 4096) =
      overlay m buf (n + 4096) ?f"
    using Suc.prems ge by (intro copy_from_block [OF img sep]) simp_all
  have "read_blocks s inode buf (of_nat r) (overlay m buf n ?f) (of_nat n) (of_nat j) =
      read_blocks s inode buf (of_nat r) (overlay m buf (n + 4096) ?f)
        (of_nat (n + 4096)) (of_nat (j + 1))"
    using go copy by (subst read_blocks.simps) (simp add: Let_def add.commute)
  also have "\<dots> = (let q = (r - (n + 4096)) div 4096
     in (overlay m buf (n + 4096 + q * 4096) ?f, of_nat (n + 4096 + q * 4096), of_nat (j + 1 + q)))"
    using Suc.prems ge by (intro Suc.hyps(1)) simp_all
  finally show ?case
    unfolding Let_def Suc(2) [symmetric] ge(2) [symmetric] by (simp add: algebra_simps)
qed

text \<open>The number of bytes a call asks for: the requested length, cut at the file's length.\<close>

definition read_count :: "'a fs_scheme \<Rightarrow> mem \<Rightarrow> u32 \<Rightarrow> u32 \<Rightarrow> nat" where
  "read_count s m inode len = min (unat len) (unat (inode_length s m inode))"

lemma read_data_overlay:
  assumes img: "file_in_image s m sz inode (unat offset + r)"
    and sep: "sep buf r (dentry_addr s) sz"
    and off: "offset < inode_length s m inode" and r: "r = read_count s m inode len"
  shows "read_data s m inode offset buf len =
    (overlay m buf r (\<lambda>i. file_byte s m inode (unat offset + i)), of_nat r)"
proof -
  let ?f = "\<lambda>i. file_byte s m inode (unat offset + i)"
  define k p c where "k = unat offset div 4096" and "p = unat offset mod 4096"
    and "c = min (4096 - p) r"
  have r32: "r < 4294967296" using sep_len [OF sep] .
  have kp: "unat offset = k * 4096 + p" "p < 4096" by (simp_all add: k_def p_def)
  have kw: "offset div block_size = of_nat k" "offset mod block_size = of_nat p"
    using unat_lt32 [of offset] div_le_dividend [of "unat offset" 4096]
    by (simp_all add: k_def p_def word_unat_eq_iff unat_div unat_mod unat_of_nat32)
  have cw: "(if len < inode_length s m inode
      then if (of_nat k + 1) * block_size - offset > len then len else (of_nat k + 1) * block_size - offset
      else if (of_nat k + 1) * block_size - offset > inode_length s m inode then inode_length s m inode
      else (of_nat k + 1) * block_size - offset) = of_nat c"
  proof -
    have "offset = of_nat k * block_size + of_nat p"
      using kp(1) by (metis of_nat_add of_nat_mult of_nat_numeral of_nat_unat32)
    then have "(of_nat k + 1) * block_size - offset = of_nat (4096 - p)"
      using kp(2) by (simp add: of_nat_diff algebra_simps)
    moreover have "unat (of_nat (4096 - p) :: u32) = 4096 - p" by (simp add: unat_of_nat32)
    ultimately show ?thesis
      by (auto simp: c_def r read_count_def word_less_nat_alt min_def not_less)
  qed
  have rw: "(if len \<le> inode_length s m inode then len else inode_length s m inode) = of_nat r"
    by (simp add: r read_count_def min_def word_le_nat_alt)
  have first: "memcpy m buf (cur_pos s m (data_block_index s m inode (of_nat k)) (of_nat p))
      (of_nat c) = overlay m buf c ?f"
  proof (cases "c = 0")
    case False
    then show ?thesis
      using copy_from_block [OF img sep, of 0 k p c m] kp by (simp add: c_def)
  qed (simp add: memcpy_def)
  define q n where "q = (r - c) div 4096" and "n = c + q * 4096"
  have loop: "read_blocks s inode buf (of_nat r) (overlay m buf c ?f) (of_nat c) (of_nat k) =
      (overlay m buf n ?f, of_nat n, of_nat (k + q))"
  proof (cases "c = r")
    case True
    then show ?thesis by (subst read_blocks.simps) (simp add: n_def q_def)
  next
    case False
    then have "unat offset + c = (k + 1) * 4096" "c \<le> r" using kp by (simp_all add: c_def min_def split: if_splits)
    then show ?thesis using read_blocks_overlay [OF img sep] by (simp add: Let_def n_def q_def)
  qed
  have nr: "n \<le> r" "r - n < 4096" "n < r \<Longrightarrow> unat offset + n = (k + q + 1) * 4096"
  proof -
    have "c \<le> r" by (simp add: c_def)
    then show "n \<le> r" "r - n < 4096" by (simp_all add: n_def q_def)
    assume "n < r"
    then have "c \<noteq> r" by (auto simp: n_def)
    then have "unat offset + c = (k + 1) * 4096" using kp by (simp add: c_def min_def split: if_splits)
    then show "unat offset + n = (k + q + 1) * 4096" by (simp add: n_def)
  qed
  have rn1: "(of_nat r :: u32) - of_nat n = of_nat (r - n)"
    using nr(1) by (simp add: of_nat_diff)
  have rn2: "unat (of_nat (r - n) :: u32) = r - n"
    by (rule unat_of_nat32) (use r32 in simp)
  have last: "n < r \<Longrightarrow> memcpy (overlay m buf n ?f) (buf + of_nat n)
      (cur_pos s (overlay m buf n ?f) (data_block_index s (overlay m buf n ?f) inode
        (of_nat (k + q + 1))) (of_nat 0)) (of_nat (r - n)) = overlay m buf r ?f"
    using nr copy_from_block [OF img sep, of n "k + q + 1" 0 "r - n"] by simp
  have go: "\<not> num_inode s m < inode" "\<not> inode_length s m inode \<le> offset"
    using img off by (simp_all add: file_in_image_def word_less_nat_alt word_le_nat_alt)
  show ?thesis
  proof (cases "n < r")
    case True
    have "(0 :: u32) < of_nat (r - n)" using rn2 True by (simp add: word_less_nat_alt)
    moreover have "of_nat n + of_nat (r - n) = (of_nat r :: u32)"
      using nr(1) by (metis le_add_diff_inverse of_nat_add)
    ultimately show ?thesis
      using last [OF True] go
      by (simp only: read_data_def Let_def kw rw cw first loop rn1 if_True if_False prod.case
          of_nat_add of_nat_1 semiring_1_class.of_nat_0 add.assoc)
  next
    case False
    then have "n = r" using nr(1) by simp
    then show ?thesis
      using go by (simp only: read_data_def Let_def kw rw cw first loop if_False prod.case
          diff_self less_irrefl)
  qed
qed

text \<open>A file as the list of its bytes, and the bytes of a buffer.\<close>

definition file_contents :: "'a fs_scheme \<Rightarrow> mem \<Rightarrow> u32 \<Rightarrow> u8 list" where
  "file_contents s m inode =
    map (file_byte s m inode) [0..<unat (inode_length s m inode)]"

definition bytes :: "mem \<Rightarrow> u32 \<Rightarrow> nat \<Rightarrow> u8 list" where
  "bytes m a n = map (\<lambda>i. m (a + of_nat i)) [0..<n]"

lemma length_bytes [simp]: "length (bytes m a n) = n"
  by (simp add: bytes_def)

lemma bytes_overlay:
  "n \<le> 4294967296 \<Longrightarrow> bytes (overlay m a n f) a n = map f [0..<n]"
  by (simp add: bytes_def overlay_inside)

lemma map_window: "o' + r \<le> n \<Longrightarrow> map (\<lambda>i. f (o' + i)) [0..<r] = take r (drop o' (map f [0..<n]))"
  by (rule nth_equalityI) simp_all

text \<open>A read that stays inside the file is a window of its contents.\<close>

lemma read_data_window:
  assumes "file_in_image s m sz inode (unat (inode_length s m inode))"
    and "sep buf (unat len) (dentry_addr s) sz"
    and "unat offset + unat len \<le> unat (inode_length s m inode)" and "0 < len"
  shows "read_data s m inode offset buf len =
      (overlay m buf (unat len) (\<lambda>i. file_byte s m inode (unat offset + i)), len)"
    and "bytes (fst (read_data s m inode offset buf len)) buf (unat len) =
      take (unat len) (drop (unat offset) (file_contents s m inode))"
proof -
  have len: "0 < unat len" using assms(4) by (simp add: word_less_nat_alt)
  have r: "unat len = read_count s m inode len"
    using assms(3) by (simp add: read_count_def)
  have "offset < inode_length s m inode"
    using assms(3) len by (simp add: word_less_nat_alt)
  moreover have "file_in_image s m sz inode (unat offset + unat len)"
    using assms(1,3) by (simp add: file_in_image_def)
  ultimately show *: "read_data s m inode offset buf len =
      (overlay m buf (unat len) (\<lambda>i. file_byte s m inode (unat offset + i)), len)"
    using read_data_overlay [OF _ assms(2) _ r] by simp
  show "bytes (fst (read_data s m inode offset buf len)) buf (unat len) =
      take (unat len) (drop (unat offset) (file_contents s m inode))"
    using unat_lt32 [of len] assms(3)
    by (simp add: * bytes_overlay map_window file_contents_def)
qed

lemma read_data_whole:
  assumes "file_in_image s m sz inode (unat (inode_length s m inode))"
    and "sep buf (unat (inode_length s m inode)) (dentry_addr s) sz"
    and "0 < inode_length s m inode" and "inode_length s m inode \<le> len"
  shows "read_data s m inode 0 buf len =
      (overlay m buf (unat (inode_length s m inode)) (file_byte s m inode), inode_length s m inode)"
    and "bytes (fst (read_data s m inode 0 buf len)) buf (unat (inode_length s m inode)) =
      file_contents s m inode"
proof -
  have r: "unat (inode_length s m inode) = read_count s m inode len"
    using assms(4) by (simp add: read_count_def word_le_nat_alt)
  show *: "read_data s m inode 0 buf len =
      (overlay m buf (unat (inode_length s m inode)) (file_byte s m inode), inode_length s m inode)"
    using read_data_overlay [OF _ assms(2) assms(3) r] assms(1) by simp
  show "bytes (fst (read_data s m inode 0 buf len)) buf (unat (inode_length s m inode)) =
      file_contents s m inode"
    using unat_lt32 [of "inode_length s m inode"] by (simp add: * bytes_overlay file_contents_def)
qed

lemma read_data_error:
  "num_inode s m < inode \<Longrightarrow> read_data s m inode offset buf len = (m, -1)"
  "inode \<le> num_inode s m \<Longrightarrow> inode_length s m inode \<le> offset \<Longrightarrow>
    read_data s m inode offset buf len = (m, 0)"
  by (simp_all add: read_data_def Let_def)

subsection \<open>Finding a directory entry\<close>

definition entry_name :: "'a fs_scheme \<Rightarrow> mem \<Rightarrow> nat \<Rightarrow> u8 list" where
  "entry_name s m i = chars (view m (dentry_ptr s (of_nat i))) 0 32"

lemma entry_match:
  "strncmp fname (view m (dentry_ptr s (of_nat i))) B_32 = 0 \<longleftrightarrow> entry_name s m i = chars fname 0 32"
  by (auto simp: strncmp_eq entry_name_def)

lemma read_dentry_loop_find:
  "read_dentry_loop k s m fname (of_nat i) d =
    (case find (\<lambda>j. entry_name s m j = chars fname 0 32) [i..<i + k] of
       None \<Rightarrow> (d, -1) | Some j \<Rightarrow> (copy_dentry s m (of_nat j) fname d, 0))"
proof (induction k arbitrary: i)
  case (Suc k)
  have "[i..<i + Suc k] = i # [Suc i..<Suc i + k]"
    by (simp add: upt_conv_Cons)
  then show ?case
    using Suc [of "Suc i"] by (simp add: entry_match add.commute del: upt_Suc)
qed simp

lemma read_dentry_by_name_find:
  "read_dentry_by_name s m (Some fname) (Some d) =
    (case find (\<lambda>j. entry_name s m j = chars fname 0 32) [0..<63] of
       None \<Rightarrow> (Some d, -1) | Some j \<Rightarrow> (Some (copy_dentry s m (of_nat j) fname d), 0))"
  using read_dentry_loop_find [of 63 s m fname 0 d]
  by (simp add: read_dentry_by_name_def split: option.splits del: upt_Suc upt_rec_numeral)

lemma read_dentry_by_name_null:
  "read_dentry_by_name s m None d = (d, -1)" "read_dentry_by_name s m f None = (None, -1)"
  by (simp_all add: read_dentry_by_name_def split: option.split)

lemma bytes_at_chars:
  "i < k \<Longrightarrow> bytes_at (chars f 0 k) i = (if i < length (chars f 0 k) then f (of_nat i) else 0)"
  by (simp add: bytes_at_def chars_nth)

lemma chars_cong:
  "(\<And>j. j < k \<Longrightarrow> f (i + of_nat j) = g (i + of_nat j)) \<Longrightarrow> chars f i k = chars g i k"
proof (induction k arbitrary: i)
  case (Suc k)
  have "f i = g i" using Suc.prems [of 0] by simp
  moreover have "chars f (i + 1) k = chars g (i + 1) k"
    using Suc.prems [of "Suc j" for j] by (intro Suc.IH) (simp add: add.assoc)
  ultimately show ?case by simp
qed simp

lemma chars_padded:
  "0 \<notin> set xs \<Longrightarrow> length xs \<le> k \<Longrightarrow> (\<And>j. j < k \<Longrightarrow> f (i + of_nat j) = bytes_at xs j) \<Longrightarrow>
    chars f i k = xs"
proof (induction k arbitrary: i xs)
  case (Suc k)
  have fi: "f i = bytes_at xs 0" using Suc.prems(3) [of 0] by simp
  show ?case
  proof (cases xs)
    case Nil
    then show ?thesis using fi by simp
  next
    case (Cons y ys)
    have "chars f (i + 1) k = ys"
      using Suc.prems(1,2) Suc.prems(3) [of "Suc j" for j]
      by (intro Suc.IH) (auto simp: Cons bytes_at_Cons add.assoc)
    then show ?thesis using fi Suc.prems(1) by (auto simp: Cons bytes_at_Cons)
  qed
qed simp

text \<open>What \<open>copy_dentry\<close> leaves in the object, byte by byte.\<close>

lemma store32_other:
  "x \<noteq> a \<Longrightarrow> x \<noteq> a + 1 \<Longrightarrow> x \<noteq> a + 2 \<Longrightarrow> x \<noteq> a + 3 \<Longrightarrow> store32 m a v x = m x"
  by (simp add: store32_def)

lemma copy_dentry_bytes:
  "j < 32 \<Longrightarrow> copy_dentry s m i name d (of_nat j) = bytes_at (chars name 0 32) j"
  "d_type (copy_dentry s m i name d) = load32 m (dentry_ptr s i + 32)"
  "d_inode (copy_dentry s m i name d) = load32 m (dentry_ptr s i + 36)"
  "40 \<le> j \<Longrightarrow> j < 64 \<Longrightarrow> copy_dentry s m i name d (of_nat j) = d (of_nat j)"
proof -
  have small: "x < 64 \<Longrightarrow> (of_nat x :: u32) = y \<longleftrightarrow> x = unat y" for x y
    by (auto simp: word_unat_eq_iff unat_of_nat32)
  show "j < 32 \<Longrightarrow> copy_dentry s m i name d (of_nat j) = bytes_at (chars name 0 32) j"
    by (simp add: copy_dentry_def Let_def store32_other small strncpy_overlay overlay_def unat_of_nat32)
  show "40 \<le> j \<Longrightarrow> j < 64 \<Longrightarrow> copy_dentry s m i name d (of_nat j) = d (of_nat j)"
    by (simp add: copy_dentry_def Let_def store32_other small strncpy_overlay overlay_def unat_of_nat32)
  show "d_inode (copy_dentry s m i name d) = load32 m (dentry_ptr s i + 36)"
    by (simp add: copy_dentry_def Let_def d_inode_def load32_store32)
  show "d_type (copy_dentry s m i name d) = load32 m (dentry_ptr s i + 32)"
    by (simp add: copy_dentry_def Let_def d_type_def load32_def store32_def load32_bytes)
qed

lemma copy_dentry_name:
  "chars (d_name (copy_dentry s m i name d)) 0 32 = chars name 0 32"
  by (rule chars_padded)
    (simp_all add: chars_nonzero chars_length d_name_def copy_dentry_bytes(1))

text \<open>The object depends on the name only through its first 32 characters.\<close>

lemma copy_dentry_cong:
  "chars f 0 32 = chars g 0 32 \<Longrightarrow> copy_dentry s m i f d = copy_dentry s m i g d"
  by (simp add: copy_dentry_def strncpy_overlay)

text \<open>Looking an entry up by its name and by its number fill the same object.\<close>

lemma read_dentry_agree:
  assumes "i < 63" and "of_nat i < num_dentry s m"
    and "\<And>j. j < i \<Longrightarrow> entry_name s m j \<noteq> entry_name s m i"
    and "chars fname 0 32 = entry_name s m i"
  shows "read_dentry_by_name s m (Some fname) (Some d) =
    apfst Some (read_dentry_by_index s m (of_nat i) d)"
proof -
  have "find (\<lambda>j. entry_name s m j = chars fname 0 32) [0..<63] = Some i"
    unfolding find_Some_iff using assms by (intro exI [of _ i]) auto
  then show ?thesis
    using assms(2,4) copy_dentry_cong [of fname "view m (dentry_ptr s (of_nat i))" s m "of_nat i" d]
    by (simp add: read_dentry_by_name_find read_dentry_by_index_def entry_name_def)
qed

subsection \<open>Listing the directory\<close>

lemma clear_name_overlay:
  "n \<le> 4294967296 \<Longrightarrow> clear_name m buf i n = overlay m (buf + of_nat i) n (\<lambda>_. 0)"
proof (induction n arbitrary: m i)
  case (Suc n)
  then have "clear_name m buf i (Suc n) =
      overlay (m(buf + of_nat i := 0)) (buf + of_nat i + 1) n (\<lambda>_. 0)"
    by (simp add: algebra_simps)
  then show ?case using Suc.prems
    by (simp add: overlay_step) (auto intro!: overlay_cong split: nat.split)
qed simp

lemma overlay_overlay:
  "n \<le> k \<Longrightarrow> overlay (overlay m a k f) a n g = overlay m a k (\<lambda>i. if i < n then g i else f i)"
  by (auto simp: overlay_def fun_eq_iff)

lemma strlen_chars:
  "length (chars s 0 k) < k \<Longrightarrow> k < 4294967296 \<Longrightarrow> strlen s = Some (of_nat (length (chars s 0 k)))"
  using chars_stop [of s 0 k]
  by (intro strlen_holds) (simp add: holds_str_def chars_nonzero chars_nth)

lemma chars_prefix: "j \<le> k \<Longrightarrow> chars s i j = take j (chars s i k)"
proof (induction k arbitrary: i j)
  case (Suc k)
  show ?case
  proof (cases j)
    case (Suc l)
    then show ?thesis using Suc.IH [of l "i + 1"] Suc.prems by simp
  qed simp
qed simp

lemma chars_more: "length (chars s i j) < j \<Longrightarrow> j \<le> k \<Longrightarrow> chars s i k = chars s i j"
  using chars_prefix [of j k s i] by (auto simp: min_def split: if_splits)

lemma index_in_range: "int k < int (unat (n :: u32)) \<Longrightarrow> \<not> n \<le> of_nat k"
proof -
  assume "int k < int (unat n)"
  then have "k < unat n" by (simp only: of_nat_less_iff)
  then show "\<not> n \<le> of_nat k"
    using unat_lt32 [of n] by (simp add: word_le_nat_alt unat_of_nat32 not_le)
qed

text \<open>An entry with a name of fewer than 32 characters.\<close>

lemma dir_read_short:
  assumes "0 \<le> dir_read_loc s" "dir_read_loc s < int (unat (num_dentry s m))"
    and "length (entry_name s m (nat (dir_read_loc s))) < 32"
  shows "dir_read temp buf s m = Some (s\<lparr>dir_read_loc := dir_read_loc s + 1\<rparr>,
    overlay m buf 33 (bytes_at (entry_name s m (nat (dir_read_loc s)))),
    of_nat (length (entry_name s m (nat (dir_read_loc s)))))"
proof -
  obtain k where k: "dir_read_loc s = int k" using assms(1) nonneg_int_cases by blast
  define xs where "xs = entry_name s m k"
  let ?t = "copy_dentry s m (of_nat k) (view m (dentry_ptr s (of_nat k))) temp"
  have kn: "\<not> num_dentry s m \<le> of_nat k"
    using assms(2) by (simp only: k index_in_range not_False_eq_True)
  have len: "length xs < 32" using assms(3) by (simp add: xs_def k)
  have name: "chars (d_name ?t) 0 32 = xs"
    by (simp add: copy_dentry_name xs_def entry_name_def)
  have "strlen (d_name ?t) = Some (of_nat (length xs))"
    using strlen_chars [of "d_name ?t" 32] len by (simp add: name)
  moreover have "\<not> B_32 < of_nat (length xs)"
    using len by (simp add: word_less_nat_alt unat_of_nat32)
  moreover have "strncpy (clear_name m buf 0 33) buf (d_name ?t) (of_nat (length xs) + 1) =
      overlay m buf 33 (bytes_at xs)"
  proof -
    have u: "unat (of_nat (length xs) + 1 :: u32) = Suc (length xs)"
      using len unat_of_nat32 [of "Suc (length xs)"] by (simp add: add.commute)
    have c: "chars (d_name ?t) 0 (Suc (length xs)) = xs"
      using len chars_prefix [of "Suc (length xs)" 32 "d_name ?t" 0] by (simp only: name) simp
    show ?thesis
      using len by (simp add: strncpy_overlay u c clear_name_overlay overlay_overlay del: chars.simps)
        (auto intro!: overlay_cong simp: bytes_at_def)
  qed
  ultimately show ?thesis
    using kn by (simp add: dir_read_def read_dentry_by_index_def k xs_def Let_def)
qed

text \<open>
  A name that fills all 32 bytes has no NUL of its own: \<open>strncpy\<close> copies one byte more,
  which is the first byte of the type of the entry, and that is not NUL for a file.
\<close>

lemma dir_read_full:
  assumes "0 \<le> dir_read_loc s" "dir_read_loc s < int (unat (num_dentry s m))"
    and "length (entry_name s m (nat (dir_read_loc s))) = 32"
    and "load32 m (dentry_ptr s (of_int (dir_read_loc s)) + 32) = 2"
  shows "dir_read temp buf s m = Some (s\<lparr>dir_read_loc := dir_read_loc s + 1\<rparr>,
    overlay m buf 33 (bytes_at (entry_name s m (nat (dir_read_loc s)) @ [2])), 32)"
proof -
  obtain k where k: "dir_read_loc s = int k" using assms(1) nonneg_int_cases by blast
  define xs where "xs = entry_name s m k"
  let ?t = "copy_dentry s m (of_nat k) (view m (dentry_ptr s (of_nat k))) temp"
  have kn: "\<not> num_dentry s m \<le> of_nat k"
    using assms(2) by (simp only: k index_in_range not_False_eq_True)
  have len: "length xs = 32" and ty: "load32 m (dentry_ptr s (of_nat k) + 32) = 2"
    using assms(3,4) by (simp_all add: xs_def k)
  have xs: "chars (view m (dentry_ptr s (of_nat k))) 0 32 = xs" by (simp add: xs_def entry_name_def)
  have t: "?t (of_nat j) = xs ! j" if "j < 32" for j
    using copy_dentry_bytes(1) [OF that, of s m "of_nat k" "view m (dentry_ptr s (of_nat k))" temp] that len
    by (simp add: xs bytes_at_def)
  have t32: "?t 32 = 2" "?t 33 = 0"
    by (simp_all add: copy_dentry_def Let_def ty store32_def byte_of_def)
  have nz: "0 \<notin> set xs" by (simp add: xs [symmetric] chars_nonzero)
  have name: "holds_str (d_name ?t) (xs @ [2])"
  proof -
    have "?t (of_nat j) = (xs @ [2]) ! j" if "j < 33" for j
    proof (cases "j < 32")
      case False
      then have "j = 32" using that by simp
      then show ?thesis using t32(1) by (simp add: nth_append len)
    qed (simp add: t nth_append len)
    then show ?thesis using t32(2) nz by (simp add: holds_str_def d_name_def len)
  qed
  have "strlen (d_name ?t) = Some 33"
    using strlen_holds [OF name] by (simp add: len)
  moreover have "chars (d_name ?t) 0 33 = xs @ [2]"
    using name by (intro chars_padded) (auto simp: holds_str_def len bytes_at_def)
  then have "strncpy (clear_name m buf 0 33) buf (d_name ?t) 33 =
      overlay m buf 33 (bytes_at (xs @ [2]))"
    by (simp add: strncpy_overlay clear_name_overlay overlay_overlay del: chars.simps) (auto simp: overlay_def fun_eq_iff)
  ultimately show ?thesis
    using kn by (simp add: dir_read_def read_dentry_by_index_def k xs_def [symmetric] Let_def)
qed

lemma dir_read_long:
  assumes "0 \<le> dir_read_loc s" "dir_read_loc s < int (unat (num_dentry s m))"
    and "length (entry_name s m (nat (dir_read_loc s))) = 32"
    and "load32 m (dentry_ptr s (of_int (dir_read_loc s)) + 32) = 2"
  shows "\<exists>m'. dir_read temp buf s m = Some (s\<lparr>dir_read_loc := dir_read_loc s + 1\<rparr>, m', 32) \<and>
    bytes m' buf 33 = entry_name s m (nat (dir_read_loc s)) @ [2]"
  unfolding dir_read_full [OF assms]
  by (simp, rule nth_equalityI) (auto simp: bytes_overlay bytes_at_def assms(3))

lemma dir_read_end:
  assumes "unat (num_dentry s m) \<le> nat (dir_read_loc s)" "0 \<le> dir_read_loc s"
    "dir_read_loc s < 2 ^ 32"
  shows "dir_read temp buf s m = Some (s\<lparr>dir_read_loc := 0\<rparr>, m, 0)"
proof -
  obtain k where k: "dir_read_loc s = int k" using assms(2) nonneg_int_cases by blast
  have "num_dentry s m \<le> of_nat k"
    using assms k by (simp add: word_le_nat_alt unat_of_nat32)
  then show ?thesis by (simp add: dir_read_def read_dentry_by_index_def k)
qed

text \<open>A program that reads the directory until it gets 0, as \<open>ls\<close> does.\<close>

fun list_dir :: "nat \<Rightarrow> mem \<Rightarrow> u32 \<Rightarrow> 'a fs_scheme \<Rightarrow> mem \<Rightarrow>
    ('a fs_scheme \<times> mem \<times> u8 list list) option" where
  "list_dir 0 temp buf s m = None"
| "list_dir (Suc k) temp buf s m =
    do { (s, m, n) \<leftarrow> dir_read temp buf s m;
         if n = 0 then Some (s, m, [])
         else do { (s', m', names) \<leftarrow> list_dir k temp buf s m;
                   Some (s', m', bytes m buf (unat n) # names) } }"

lemma dir_overlay:
  assumes "sep buf 33 (file_sys s) (64 + 64 * n)"
  shows "num_dentry s (overlay m buf 33 f) = num_dentry s m"
    and "i < n \<Longrightarrow> entry_name s (overlay m buf 33 f) i = entry_name s m i"
proof -
  show "num_dentry s (overlay m buf 33 f) = num_dentry s m"
    using image_load32 [OF assms order_refl, of 0 m f] by (simp add: num_dentry_def)
  assume "i < n"
  then have "overlay m buf 33 f (dentry_ptr s (of_nat i) + of_nat j) = m (dentry_ptr s (of_nat i) + of_nat j)"
    if "j < 32" for j
    using sep_reads [OF assms, of "64 + 64 * i + j" m f] that
    by (simp add: dentry_ptr_def algebra_simps)
  then show "entry_name s (overlay m buf 33 f) i = entry_name s m i"
    unfolding entry_name_def by (intro chars_cong) simp
qed

lemma list_dir_names:
  assumes "sep buf 33 (file_sys s) (64 + 64 * n)" and "unat (num_dentry s m) = n"
    and "\<And>i. i < n \<Longrightarrow> entry_name s m i \<noteq> [] \<and> length (entry_name s m i) < 32"
  shows "dir_read_loc s = int i \<Longrightarrow> i \<le> n \<Longrightarrow> n - i < k \<Longrightarrow>
    \<exists>m'. list_dir k temp buf s m = Some (s\<lparr>dir_read_loc := 0\<rparr>, m', map (entry_name s m) [i..<n])"
  using assms
proof (induction k arbitrary: i s m)
  case 0
  then show ?case by simp
next
  case (Suc k)
  show ?case
  proof (cases "i = n")
    case True
    have "n < 4294967296" using Suc.prems(5) unat_lt32 [of "num_dentry s m"] by simp
    then have "dir_read temp buf s m = Some (s\<lparr>dir_read_loc := 0\<rparr>, m, 0)"
      using Suc.prems True by (intro dir_read_end) simp_all
    then show ?thesis using True by simp
  next
    case False
    then have i: "i < n" using Suc.prems(2) by simp
    let ?xs = "entry_name s m i"
    let ?s = "s\<lparr>dir_read_loc := int (Suc i)\<rparr>" and ?m = "overlay m buf 33 (bytes_at ?xs)"
    have xs: "?xs \<noteq> []" "length ?xs < 32" using Suc.prems(6) [OF i] by simp_all
    have step: "dir_read temp buf s m = Some (?s, ?m, of_nat (length ?xs))"
      using dir_read_short [of s m temp buf] Suc.prems(1,5) i xs by (simp add: add.commute)
    have nz: "(of_nat (length ?xs) :: u32) \<noteq> 0" "unat (of_nat (length ?xs) :: u32) = length ?xs"
      using xs by (auto simp: unat_of_nat32 word_unat_eq_iff)
    have read: "bytes ?m buf (length ?xs) = ?xs"
      using xs by (intro nth_equalityI) (auto simp: bytes_def overlay_inside bytes_at_def)
    have keep: "num_dentry ?s ?m = num_dentry s m"
      "\<And>j. j < n \<Longrightarrow> entry_name ?s ?m j = entry_name s m j"
      using dir_overlay [OF Suc.prems(4)]
      by (simp_all add: num_dentry_def entry_name_def dentry_ptr_def)
    have "\<exists>m'. list_dir k temp buf ?s ?m =
        Some (?s\<lparr>dir_read_loc := 0\<rparr>, m', map (entry_name ?s ?m) [Suc i..<n])"
    proof (rule Suc.IH)
      show "sep buf 33 (file_sys ?s) (64 + 64 * n)" using Suc.prems(4) by simp
      show "unat (num_dentry ?s ?m) = n" by (simp only: keep(1) Suc.prems(5))
      show "entry_name ?s ?m j \<noteq> [] \<and> length (entry_name ?s ?m j) < 32" if "j < n" for j
        unfolding keep(2) [OF that] by (rule Suc.prems(6) [OF that])
    qed (use Suc.prems i in simp_all)
    moreover have "map (entry_name ?s ?m) [Suc i..<n] = map (entry_name s m) [Suc i..<n]"
      by (rule map_cong [OF refl], rule keep(2)) simp
    ultimately show ?thesis
      using i by (auto simp: step nz read upt_conv_Cons [of i n])
  qed
qed

text \<open>
  A small image for the examples: one entry \<open>ls\<close> of type 2, one index node of five bytes,
  one data block that holds \<open>hello\<close>.
\<close>

definition fs_bss :: fs where
  "fs_bss = paging.extend paging_bss (fs.fields 0x400000 0x400000 0)"

definition small_image :: mem where
  "small_image = (\<lambda>_. 0)(0x400000 := 1, 0x400004 := 1, 0x400008 := 1,
    0x400040 := 0x6C, 0x400041 := 0x73, 0x400060 := 2, 0x401000 := 5,
    0x402000 := 0x68, 0x402001 := 0x65, 0x402002 := 0x6C, 0x402003 := 0x6C, 0x402004 := 0x6F)"

lemma fs_bss_simps [simp]:
  "file_sys fs_bss = 0x400000" "dentry_addr fs_bss = 0x400000" "dir_read_loc fs_bss = 0"
  by (simp_all add: fs_bss_def fs.defs paging.defs)

lemma small_image_simps:
  "num_inode fs_bss small_image = 1" "num_dentry fs_bss small_image = 1"
  "inode_length fs_bss small_image 0 = 5" "data_block_index fs_bss small_image 0 0 = 0"
  by (simp_all add: num_inode_def num_dentry_def inode_length_def data_block_index_def
      load32_def small_image_def)

lemma small_image_file: "k \<le> 4096 \<Longrightarrow> file_in_image fs_bss small_image 0x3000 0 k"
  by (simp add: file_in_image_def small_image_simps)

lemma small_image_contents: "file_contents fs_bss small_image 0 = ascii ''hello''"
proof -
  have "[0..<5] = [0, 1, 2, 3, 4 :: nat]" by (simp add: upt_rec)
  then show ?thesis
    by (simp add: file_contents_def small_image_simps file_byte_def cur_pos_def ascii_def)
       (simp add: small_image_def)
qed

lemma small_image_name: "entry_name fs_bss small_image 0 = ascii ''ls''"
  by (simp add: entry_name_def numeral_eq_Suc dentry_ptr_def ascii_def) (simp add: small_image_def)

subsection \<open>Properties\<close>

text \<open>C16: \<open>read_data\<close>, called for bytes that lie inside the file, copies exactly that window of the
  file to the buffer, whatever blocks it spans and wherever it starts, returns the number of
  bytes, and changes nothing outside the buffer.\<close>

theorem read_data_reads_window:
  assumes "file_in_image s m sz inode (unat (inode_length s m inode))"
    and "sep buf (unat len) (dentry_addr s) sz"
    and "unat offset + unat len \<le> unat (inode_length s m inode)" and "0 < len"
  shows "case read_data s m inode offset buf len of (m', r) \<Rightarrow>
    r = len \<and> bytes m' buf (unat len) = take (unat len) (drop (unat offset) (file_contents s m inode)) \<and>
    (\<forall>a. \<not> unat (a - buf) < unat len \<longrightarrow> m' a = m a)"
  using read_data_window(2) [OF assms] by (simp add: read_data_window(1) [OF assms] overlay_outside)

theorem read_data_reads_window_witness:
  "bytes (fst (read_data fs_bss small_image 0 1 0x8000 3)) 0x8000 3 = ascii ''ell''"
  using read_data_reads_window [of fs_bss small_image "0x3000" 0 "0x8000" 3 1]
  by (simp add: small_image_simps small_image_file sep_def small_image_contents ascii_def
      split: prod.splits)

text \<open>A read of the whole file, as the program loader makes it, puts the complete contents of
  the file into the buffer and returns its length, however large the length asked for.\<close>

theorem read_data_reads_file:
  assumes "file_in_image s m sz inode (unat (inode_length s m inode))"
    and "sep buf (unat (inode_length s m inode)) (dentry_addr s) sz"
    and "0 < inode_length s m inode" and "inode_length s m inode \<le> len"
  shows "case read_data s m inode 0 buf len of (m', r) \<Rightarrow>
    r = inode_length s m inode \<and> bytes m' buf (unat r) = file_contents s m inode"
  using read_data_whole(2) [OF assms] by (simp add: read_data_whole(1) [OF assms])

theorem read_data_reads_file_witness:
  "bytes (fst (read_data fs_bss small_image 0 0 0x8000 0x400000)) 0x8000 5 = ascii ''hello''"
  using read_data_reads_file [of fs_bss small_image "0x3000" 0 "0x8000" "0x400000"]
  by (simp add: small_image_simps small_image_file sep_def small_image_contents split: prod.splits)

text \<open>The size of a read does not depend on the offset: it is the requested length cut at the
  length of the file.  A read that starts inside the file and asks for more than is left
  copies and counts bytes that lie behind its end.\<close>

theorem read_data_ignores_end:
  assumes "file_in_image s m sz inode (unat offset + r)"
    and "sep buf r (dentry_addr s) sz"
    and "offset < inode_length s m inode"
    and "r = min (unat len) (unat (inode_length s m inode))"
  shows "read_data s m inode offset buf len =
    (overlay m buf r (\<lambda>i. file_byte s m inode (unat offset + i)), of_nat r)"
  using assms by (intro read_data_overlay) (simp_all add: read_count_def)

theorem read_data_ignores_end_witness:
  "snd (read_data fs_bss small_image 0 4 0x8000 100) = 5"
  by (subst read_data_ignores_end [where sz = "0x3000" and r = 5])
     (simp_all add: small_image_simps small_image_file sep_def)


text \<open>Looking up an entry by the name it has and by its number agree: both fill the object with
  the same name, type and inode number.\<close>

theorem read_dentry_name_index:
  assumes "i < 63" and "of_nat i < num_dentry s m"
    and "\<And>j. j < i \<Longrightarrow> entry_name s m j \<noteq> entry_name s m i"
    and "chars fname 0 32 = entry_name s m i"
  shows "read_dentry_by_name s m (Some fname) (Some d) =
      apfst Some (read_dentry_by_index s m (of_nat i) d) \<and>
    (\<exists>e. read_dentry_by_index s m (of_nat i) d = (e, 0) \<and>
      chars (d_name e) 0 32 = entry_name s m i \<and>
      d_type e = load32 m (dentry_ptr s (of_nat i) + 32) \<and>
      d_inode e = load32 m (dentry_ptr s (of_nat i) + 36))"
proof -
  have "\<not> num_dentry s m \<le> of_nat i" using assms(2) by simp
  then have "read_dentry_by_index s m (of_nat i) d =
      (copy_dentry s m (of_nat i) (view m (dentry_ptr s (of_nat i))) d, 0)"
    by (simp add: read_dentry_by_index_def)
  then show ?thesis
    using read_dentry_agree [OF assms, of d]
    by (simp add: copy_dentry_bytes(2,3) copy_dentry_name entry_name_def)
qed

theorem read_dentry_name_index_witness:
  "\<exists>e. read_dentry_by_index fs_bss small_image 0 (\<lambda>_. 0) = (e, 0) \<and>
    chars (d_name e) 0 32 = ascii ''ls'' \<and> d_type e = 2"
proof -
  have "chars (view small_image 0x400040) 0 32 = entry_name fs_bss small_image 0"
    by (simp add: entry_name_def dentry_ptr_def del: chars.simps)
  moreover have "load32 small_image 0x400060 = 2"
    by (simp add: load32_def small_image_def)
  ultimately show ?thesis
    using read_dentry_name_index [of 0 fs_bss small_image "view small_image 0x400040" "\<lambda>_. 0"]
    by (auto simp: small_image_simps small_image_name dentry_ptr_def simp del: chars.simps view_apply)
qed

text \<open>C22: a program that reads the directory until it gets 0, starting at its beginning, gets the
  names of all the entries in order, each with its length, and leaves the position at the
  beginning again; this is for names of 1 to 31 characters.\<close>

theorem dir_read_lists_names:
  assumes "sep buf 33 (file_sys s) (64 + 64 * n)" and "unat (num_dentry s m) = n"
    and "\<And>i. i < n \<Longrightarrow> entry_name s m i \<noteq> [] \<and> length (entry_name s m i) < 32"
    and "dir_read_loc s = 0" and "n < k"
  shows "\<exists>m'. list_dir k temp buf s m = Some (s, m', map (entry_name s m) [0..<n])"
proof -
  have "s\<lparr>dir_read_loc := 0\<rparr> = s" using assms(4) by simp
  then show ?thesis
    using list_dir_names [OF assms(1-3), of 0 k temp] assms(4,5) by auto
qed

theorem dir_read_lists_names_witness:
  "\<exists>m'. list_dir 2 (\<lambda>_. 0) 0x8000 fs_bss small_image = Some (fs_bss, m', [ascii ''ls''])"
  using dir_read_lists_names [of "0x8000" fs_bss 1 small_image 2 "\<lambda>_. 0"]
  by (simp add: small_image_simps small_image_name sep_def ascii_def)

text \<open>For a regular file whose name fills all 32 bytes of its entry, \<open>dir_read\<close> returns 32 but
  stores 33 bytes: the last one, where a string would have its NUL, is the low byte of the
  file's type.\<close>

theorem dir_read_long_name:
  assumes "0 \<le> dir_read_loc s" "dir_read_loc s < int (unat (num_dentry s m))"
    and "length (entry_name s m (nat (dir_read_loc s))) = 32"
    and "load32 m (dentry_ptr s (of_int (dir_read_loc s)) + 32) = 2"
  shows "\<exists>m'. dir_read temp buf s m = Some (s\<lparr>dir_read_loc := dir_read_loc s + 1\<rparr>, m', 32) \<and>
    bytes m' buf 33 = entry_name s m (nat (dir_read_loc s)) @ [2]"
  using assms by (rule dir_read_long)

definition long_name_image :: mem where
  "long_name_image = (overlay (\<lambda>_. 0) 0x400040 32 (\<lambda>_. 0x61))(0x400000 := 1, 0x400060 := 2)"

lemma long_name_image_simps:
  "num_dentry fs_bss long_name_image = 1" "entry_name fs_bss long_name_image 0 = replicate 32 0x61"
  "load32 long_name_image 0x400060 = 2"
proof -
  show "num_dentry fs_bss long_name_image = 1" "load32 long_name_image 0x400060 = 2"
    by (simp_all add: num_dentry_def load32_def long_name_image_def overlay_def)
  have "long_name_image (0x400040 + of_nat j) = 0x61" if "j < 32" for j
  proof -
    have "(0x400040 + of_nat j :: u32) \<noteq> 0x400000" "(0x400040 + of_nat j :: u32) \<noteq> 0x400060"
      using that by (auto simp: word_unat_eq_iff unat_word_ariths unat_of_nat32)
    then show ?thesis using that by (simp add: long_name_image_def overlay_inside)
  qed
  then have "chars (view long_name_image 0x400040) 0 32 = replicate 32 0x61"
    by (intro chars_padded) (simp_all add: bytes_at_def)
  then show "entry_name fs_bss long_name_image 0 = replicate 32 0x61"
    by (simp add: entry_name_def dentry_ptr_def)
qed

theorem dir_read_long_name_witness:
  "\<exists>m'. dir_read (\<lambda>_. 0) 0x8000 fs_bss long_name_image =
      Some (fs_bss\<lparr>dir_read_loc := 1\<rparr>, m', 32) \<and> bytes m' 0x8000 33 = replicate 32 0x61 @ [2]"
  using dir_read_long_name [of fs_bss long_name_image "\<lambda>_. 0" "0x8000"]
  by (simp add: long_name_image_simps dentry_ptr_def)

end
