(* ===== verification/Console.thy ===== *)
theory Console
  imports Filesystem
begin

text \<open>
  The state that \<open>lib.c\<close>, \<open>keyboard.c\<close>, \<open>terminal.c\<close> and \<open>schedule.c\<close> share, and the screen
  output of \<open>lib.c\<close>.  The four files call each other (printing a character moves the
  keyboard's idea of the cursor), so their variables form one record: \<open>screen_x\<close> and
  \<open>screen_y\<close> are the position of \<open>putc\<close>, \<open>vd_x\<close> and \<open>vd_y\<close> the position the keyboard
  believes in, \<open>current_x\<close> to \<open>current_cursor_y\<close> the copy of the terminal.

  Video memory is physical memory at \<open>0xB8000\<close>, which the kernel maps to itself.  The cell in
  column \<open>x\<close> of row \<open>y\<close> is the two bytes at offset \<open>2 * (80 * y + x)\<close>.
\<close>

record kboard =
  pressed :: u8
  released :: u8
  ascii_number :: u32

record terminal =
  t_open :: u32
  tem_num :: u32
  t_screen_x :: u32
  t_screen_y :: u32
  t_cursor_x :: u32
  t_cursor_y :: u32
  t_buf :: "u8 list"
  t_buf_index :: u32
  video_ptr :: u32
  cur_pcb :: u32
  current_ebp :: u32
  current_esp :: u32
  t_esp0 :: u32
  first_process :: int
  current_pid :: u32
  read_flag :: u32
  fish :: int

record console = fs +
  screen_x :: int
  screen_y :: int
  keyboard_sc :: "kboard list"
  keyboard_Cap :: "kboard list"
  caps_lock_flags :: int
  shift_flags :: int
  ctrl_flags :: int
  alt_flags :: int
  keyboardbuf :: "u8 list"
  buf_index :: int
  count :: int
  vd_x :: int
  vd_y :: int
  enter_flag :: int
  terminal_flag :: int
  term_buf :: "u8 list"
  terminal_buffer_index :: u32
  terminals :: "terminal list"
  current_x :: int
  current_y :: int
  current_cursor_x :: int
  current_cursor_y :: int
  current_id :: int
  kbbuf :: "u8 list"
  curr_terminal :: u8
  next_terminal :: u8
  curr_pid :: int
  next_pid :: int

abbreviation "VIDEO \<equiv> (0xB8000 :: u32)"
abbreviation "NUM_COLS \<equiv> (80 :: int)"
abbreviation "NUM_ROWS \<equiv> (25 :: int)"
abbreviation "ATTRIB \<equiv> (7 :: u8)"
abbreviation "space \<equiv> (0x20 :: u8)"

subsection \<open>The setters of keyboard.c and terminal.c\<close>

definition copy_position :: "int \<Rightarrow> int \<Rightarrow> 'a console_scheme \<Rightarrow> 'a console_scheme" where
  "copy_position x y s = s\<lparr>vd_x := x, vd_y := y\<rparr>"

definition keyboard_write :: "'a console_scheme \<Rightarrow> 'a console_scheme" where
  "keyboard_write s = s\<lparr>enter_flag := 1\<rparr>"

definition get_position :: "int \<Rightarrow> int \<Rightarrow> 'a console_scheme \<Rightarrow> 'a console_scheme" where
  "get_position x y s = s\<lparr>current_x := x, current_y := y\<rparr>"

definition get_cursor :: "int \<Rightarrow> int \<Rightarrow> 'a console_scheme \<Rightarrow> 'a console_scheme" where
  "get_cursor x y s = s\<lparr>current_cursor_x := x, current_cursor_y := y\<rparr>"

definition get_terminal_id :: "'a console_scheme \<Rightarrow> int" where
  "get_terminal_id s = current_id s"

subsection \<open>Position and cursor\<close>

definition get_x :: "'a console_scheme \<Rightarrow> int" where "get_x s = screen_x s"
definition get_y :: "'a console_scheme \<Rightarrow> int" where "get_y s = screen_y s"

definition reset_position :: "int \<Rightarrow> int \<Rightarrow> 'a console_scheme \<Rightarrow> 'a console_scheme" where
  "reset_position x y s = (get_position x y s)\<lparr>screen_x := x, screen_y := y\<rparr>"

text \<open>\<open>position\<close> is an \<open>unsigned short\<close>.\<close>

definition reset_cursor :: "int \<Rightarrow> int \<Rightarrow> 'a console_scheme \<Rightarrow> 'a console_scheme" where
  "reset_cursor x y s =
    (let s = get_cursor x y s;
         position = (of_int (y * NUM_COLS + x) :: u16);
         s = outb 0x0F 0x3D4 s;
         s = outb (ucast (position AND 0xFF)) 0x3D5 s;
         s = outb 0x0E 0x3D4 s
     in outb (ucast (drop_bit 8 position AND 0xFF)) 0x3D5 s)"

subsection \<open>Writing cells\<close>

definition cell_addr :: "int \<Rightarrow> int \<Rightarrow> u32" where
  "cell_addr x y = VIDEO + of_int (2 * (NUM_COLS * y + x))"

definition put_cell :: "int \<Rightarrow> int \<Rightarrow> u8 \<Rightarrow> 'a console_scheme \<Rightarrow> 'a console_scheme" where
  "put_cell x y c s =
    s\<lparr>phys := (phys s)(cell_addr x y := c, cell_addr x y + 1 := ATTRIB)\<rparr>"

definition clear :: "'a console_scheme \<Rightarrow> 'a console_scheme" where
  "clear s = s\<lparr>phys := fold (\<lambda>i m. m(VIDEO + 2 * of_nat i := space, VIDEO + 2 * of_nat i + 1 := ATTRIB))
     [0..<25 * 80] (phys s)\<rparr>"

text \<open>
  The two nested loops that move rows 1 to 24 up by one, and the loop that blanks row 24,
  in the video memory at \<open>p\<close>.
\<close>

definition scroll_rows :: "u32 \<Rightarrow> mem \<Rightarrow> mem" where
  "scroll_rows p m =
    fold (\<lambda>a. fold (\<lambda>b m. m(p + 2 * of_nat (80 * a + b) := m (p + 2 * of_nat (80 * (a + 1) + b)),
                              p + 2 * of_nat (80 * a + b) + 1 := ATTRIB)) [0..<80]) [0..<24] m"

definition blank_row :: "u32 \<Rightarrow> mem \<Rightarrow> mem" where
  "blank_row p m =
    fold (\<lambda>a m. m(p + 2 * of_nat (80 * 24 + a) := space,
                   p + 2 * of_nat (80 * 24 + a) + 1 := ATTRIB)) [0..<80] m"

definition reset_video :: "'a console_scheme \<Rightarrow> 'a console_scheme" where
  "reset_video s = s\<lparr>phys := scroll_rows VIDEO (phys s)\<rparr>"

definition clear_row :: "'a console_scheme \<Rightarrow> 'a console_scheme" where
  "clear_row s = s\<lparr>phys := blank_row VIDEO (phys s)\<rparr>"

definition put_backspace :: "'a console_scheme \<Rightarrow> 'a console_scheme" where
  "put_backspace s =
    (let s = s\<lparr>screen_x := screen_x s - 1\<rparr> in put_cell (screen_x s) (screen_y s) space s)"

definition put_upbackspace :: "'a console_scheme \<Rightarrow> 'a console_scheme" where
  "put_upbackspace s =
    (let s = s\<lparr>screen_y := screen_y s - 1, screen_x := NUM_COLS - 1\<rparr>
     in put_cell (screen_x s) (screen_y s) space s)"

subsection \<open>putc, puts\<close>

definition putc :: "u8 \<Rightarrow> 'a console_scheme \<Rightarrow> 'a console_scheme" where
  "putc c s =
    (let s = cli s
     in if (c = 0x0A \<or> c = 0x0D) \<and> screen_y s = NUM_ROWS - 1 then
          let s = keyboard_write s;
              s = s\<lparr>screen_x := 0, screen_y := NUM_ROWS - 1\<rparr>;
              s = reset_video s;
              s = clear_row s;
              s = copy_position (screen_x s) (screen_y s) s;
              s = reset_position (screen_x s) (screen_y s) s
          in reset_cursor (screen_x s) (screen_y s) s
        else
          let s = (if c = 0x0A \<or> c = 0x0D then s\<lparr>screen_y := screen_y s + 1, screen_x := 0\<rparr>
                   else
                     let s = put_cell (screen_x s) (screen_y s) c s;
                         s = s\<lparr>screen_x := screen_x s + 1\<rparr>;
                         s = s\<lparr>screen_x := screen_x s smod NUM_COLS\<rparr>
                     in s\<lparr>screen_y := (screen_y s + screen_x s sdiv NUM_COLS) smod NUM_ROWS\<rparr>);
              s = copy_position (screen_x s) (screen_y s) s;
              s = reset_position (screen_x s) (screen_y s) s
          in reset_cursor (screen_x s) (screen_y s) s)"

partial_function (option) puts_from ::
  "cstr \<Rightarrow> u32 \<Rightarrow> 'a console_scheme \<Rightarrow> ('a console_scheme \<times> u32) option" where
  "puts_from str index s =
    (if str index \<noteq> 0 then puts_from str (index + 1) (putc (str index) s) else Some (s, index))"

definition puts :: "cstr \<Rightarrow> 'a console_scheme \<Rightarrow> ('a console_scheme \<times> u32) option" where
  "puts str s = puts_from str 0 s"

subsection \<open>putm\<close>

text \<open>
  Output of a program whose terminal is not shown: the positions are those of the terminal
  (unsigned words) and the cells those of its video page.  \<open>printscreen\<close> has no value
  when \<open>curr_terminal\<close> is not 0, 1 or 2.
\<close>

definition printscreen :: "'a console_scheme \<Rightarrow> u32 option" where
  "printscreen s =
    (if curr_terminal s = 0 then Some 0xB9000 else if curr_terminal s = 1 then Some 0xBA000
     else if curr_terminal s = 2 then Some 0xBB000 else None)"

definition term_ix :: "'a console_scheme \<Rightarrow> int \<Rightarrow> nat option" where
  "term_ix s i = (if 0 \<le> i \<and> nat i < length (terminals s) then Some (nat i) else None)"

definition upd_term :: "nat \<Rightarrow> (terminal \<Rightarrow> terminal) \<Rightarrow> 'a console_scheme \<Rightarrow> 'a console_scheme" where
  "upd_term k f s = s\<lparr>terminals := (terminals s)[k := f (terminals s ! k)]\<rparr>"

definition putm :: "u8 \<Rightarrow> 'a console_scheme \<Rightarrow> 'a console_scheme option" where
  "putm c s =
    do { p \<leftarrow> printscreen s;
         k \<leftarrow> term_ix s (uint (curr_terminal s));
         let t = terminals s ! k;
         if (c = 0x0A \<or> c = 0x0D) \<and> t_screen_y t = 24 then
           Some (let s = keyboard_write s;
                     s = upd_term k (\<lambda>t. t\<lparr>t_screen_x := 0, t_screen_y := 24\<rparr>) s
                 in s\<lparr>phys := blank_row p (scroll_rows p (phys s))\<rparr>)
         else if c = 0x0A \<or> c = 0x0D then
           Some (upd_term k (\<lambda>t. t\<lparr>t_screen_y := t_screen_y t + 1, t_screen_x := 0\<rparr>) s)
         else
           Some (let a = p + 2 * (80 * t_screen_y t + t_screen_x t);
                     s = s\<lparr>phys := (phys s)(a := c, a + 1 := ATTRIB)\<rparr>;
                     x = (t_screen_x t + 1) mod 80
                 in upd_term k (\<lambda>t. t\<lparr>t_screen_x := x, t_screen_y := (t_screen_y t + x div 80) mod 25\<rparr>) s) }"

subsection \<open>The loops as overlays\<close>

definition cells :: "u8 \<Rightarrow> nat \<Rightarrow> u8" where
  "cells c j = (if even j then c else ATTRIB)"

lemma overlay_pair:
  "2 * n + 2 \<le> 4294967296 \<Longrightarrow> overlay m p (2 * Suc n) f =
    (overlay m p (2 * n) f)(p + 2 * of_nat n := f (2 * n), p + 2 * of_nat n + 1 := f (Suc (2 * n)))"
  by (simp add: overlay_Suc algebra_simps)

lemma fold_cells:
  assumes f: "\<And>i m. f i m = m(p + 2 * of_nat i := c, p + 2 * of_nat i + 1 := ATTRIB)"
  shows "2 * n \<le> 4294967296 \<Longrightarrow> fold f [0..<n] m = overlay m p (2 * n) (cells c)"
proof (induction n)
  case (Suc n)
  have c: "cells c (2 * n) = c" "cells c (Suc (2 * n)) = ATTRIB" by (simp_all add: cells_def)
  have le: "2 * n + 2 \<le> 4294967296" using Suc.prems by simp
  have "fold f [0..<Suc n] m = f n (overlay m p (2 * n) (cells c))"
    using Suc by simp
  also have "\<dots> = overlay m p (2 * Suc n) (cells c)"
    unfolding overlay_pair [OF le] c by (rule f)
  finally show ?case .
qed simp

lemma clear_phys: "phys (clear s) = overlay (phys s) VIDEO 4000 (cells space)"
  unfolding clear_def
  using fold_cells [of "\<lambda>i m. m(VIDEO + 2 * of_nat i := space, VIDEO + 2 * of_nat i + 1 := ATTRIB)"
      VIDEO space 2000 "phys s"] by simp

lemma blank_row_overlay: "blank_row p m = overlay m (p + 3840) 160 (cells space)"
  unfolding blank_row_def
  using fold_cells [of "\<lambda>a m. m(p + 2 * of_nat (80 * 24 + a) := space,
      p + 2 * of_nat (80 * 24 + a) + 1 := ATTRIB)" "p + 3840" space 80 m]
  by (simp add: algebra_simps)

text \<open>The nested loops visit the cells of 24 rows in order.\<close>

lemma fold_rows:
  "fold (\<lambda>a. fold (\<lambda>b. f (80 * a + b)) [0..<80]) [0..<n] m = fold f [0..<80 * n] m"
proof (induction n)
  case (Suc n)
  have "[0..<80 * Suc n] = [0..<80 * n] @ map (\<lambda>b. 80 * n + b) [0..<80]"
  proof -
    have "map (\<lambda>b. 80 * n + b) [0..<80] = [80 * n..<80 * n + 80]"
      by (simp add: map_add_upt add.commute [of "80 * n"])
    then show ?thesis using upt_add_eq_append [of 0 "80 * n" 80] by (simp add: add.commute)
  qed
  then show ?case using Suc by (simp add: fold_map comp_def del: mult_Suc_right)
qed simp

definition scrolled :: "u32 \<Rightarrow> mem \<Rightarrow> nat \<Rightarrow> u8" where
  "scrolled p m j = (if even j then m (p + of_nat (j + 160)) else ATTRIB)"

lemma fold_scroll:
  assumes f: "\<And>i m. f i m = m(p + 2 * of_nat i := m (p + 2 * of_nat (i + 80)),
    p + 2 * of_nat i + 1 := ATTRIB)"
  shows "2 * n \<le> 3840 \<Longrightarrow> fold f [0..<n] m = overlay m p (2 * n) (scrolled p m)"
proof (induction n)
  case (Suc n)
  have "unat (2 * of_nat (n + 80) :: u32) = 2 * n + 160"
    using Suc.prems unat_of_nat32 [of "2 * (n + 80)"] by simp
  then have r: "overlay m p (2 * n) (scrolled p m) (p + 2 * of_nat (n + 80)) =
      scrolled p m (2 * n)"
    by (subst overlay_outside) (simp_all add: scrolled_def algebra_simps)
  have a: "scrolled p m (Suc (2 * n)) = ATTRIB" by (simp add: scrolled_def)
  have le: "2 * n + 2 \<le> 4294967296" using Suc.prems by simp
  have "fold f [0..<Suc n] m = f n (overlay m p (2 * n) (scrolled p m))"
    using Suc by simp
  also have "\<dots> = overlay m p (2 * Suc n) (scrolled p m)"
    unfolding overlay_pair [OF le] a f r ..
  finally show ?case .
qed simp

lemma scroll_rows_overlay: "scroll_rows p m = overlay m p 3840 (scrolled p m)"
proof -
  let ?f = "\<lambda>i m. m(p + 2 * of_nat i := m (p + 2 * of_nat (i + 80)), p + 2 * of_nat i + 1 := ATTRIB)"
  have "scroll_rows p m = fold (\<lambda>a. fold (\<lambda>b. ?f (80 * a + b)) [0..<80]) [0..<24] m"
    unfolding scroll_rows_def by (simp add: algebra_simps)
  also have "\<dots> = fold ?f [0..<80 * 24] m" by (rule fold_rows)
  also have "\<dots> = overlay m p 3840 (scrolled p m)"
    using fold_scroll [of ?f p 1920 m] by simp
  finally show ?thesis .
qed

text \<open>Scrolling a whole screen: \<open>reset_video\<close> followed by \<open>clear_row\<close>.\<close>

lemma scroll_screen:
  "blank_row p (scroll_rows p m) =
    overlay m p 4000 (\<lambda>j. if j < 3840 then scrolled p m j else cells space (j - 3840))"
  using overlay_append [of 3840 160 m p "scrolled p m" "cells space"]
  by (simp add: blank_row_overlay scroll_rows_overlay)

subsection \<open>The screen as a grid of characters\<close>

definition grid :: "mem \<Rightarrow> u32 \<Rightarrow> nat \<Rightarrow> nat \<Rightarrow> u8" where
  "grid m p x y = (if x < 80 \<and> y < 25 then m (p + of_nat (2 * (80 * y + x))) else 0)"

definition screen_ok :: "'a console_scheme \<Rightarrow> bool" where
  "screen_ok s \<longleftrightarrow> 0 \<le> screen_x s \<and> screen_x s < 80 \<and> 0 \<le> screen_y s \<and> screen_y s < 25"

lemma screen_okD: "screen_ok s \<Longrightarrow>
  \<exists>x y. screen_x s = int x \<and> screen_y s = int y \<and> x < 80 \<and> y < 25"
  by (intro exI [of _ "nat (screen_x s)"] exI [of _ "nat (screen_y s)"]) (auto simp: screen_ok_def)

lemma cell_addr_nat: "cell_addr (int x) (int y) = VIDEO + of_nat (2 * (80 * y + x))"
  by (simp add: cell_addr_def)

lemma cell_lt: "x < 80 \<Longrightarrow> y < 25 \<Longrightarrow> Suc (2 * (80 * y + x)) < 4000"
  by simp

lemma double_not_odd: "2 * a \<noteq> Suc (2 * b)"
  by presburger

lemma cell_inj:
  assumes "x < 80" "x' < 80" and "2 * (80 * y' + x') = 2 * (80 * y + x :: nat)"
  shows "x' = x \<and> y' = y"
proof -
  have "80 * y' + x' = 80 * y + x" using assms(3) by simp
  then have "(80 * y' + x') mod 80 = (80 * y + x) mod 80" "(80 * y' + x') div 80 = (80 * y + x) div 80"
    by simp_all
  then show ?thesis using assms(1,2) by simp
qed

lemma cell_offset:
  "x < 80 \<Longrightarrow> y < 25 \<Longrightarrow> unat (of_nat (2 * (80 * y + x)) :: u32) = 2 * (80 * y + x)"
  using cell_lt [of x y] by (intro unat_of_nat32) simp

lemma grid_put:
  assumes "x < 80" "y < 25"
  shows "grid (m(p + of_nat (2 * (80 * y + x)) := c, p + of_nat (2 * (80 * y + x)) + 1 := ATTRIB)) p =
    (grid m p)(x := (grid m p x)(y := c))"
proof (intro ext)
  fix x' y'
  show "grid (m(p + of_nat (2 * (80 * y + x)) := c, p + of_nat (2 * (80 * y + x)) + 1 := ATTRIB)) p x' y' =
    ((grid m p)(x := (grid m p x)(y := c))) x' y'"
  proof (cases "x' < 80 \<and> y' < 25")
    case True
    have "(of_nat (2 * (80 * y' + x')) :: u32) = of_nat (2 * (80 * y + x)) \<longleftrightarrow> x' = x \<and> y' = y"
    proof -
      have "(of_nat (2 * (80 * y' + x')) :: u32) = of_nat (2 * (80 * y + x)) \<longleftrightarrow>
          2 * (80 * y' + x') = 2 * (80 * y + x)"
        using cell_offset [OF assms] cell_offset [of x' y'] True by (simp only: word_unat_eq_iff)
      then show ?thesis using cell_inj [of x x' y' y] True assms(1) by blast
    qed
    moreover have "(of_nat (2 * (80 * y' + x')) :: u32) \<noteq> of_nat (2 * (80 * y + x)) + 1"
    proof -
      have "unat (of_nat (Suc (2 * (80 * y + x))) :: u32) = Suc (2 * (80 * y + x))"
        using cell_lt [OF assms] by (intro unat_of_nat32) simp
      then have "unat (of_nat (2 * (80 * y' + x')) :: u32) \<noteq> unat (of_nat (Suc (2 * (80 * y + x))) :: u32)"
        using cell_offset [of x' y'] True double_not_odd by metis
      then show ?thesis by (metis of_nat_Suc add.commute)
    qed
    ultimately show ?thesis
      using True by (auto simp: grid_def add.assoc simp del: of_nat_mult of_nat_add)
  qed (use assms in \<open>auto simp: grid_def\<close>)
qed

lemma grid_scroll:
  "grid (blank_row p (scroll_rows p m)) p =
    (\<lambda>x y. if x < 80 \<and> y < 25 then if y < 24 then grid m p x (Suc y) else space else 0)"
proof (intro ext)
  fix x y
  show "grid (blank_row p (scroll_rows p m)) p x y =
    (if x < 80 \<and> y < 25 then if y < 24 then grid m p x (Suc y) else space else 0)"
  proof (cases "x < 80 \<and> y < 25")
    case True
    then have lt: "2 * (80 * y + x) < 4000" using cell_lt [of x y] by simp
    have row: "2 * (80 * y + x) < 3840 \<longleftrightarrow> y < 24"
    proof (cases "y < 24")
      case False
      then have "y = 24" using True by simp
      then show ?thesis by simp
    qed (use True in simp)
    have "2 * (80 * y + x) + 160 = 2 * (80 * Suc y + x)" by simp
    then show ?thesis
      using True lt row overlay_inside [OF lt, of m p]
      by (simp add: scroll_screen grid_def scrolled_def cells_def ac_simps del: of_nat_mult of_nat_add)
  qed (auto simp: grid_def)
qed

lemma grid_clear:
  "grid (overlay m p 4000 (cells space)) p = (\<lambda>x y. if x < 80 \<and> y < 25 then space else 0)"
proof (intro ext)
  fix x y
  show "grid (overlay m p 4000 (cells space)) p x y = (if x < 80 \<and> y < 25 then space else 0)"
  proof (cases "x < 80 \<and> y < 25")
    case True
    then have lt: "2 * (80 * y + x) < 4000" using cell_lt [of x y] by simp
    then show ?thesis
      using True overlay_inside [OF lt, of m p] by (simp add: grid_def cells_def del: of_nat_mult of_nat_add)
  qed (auto simp: grid_def)
qed

subsection \<open>putc on the grid\<close>

text \<open>
  The abstract screen is a grid of characters with a cursor; \<open>screen_putc\<close> is what one
  character does to it.  The cursor never leaves its row except at a line feed: the
  column is reduced before it is tested for the end of the row.
\<close>

type_synonym screen = "(nat \<Rightarrow> nat \<Rightarrow> u8) \<times> nat \<times> nat"

definition newline :: "u8 \<Rightarrow> bool" where
  "newline c \<longleftrightarrow> c = 0x0A \<or> c = 0x0D"

fun screen_putc :: "u8 \<Rightarrow> screen \<Rightarrow> screen" where
  "screen_putc c (g, x, y) =
    (if newline c then
       if y = 24 then ((\<lambda>x y. if x < 80 \<and> y < 25 then if y < 24 then g x (Suc y) else space else 0), 0, 24)
       else (g, 0, Suc y)
     else (g(x := (g x)(y := c)), Suc x mod 80, y))"

definition screen_of :: "'a console_scheme \<Rightarrow> screen" where
  "screen_of s = (grid (phys s) VIDEO, nat (screen_x s), nat (screen_y s))"

text \<open>The keyboard and the terminal hold the position of \<open>putc\<close>.\<close>

definition synced :: "'a console_scheme \<Rightarrow> bool" where
  "synced s \<longleftrightarrow> vd_x s = screen_x s \<and> vd_y s = screen_y s \<and>
     current_x s = screen_x s \<and> current_y s = screen_y s \<and>
     current_cursor_x s = screen_x s \<and> current_cursor_y s = screen_y s"

lemmas console_defs = copy_position_def keyboard_write_def get_position_def get_cursor_def
  get_terminal_id_def get_x_def get_y_def reset_position_def reset_cursor_def put_cell_def
  reset_video_def clear_row_def put_backspace_def put_upbackspace_def

lemma smod_nonneg: "0 \<le> a \<Longrightarrow> 0 < b \<Longrightarrow> a smod b = a mod (b :: int)"
  by (simp add: signed_modulo_int_def sgn_if)

lemma sdiv_nonneg: "0 \<le> a \<Longrightarrow> 0 < b \<Longrightarrow> a sdiv b = a div (b :: int)"
  by (simp add: signed_divide_int_def sgn_if)

lemma putc_scroll:
  assumes "newline c" "screen_y s = 24"
  shows "phys (putc c s) = blank_row VIDEO (scroll_rows VIDEO (phys s))"
    "screen_x (putc c s) = 0" "screen_y (putc c s) = 24" "enter_flag (putc c s) = 1"
  using assms by (simp_all add: putc_def newline_def Let_def console_defs frame_simps cli_def outb_def)

lemma putc_newline:
  assumes "newline c" "screen_y s \<noteq> 24"
  shows "phys (putc c s) = phys s" "screen_x (putc c s) = 0" "screen_y (putc c s) = screen_y s + 1"
    "enter_flag (putc c s) = enter_flag s"
  using assms by (simp_all add: putc_def newline_def Let_def console_defs frame_simps cli_def outb_def)

lemma putc_char:
  assumes "\<not> newline c" "screen_ok s"
  shows "phys (putc c s) = phys (put_cell (screen_x s) (screen_y s) c s)"
    "screen_x (putc c s) = (screen_x s + 1) mod 80" "screen_y (putc c s) = screen_y s"
    "enter_flag (putc c s) = enter_flag s"
proof -
  have x: "(screen_x s + 1) smod 80 = (screen_x s + 1) mod 80"
    "((screen_x s + 1) mod 80) sdiv 80 = 0" "screen_y s smod 25 = screen_y s"
    using assms(2) by (simp_all add: screen_ok_def smod_nonneg sdiv_nonneg)
  show "phys (putc c s) = phys (put_cell (screen_x s) (screen_y s) c s)"
    "screen_x (putc c s) = (screen_x s + 1) mod 80" "screen_y (putc c s) = screen_y s"
    "enter_flag (putc c s) = enter_flag s"
    using assms(1) x
    by (simp_all add: putc_def newline_def Let_def console_defs frame_simps cli_def outb_def)
qed

lemma putc_synced [inv_intros]: "synced (putc c s)"
  by (simp add: synced_def putc_def Let_def console_defs frame_simps cli_def outb_def)

lemma putc_screen_ok [inv_intros]: "screen_ok s \<Longrightarrow> screen_ok (putc c s)"
proof -
  assume ok: "screen_ok s"
  consider "newline c" "screen_y s = 24" | "newline c" "screen_y s \<noteq> 24" | "\<not> newline c" by blast
  then show "screen_ok (putc c s)"
    by cases (use ok putc_scroll [of c s] putc_newline [of c s] putc_char [of c s] in
      \<open>auto simp: screen_ok_def\<close>)
qed

lemma putc_refines:
  assumes "screen_ok s"
  shows "screen_of (putc c s) = screen_putc c (screen_of s)"
proof -
  obtain x y where xy: "screen_x s = int x" "screen_y s = int y" "x < 80" "y < 25"
    using screen_okD [OF assms] by blast
  consider "newline c" "y = 24" | "newline c" "y \<noteq> 24" | "\<not> newline c" by blast
  then show ?thesis
  proof cases
    case 1
    then show ?thesis using xy by (simp add: screen_of_def putc_scroll grid_scroll)
  next
    case 2
    then show ?thesis using xy by (simp add: screen_of_def putc_newline nat_add_distrib)
  next
    case 3
    have "nat ((int x + 1) mod 80) = Suc x mod 80"
      by (simp add: nat_mod_distrib nat_add_distrib)
    moreover have "grid (phys (put_cell (int x) (int y) c s)) VIDEO =
        (grid (phys s) VIDEO)(x := (grid (phys s) VIDEO x)(y := c))"
      using grid_put [OF xy(3,4), of "phys s" VIDEO c]
      by (simp add: put_cell_def cell_addr_nat del: of_nat_mult of_nat_add)
    ultimately show ?thesis
      using 3 putc_char [OF 3 assms] xy by (simp add: screen_of_def)
  qed
qed

text \<open>Outside the 4000 bytes of the screen, printing changes nothing in memory.\<close>

definition in_video :: "u32 \<Rightarrow> bool" where
  "in_video a \<longleftrightarrow> unat (a - VIDEO) < 4000"

lemma put_cell_frame:
  assumes "0 \<le> x" "x < 80" "0 \<le> y" "y < 25" "\<not> in_video a"
  shows "phys (put_cell x y c s) a = phys s a"
proof -
  obtain x' y' where xy: "x = int x'" "y = int y'" "x' < 80" "y' < 25"
    using assms(1-4) by (metis nonneg_int_cases of_nat_less_iff of_nat_numeral)
  have "unat (of_nat (Suc (2 * (80 * y' + x'))) :: u32) = Suc (2 * (80 * y' + x'))"
    using cell_lt [OF xy(3,4)] by (intro unat_of_nat32) simp
  then have "a \<noteq> VIDEO + of_nat (2 * (80 * y' + x'))" "a \<noteq> VIDEO + of_nat (Suc (2 * (80 * y' + x')))"
    using assms(5) cell_offset [OF xy(3,4)] cell_lt [OF xy(3,4)] by (auto simp: in_video_def)
  then show ?thesis by (simp add: put_cell_def xy cell_addr_nat algebra_simps)
qed

lemma putc_phys_frame:
  assumes "screen_ok s" "\<not> in_video a"
  shows "phys (putc c s) a = phys s a"
proof -
  consider "newline c" "screen_y s = 24" | "newline c" "screen_y s \<noteq> 24" | "\<not> newline c" by blast
  then show ?thesis
  proof cases
    case 1
    then show ?thesis
      using assms(2) by (simp add: putc_scroll scroll_screen overlay_outside in_video_def)
  next
    case 2
    then show ?thesis by (simp add: putc_newline)
  next
    case 3
    then show ?thesis using assms putc_char [OF 3 assms(1)]
      by (simp add: put_cell_frame screen_ok_def)
  qed
qed

lemma putc_frame [frame_simps]:
  "terminals (putc c s) = terminals s" "keyboardbuf (putc c s) = keyboardbuf s"
  "buf_index (putc c s) = buf_index s" "count (putc c s) = count s"
  "kbbuf (putc c s) = kbbuf s" "current_id (putc c s) = current_id s"
  "curr_terminal (putc c s) = curr_terminal s" "next_terminal (putc c s) = next_terminal s"
  "term_buf (putc c s) = term_buf s" "shift_flags (putc c s) = shift_flags s"
  "caps_lock_flags (putc c s) = caps_lock_flags s" "ctrl_flags (putc c s) = ctrl_flags s"
  "alt_flags (putc c s) = alt_flags s" "keyboard_sc (putc c s) = keyboard_sc s"
  "keyboard_Cap (putc c s) = keyboard_Cap s" "file_sys (putc c s) = file_sys s"
  "dentry_addr (putc c s) = dentry_addr s" "dir_read_loc (putc c s) = dir_read_loc s"
  "page_directory (putc c s) = page_directory s" "first_page_table (putc c s) = first_page_table s"
  "console.more (putc c s) = console.more s"
  by (simp_all add: putc_def Let_def console_defs frame_simps cli_def outb_def)

text \<open>A string of characters is printed one after the other.\<close>

lemma puts_from_fold:
  "\<forall>i<length xs. str (l + of_nat i) = xs ! i \<Longrightarrow> 0 \<notin> set xs \<Longrightarrow> str (l + of_nat (length xs)) = 0 \<Longrightarrow>
    puts_from str l s = Some (fold putc xs s, l + of_nat (length xs))"
proof (induction xs arbitrary: l s)
  case Nil
  then show ?case by (subst puts_from.simps) simp
next
  case (Cons x xs)
  have x: "str l = x" "x \<noteq> 0" using Cons.prems(1) [rule_format, of 0] Cons.prems(2) by auto
  have "puts_from str (l + 1) (putc x s) =
      Some (fold putc xs (putc x s), l + 1 + of_nat (length xs))"
  proof (rule Cons.IH)
    show "\<forall>i<length xs. str (l + 1 + of_nat i) = xs ! i"
      using Cons.prems(1) [rule_format, of "Suc i" for i] by (simp add: add.assoc)
    show "str (l + 1 + of_nat (length xs)) = 0"
      using Cons.prems(3) by (simp add: algebra_simps)
  qed (use Cons.prems(2) in simp)
  then show ?case using x by (subst puts_from.simps) (simp add: algebra_simps)
qed

lemma puts_fold:
  "holds_str str xs \<Longrightarrow> puts str s = Some (fold putc xs s, of_nat (length xs))"
  unfolding puts_def by (subst puts_from_fold [of xs]) (auto simp: holds_str_def)

lemma fold_putc_screen_ok [inv_intros]: "screen_ok s \<Longrightarrow> screen_ok (fold putc xs s)"
  by (induction xs arbitrary: s) (simp_all add: putc_screen_ok)

lemma fold_putc_refines:
  "screen_ok s \<Longrightarrow> screen_of (fold putc xs s) = fold screen_putc xs (screen_of s)"
  by (induction xs arbitrary: s) (simp_all add: putc_screen_ok putc_refines)

lemma fold_putc_phys_frame:
  "screen_ok s \<Longrightarrow> \<not> in_video a \<Longrightarrow> phys (fold putc xs s) a = phys s a"
  by (induction xs arbitrary: s) (simp_all add: putc_screen_ok putc_phys_frame)

lemma fold_putc_frame [frame_simps]:
  "terminals (fold putc xs s) = terminals s" "keyboardbuf (fold putc xs s) = keyboardbuf s"
  "buf_index (fold putc xs s) = buf_index s" "count (fold putc xs s) = count s"
  "kbbuf (fold putc xs s) = kbbuf s" "current_id (fold putc xs s) = current_id s"
  "curr_terminal (fold putc xs s) = curr_terminal s"
  "console.more (fold putc xs s) = console.more s"
  by (induction xs arbitrary: s) (simp_all add: frame_simps)

text \<open>A run of characters without a line feed stays in its row, however long it is.\<close>

lemma screen_putc_row:
  "\<forall>c \<in> set xs. \<not> newline c \<Longrightarrow> snd (snd (fold screen_putc xs (g, x, y))) = y"
  by (induction xs arbitrary: g x) simp_all

subsection \<open>printf\<close>

text \<open>
  \<open>format\<close> is read as a string, \<open>esp n\<close> is the \<open>n\<close>-th word on the stack above it, and a \<open>%s\<close>
  argument points into memory.  \<open>conv_buf\<close> is an object of its own whose first contents
  are \<open>junk\<close>.  A conversion gives the state, the index of its last character and the
  number of stack words used.
\<close>

fun pad_zeros :: "mem \<Rightarrow> nat \<Rightarrow> nat \<Rightarrow> mem" where
  "pad_zeros conv_buf i 0 = conv_buf"
| "pad_zeros conv_buf i (Suc k) = pad_zeros (conv_buf(of_nat i := 0x30)) (Suc i) k"

definition print_hex :: "mem \<Rightarrow> bool \<Rightarrow> u32 \<Rightarrow> 'a console_scheme \<Rightarrow> ('a console_scheme \<times> u32) option" where
  "print_hex junk alternate v s =
    (if \<not> alternate then
       do { conv_buf \<leftarrow> itoa junk v 0 16; puts (view conv_buf 0) s }
     else
       do { conv_buf \<leftarrow> itoa junk v 8 16;
            starting_index \<leftarrow> strlen (view conv_buf 8);
            let i = nat (sint starting_index);
            let conv_buf = pad_zeros conv_buf i (8 - i);
            puts (view conv_buf starting_index) s })"

definition print_decimal :: "mem \<Rightarrow> u32 \<Rightarrow> 'a console_scheme \<Rightarrow> ('a console_scheme \<times> u32) option" where
  "print_decimal junk v s =
    do { conv_buf \<leftarrow> (if sint v < 0 then itoa (junk(0 := 0x2D)) (- v) 1 10 else itoa junk v 0 10);
         puts (view conv_buf 0) s }"

partial_function (option) print_conversion ::
  "mem \<Rightarrow> cstr \<Rightarrow> (nat \<Rightarrow> u32) \<Rightarrow> bool \<Rightarrow> u32 \<Rightarrow> nat \<Rightarrow> 'a console_scheme \<Rightarrow>
    ('a console_scheme \<times> u32 \<times> nat) option" where
  "print_conversion junk format esp alternate buf n s =
    (if format buf = 0x25 then Some (putc 0x25 s, buf, n)
     else if format buf = 0x23 then print_conversion junk format esp True (buf + 1) n s
     else if format buf = 0x78 then
       do { (s, k) \<leftarrow> print_hex junk alternate (esp n) s; Some (s, buf, Suc n) }
     else if format buf = 0x75 then
       do { conv_buf \<leftarrow> itoa junk (esp n) 0 10;
            (s, k) \<leftarrow> puts (view conv_buf 0) s; Some (s, buf, Suc n) }
     else if format buf = 0x64 then
       do { (s, k) \<leftarrow> print_decimal junk (esp n) s; Some (s, buf, Suc n) }
     else if format buf = 0x63 then Some (putc (ucast (esp n)) s, buf, Suc n)
     else if format buf = 0x73 then
       do { (s, k) \<leftarrow> puts (view (phys s) (esp n)) s; Some (s, buf, Suc n) }
     else Some (s, buf, n))"

partial_function (option) printf_from ::
  "mem \<Rightarrow> cstr \<Rightarrow> (nat \<Rightarrow> u32) \<Rightarrow> u32 \<Rightarrow> nat \<Rightarrow> 'a console_scheme \<Rightarrow> ('a console_scheme \<times> u32) option" where
  "printf_from junk format esp buf n s =
    (if format buf = 0 then Some (s, buf)
     else if format buf = 0x25 then
       do { (s, buf, n) \<leftarrow> print_conversion junk format esp False (buf + 1) n s;
            printf_from junk format esp (buf + 1) n s }
     else printf_from junk format esp (buf + 1) n (putc (format buf) s))"

definition printf ::
  "mem \<Rightarrow> cstr \<Rightarrow> (nat \<Rightarrow> u32) \<Rightarrow> 'a console_scheme \<Rightarrow> ('a console_scheme \<times> u32) option" where
  "printf junk format esp s = printf_from junk format esp 0 0 s"

text \<open>
  What a format means: a list of directives, how they are written and what they print.
\<close>

datatype directive = Lit u8 | Percent | Hex | Hex8 | Unsigned | Signed | Char | Str

fun encode :: "directive \<Rightarrow> u8 list" where
  "encode (Lit c) = [c]"
| "encode Percent = [0x25, 0x25]"
| "encode Hex = [0x25, 0x78]"
| "encode Hex8 = [0x25, 0x23, 0x78]"
| "encode Unsigned = [0x25, 0x75]"
| "encode Signed = [0x25, 0x64]"
| "encode Char = [0x25, 0x63]"
| "encode Str = [0x25, 0x73]"

fun takes :: "directive \<Rightarrow> nat" where
  "takes (Lit c) = 0" | "takes Percent = 0" | "takes d = 1"

definition zero_padded :: "u8 list \<Rightarrow> u8 list" where
  "zero_padded xs = replicate (8 - length xs) 0x30 @ xs"

fun render :: "(u32 \<Rightarrow> u8 list) \<Rightarrow> u32 \<Rightarrow> directive \<Rightarrow> u8 list" where
  "render strs v (Lit c) = [c]"
| "render strs v Percent = [0x25]"
| "render strs v Hex = itoa_str 16 (unat v)"
| "render strs v Hex8 = zero_padded (itoa_str 16 (unat v))"
| "render strs v Unsigned = itoa_str 10 (unat v)"
| "render strs v Signed =
    (if sint v < 0 then 0x2D # itoa_str 10 (nat (- sint v)) else itoa_str 10 (unat v))"
| "render strs v Char = [ucast v]"
| "render strs v Str = strs v"

fun render_all :: "(u32 \<Rightarrow> u8 list) \<Rightarrow> (nat \<Rightarrow> u32) \<Rightarrow> nat \<Rightarrow> directive list \<Rightarrow> u8 list" where
  "render_all strs esp n [] = []"
| "render_all strs esp n (d # ds) = render strs (esp n) d @ render_all strs esp (n + takes d) ds"

lemma itoa_holds:
  assumes "2 \<le> unat r" "unat r \<le> 36" and "itoa m v buf r = Some m'"
  shows "holds_str (view m' buf) (itoa_str (unat r) (unat v))"
    "\<not> unat (a - buf) \<le> 32 \<Longrightarrow> m' a = m a"
proof -
  have m': "m' = overlay m buf (Suc (length (itoa_str (unat r) (unat v))))
      (bytes_at (itoa_str (unat r) (unat v)))"
    using itoa_overlay [OF assms(1,2), of m v buf] assms(3) by simp
  note ok = itoa_str_ok [OF assms(1,2), of v]
  show "holds_str (view m' buf) (itoa_str (unat r) (unat v))"
    unfolding m' using ok by (auto simp: holds_str_def overlay_inside bytes_at_def)
  show "\<not> unat (a - buf) \<le> 32 \<Longrightarrow> m' a = m a"
    unfolding m' using ok by (simp add: overlay_outside)
qed

lemma itoa_total: "2 \<le> unat r \<Longrightarrow> unat r \<le> 36 \<Longrightarrow> \<exists>m'. itoa m v buf r = Some m'"
  by (simp add: itoa_overlay)

lemma print_number:
  assumes "2 \<le> unat r" "unat r \<le> 36"
  shows "do { conv_buf \<leftarrow> itoa m v 0 r; puts (view conv_buf 0) s } =
    Some (fold putc (itoa_str (unat r) (unat v)) s, of_nat (length (itoa_str (unat r) (unat v))))"
proof -
  obtain m' where m': "itoa m v 0 r = Some m'" using itoa_total [OF assms] by blast
  then show ?thesis using puts_fold [OF itoa_holds(1) [OF assms m']] by simp
qed

lemma digits_length_pow: "2 \<le> r \<Longrightarrow> n < r ^ k \<Longrightarrow> length (digits r n) \<le> k"
proof (induction k arbitrary: n)
  case (Suc k)
  then have "n div r < r ^ k" by (simp add: less_mult_imp_div_less mult.commute)
  then show ?case using Suc by (cases "n = 0") simp_all
qed simp

lemma hex_length: "length (itoa_str 16 (unat (v :: u32))) \<le> 8"
  using digits_length_pow [of 16 "unat v" 8] unat_lt32 [of v] by (simp add: itoa_str_def del: digits_simps)

lemma pad_zeros_overlay:
  "k \<le> 4294967296 \<Longrightarrow> pad_zeros m i k = overlay m (of_nat i) k (\<lambda>_. 0x30)"
proof (induction k arbitrary: m i)
  case (Suc k)
  then have "pad_zeros m i (Suc k) = overlay (m(of_nat i := 0x30)) (of_nat i + 1) k (\<lambda>_. 0x30)"
    by (simp add: add.commute)
  also have "\<dots> = overlay m (of_nat i) (Suc k) (\<lambda>_. 0x30)"
    using Suc.prems by (subst overlay_step) (auto intro!: overlay_cong split: nat.split)
  finally show ?case .
qed simp

lemma holds_str_Cons:
  assumes "holds_str (view m (p + 1)) xs" "m p = c" "c \<noteq> 0" "Suc (length xs) < 4294967296"
  shows "holds_str (view m p) (c # xs)"
proof -
  have "m (p + of_nat j) = (c # xs) ! j" if "j < Suc (length xs)" for j
    using that assms by (cases j) (auto simp: holds_str_def add.assoc)
  then show ?thesis using assms by (auto simp: holds_str_def algebra_simps)
qed

lemma print_hex_plain:
  "print_hex junk False v s =
    Some (fold putc (itoa_str 16 (unat v)) s, of_nat (length (itoa_str 16 (unat v))))"
  using print_number [of 16 junk v s] by (simp add: print_hex_def)

lemma zero_padded_holds:
  assumes "holds_str (view conv 8) xs" and n: "n = length xs" "n \<le> 8"
  shows "holds_str (view (pad_zeros conv n (8 - n)) (of_nat n)) (zero_padded xs)"
proof -
  have pad: "pad_zeros conv n (8 - n) (of_nat n + of_nat j) =
      (if j < 8 - n then 0x30 else conv (of_nat n + of_nat j))" if "j \<le> 8" for j
    using that by (simp add: pad_zeros_overlay overlay_def unat_of_nat32)
  have conv: "conv (of_nat n + of_nat j) = (if j < 8 then xs ! (j - (8 - n)) else 0)"
    if "8 - n \<le> j" "j \<le> 8" for j
  proof -
    have "n + j = 8 + (j - (8 - n))" using that n(2) by simp
    then have "(of_nat n + of_nat j :: u32) = 8 + of_nat (j - (8 - n))"
      by (metis of_nat_add of_nat_numeral)
    then have "conv (of_nat n + of_nat j) = conv (8 + of_nat (j - (8 - n)))" by (simp only:)
    also have "\<dots> = (if j < 8 then xs ! (j - (8 - n)) else 0)"
    proof (cases "j < 8")
      case True
      then have "j - (8 - n) < length xs" using n that(1) by simp
      then show ?thesis using assms(1) True by (simp add: holds_str_def)
    next
      case False
      then have "j - (8 - n) = length xs" using n that by simp
      then show ?thesis using assms(1) False by (simp add: holds_str_def)
    qed
    finally show ?thesis .
  qed
  have len: "length (zero_padded xs) = 8" using n by (simp add: zero_padded_def)
  have nth: "zero_padded xs ! j = (if j < 8 - n then 0x30 else xs ! (j - (8 - n)))" if "j < 8" for j
    using that n by (simp add: zero_padded_def nth_append)
  have "0 \<notin> set (zero_padded xs)"
    using assms(1) by (auto simp: zero_padded_def holds_str_def)
  then show ?thesis
    using pad conv nth pad [of 8] conv [of 8] n by (simp add: holds_str_def len)
qed

lemma print_hex_padded:
  "\<exists>k. print_hex junk True v s = Some (fold putc (zero_padded (itoa_str 16 (unat v))) s, k)"
proof -
  let ?xs = "itoa_str 16 (unat v)"
  obtain conv where conv: "itoa junk v 8 16 = Some conv" using itoa_total [of 16 junk v 8] by auto
  have h: "holds_str (view conv 8) ?xs" using itoa_holds(1) [OF _ _ conv] by simp
  have "nat (sint (of_nat (length ?xs) :: u32)) = length ?xs"
    using hex_length [of v] by (simp add: sint_of_nat32)
  then show ?thesis
    using conv strlen_holds [OF h] puts_fold [OF zero_padded_holds [OF h refl hex_length], of s]
    by (simp add: print_hex_def)
qed

lemma unat_minus_sint:
  assumes "sint (v :: u32) < 0"
  shows "unat (- v) = nat (- sint v)"
proof -
  have v: "sint v = uint v - 4294967296"
  proof -
    have "uint v = sint v mod 4294967296" using uint_sint [of v] by (simp add: take_bit_eq_mod)
    also have "\<dots> = (sint v + 4294967296) mod 4294967296" by simp
    also have "\<dots> = sint v + 4294967296"
      using assms sint_greater_eq [of v] by (intro mod_pos_pos_trivial) simp_all
    finally show ?thesis by simp
  qed
  have "v \<noteq> 0" using assms by auto
  then have u: "unat (- v) = 4294967296 - unat v"
    using unat_sub_if' [of 0 v] by (simp add: unat_eq_zero)
  have "- sint v = 4294967296 - int (unat v)" using v by simp
  also have "\<dots> = int (4294967296 - unat v)"
    using unat_lt32 [of v] by (simp only: of_nat_diff less_imp_le of_nat_numeral)
  finally show ?thesis by (simp only: u nat_int)
qed

lemma print_decimal_value:
  "\<exists>k. print_decimal junk v s = Some (fold putc (render strs v Signed) s, k)"
proof (cases "sint v < 0")
  case True
  let ?xs = "itoa_str 10 (unat (- v))" and ?junk = "junk(0 := 0x2D)"
  obtain conv where conv: "itoa ?junk (- v) 1 10 = Some conv" using itoa_total [of 10 ?junk "- v" 1] by auto
  have h: "holds_str (view conv (0 + 1)) ?xs" using itoa_holds(1) [OF _ _ conv] by simp
  have "\<not> unat (0 - 1 :: u32) \<le> 32" using unat_sub_if' [of 0 "1 :: u32"] by simp
  then have z: "conv 0 = 0x2D" using itoa_holds(2) [OF _ _ conv, of 0] by simp
  have "holds_str (view conv 0) (0x2D # ?xs)"
    using itoa_str_ok [of "10 :: u32" "- v"] by (intro holds_str_Cons [OF h z]) simp_all
  then show ?thesis
    using True conv puts_fold by (fastforce simp: print_decimal_def unat_minus_sint)
next
  case False
  then show ?thesis using print_number [of 10 junk v s] by (simp add: print_decimal_def)
qed

text \<open>\<open>xs\<close> stands in the format from index \<open>i\<close> on.\<close>

definition at :: "cstr \<Rightarrow> u32 \<Rightarrow> u8 list \<Rightarrow> bool" where
  "at f i xs \<longleftrightarrow> (\<forall>j<length xs. f (i + of_nat j) = xs ! j)"

lemma at_Nil [simp]: "at f i []"
  by (simp add: at_def)

lemma at_Cons [simp]: "at f i (x # xs) \<longleftrightarrow> f i = x \<and> at f (i + 1) xs"
  by (auto simp: at_def All_less_Suc2 add.assoc)

lemma at_append [simp]: "at f i (xs @ ys) \<longleftrightarrow> at f i xs \<and> at f (i + of_nat (length xs)) ys"
  by (induction xs arbitrary: i) (auto simp: algebra_simps)

definition str_arg :: "(u32 \<Rightarrow> u8 list) \<Rightarrow> 'a console_scheme \<Rightarrow> u32 \<Rightarrow> bool" where
  "str_arg strs s p \<longleftrightarrow> holds_str (view (phys s) p) (strs p) \<and>
     (\<forall>j\<le>length (strs p). \<not> in_video (p + of_nat j))"

lemma str_arg_fold_putc:
  assumes "screen_ok s" "str_arg strs s p"
  shows "str_arg strs (fold putc xs s) p"
  using assms by (auto simp: str_arg_def holds_str_def fold_putc_phys_frame)

lemma print_conversion_directive:
  assumes "at f i (tl (encode d))" and "d = Str \<Longrightarrow> str_arg strs s (esp n)"
    and "\<And>c. d \<noteq> Lit c"
  shows "print_conversion junk f esp False i n s =
    Some (fold putc (render strs (esp n) d) s, i + of_nat (length (encode d) - 2), n + takes d)"
proof -
  obtain k where dec: "print_decimal junk (esp n) s = Some (fold putc (render strs (esp n) Signed) s, k)"
    using print_decimal_value by blast
  obtain k' where hex: "print_hex junk True (esp n) s =
      Some (fold putc (zero_padded (itoa_str 16 (unat (esp n)))) s, k')"
    using print_hex_padded by blast
  show ?thesis
  proof (cases d)
    case Hex8
    then have f: "f i = 0x23" "f (i + 1) = 0x78" using assms(1) by simp_all
    have "print_conversion junk f esp True (i + 1) n s =
        Some (fold putc (zero_padded (itoa_str 16 (unat (esp n)))) s, i + 1, Suc n)"
      using f hex by (subst print_conversion.simps) simp
    then show ?thesis using f Hex8 by (subst print_conversion.simps) simp
  next
    case Unsigned
    then show ?thesis using assms(1) print_number [of 10 junk "esp n" s]
      by (subst print_conversion.simps) (auto simp: bind_eq_Some_conv)
  next
    case Signed
    then show ?thesis using assms(1) dec
      by (subst print_conversion.simps) (simp del: render.simps)
  next
    case Str
    then show ?thesis using assms(1,2) puts_fold [of "view (phys s) (esp n)" "strs (esp n)" s]
      by (subst print_conversion.simps) (simp add: str_arg_def)
  qed (use assms in \<open>subst print_conversion.simps, simp add: print_hex_plain\<close>)+
qed

fun str_args :: "(nat \<Rightarrow> u32) \<Rightarrow> nat \<Rightarrow> directive list \<Rightarrow> u32 list" where
  "str_args esp n [] = []"
| "str_args esp n (d # ds) = (if d = Str then [esp n] else []) @ str_args esp (n + takes d) ds"

lemma printf_from_percent:
  "f i = 0x25 \<Longrightarrow> printf_from junk f esp i n s =
    do { (s, i, n) \<leftarrow> print_conversion junk f esp False (i + 1) n s;
         printf_from junk f esp (i + 1) n s }"
  by (subst printf_from.simps) simp

lemma printf_from_fold:
  "at f i (concat (map encode ds)) \<Longrightarrow> f (i + of_nat (length (concat (map encode ds)))) = 0 \<Longrightarrow>
   (\<And>c. Lit c \<in> set ds \<Longrightarrow> c \<noteq> 0 \<and> c \<noteq> 0x25) \<Longrightarrow> screen_ok s \<Longrightarrow>
   (\<And>p. p \<in> set (str_args esp n ds) \<Longrightarrow> str_arg strs s p) \<Longrightarrow>
    printf_from junk f esp i n s = Some (fold putc (render_all strs esp n ds) s,
      i + of_nat (length (concat (map encode ds))))"
proof (induction ds arbitrary: i n s)
  case Nil
  then show ?case by (subst printf_from.simps) simp
next
  case (Cons d ds)
  let ?s = "fold putc (render strs (esp n) d) s"
  have rest: "printf_from junk f esp (i + of_nat (length (encode d))) (n + takes d) ?s =
      Some (fold putc (render_all strs esp (n + takes d) ds) ?s,
        i + of_nat (length (encode d)) + of_nat (length (concat (map encode ds))))"
    using Cons.prems by (intro Cons.IH) (auto simp: fold_putc_screen_ok str_arg_fold_putc algebra_simps)
  show ?case
  proof (cases "\<exists>c. d = Lit c")
    case True
    then obtain c where "d = Lit c" ..
    then show ?thesis using rest Cons.prems
      by (subst printf_from.simps) (auto simp: algebra_simps)
  next
    case False
    have hd: "f i = 0x25" "at f (i + 1) (tl (encode d))" "length (encode d) = Suc (Suc (length (encode d) - 2))"
      using Cons.prems(1) False by (cases d; simp)+
    have "print_conversion junk f esp False (i + 1) n s =
        Some (?s, i + 1 + of_nat (length (encode d) - 2), n + takes d)"
      using False hd Cons.prems(5) by (intro print_conversion_directive) auto
    moreover have "i + 1 + of_nat (length (encode d) - 2) + 1 = i + of_nat (length (encode d))"
      by (subst hd(3)) simp
    ultimately show ?thesis
      using rest by (simp only: printf_from_percent [of f i, OF hd(1)]) (simp add: algebra_simps)
  qed
qed

lemma printf_renders:
  assumes "holds_str format (concat (map encode ds))"
    and "\<And>c. Lit c \<in> set ds \<Longrightarrow> c \<noteq> 0x25" and "screen_ok s"
    and "\<And>p. p \<in> set (str_args esp 0 ds) \<Longrightarrow> str_arg strs s p"
  shows "printf junk format esp s =
    Some (fold putc (render_all strs esp 0 ds) s, of_nat (length (concat (map encode ds))))"
proof -
  have "c \<noteq> 0" if "Lit c \<in> set ds" for c
    using that assms(1) by (force simp: holds_str_def)
  then show ?thesis
    using printf_from_fold [of format 0 ds s esp 0 strs junk] assms
    by (simp add: printf_def holds_str_def at_def)
qed

text \<open>The state of the console before initialisation, for the examples.\<close>

definition terminal_bss :: terminal where
  "terminal_bss = terminal.make 0 0 0 0 0 0 (replicate 128 0) 0 0 0 0 0 0 0 0 0 0"

definition console_bss :: console where
  "console_bss = fs.extend fs_bss
     (console.fields 0 0 (replicate 36 (kboard.make 0 0 0)) (replicate 36 (kboard.make 0 0 0)) 0 0 0 0
       (replicate 128 0) 0 0 0 0 0 0 (replicate 128 0) 0 (replicate 3 terminal_bss) 0 0 0 0 0
       (replicate 128 0) 0 0 0 0)"

lemma console_bss_simps [simp]:
  "screen_x console_bss = 0" "screen_y console_bss = 0" "phys console_bss = (\<lambda>_. 0)"
  "screen_ok console_bss"
  by (simp_all add: console_bss_def console.defs fs.defs fs_bss_def paging.defs paging_bss_def
      screen_ok_def)

subsection \<open>Properties\<close>

text \<open>C25: \<open>putc\<close> implements the abstract screen: it stores the character at the cursor, or moves to
  the next line, or scrolls all rows up by one and blanks the last one; it keeps the
  position inside the screen, gives the same position to the keyboard and the terminal, and
  changes no memory outside the 4000 bytes of the screen.\<close>

theorem putc_implements_screen:
  assumes "screen_ok s"
  shows "screen_of (putc c s) = screen_putc c (screen_of s) \<and> screen_ok (putc c s) \<and>
    synced (putc c s) \<and> (\<forall>a. \<not> in_video a \<longrightarrow> phys (putc c s) a = phys s a)"
  using assms by (simp add: putc_refines putc_screen_ok putc_synced putc_phys_frame)

theorem putc_implements_screen_witness:
  "grid (phys (putc 0x41 console_bss)) VIDEO 0 0 = 0x41 \<and> screen_of (putc 0x41 console_bss) =
    screen_putc 0x41 (screen_of console_bss)"
  using putc_implements_screen [of console_bss "0x41"] by (simp add: screen_of_def newline_def)

text \<open>C26: \<open>printf\<close> of a format built from literal characters and the seven conversions always
  returns the length of the format and prints exactly the text the format stands for, each
  conversion consuming its own argument: numbers in hexadecimal, padded hexadecimal,
  unsigned and signed decimal, characters and strings.\<close>

theorem printf_prints_rendering:
  assumes "holds_str format (concat (map encode ds))"
    and "\<And>c. Lit c \<in> set ds \<Longrightarrow> c \<noteq> 0x25" and "screen_ok s"
    and "\<And>p. p \<in> set (str_args esp 0 ds) \<Longrightarrow> str_arg strs s p"
  shows "printf junk format esp s =
    Some (fold putc (render_all strs esp 0 ds) s, of_nat (length (concat (map encode ds))))"
  using assms by (rule printf_renders)

theorem printf_prints_rendering_witness:
  "printf (\<lambda>_. 0) (\<lambda>i. if i < 6 then [0x41, 0x25, 0x64, 0x25, 0x23, 0x78] ! unat i else 0)
     (\<lambda>n. if n = 0 then -1 else 255) console_bss =
   Some (fold putc ([0x41, 0x2D, 0x31] @ replicate 6 0x30 @ [0x46, 0x46]) console_bss, 6)"
proof -
  let ?f = "\<lambda>i :: u32. if i < 6 then [0x41, 0x25, 0x64, 0x25, 0x23, 0x78] ! unat i else 0 :: u8"
  let ?e = "\<lambda>n :: nat. if n = 0 then -1 else 255 :: u32"
  have f: "holds_str ?f (concat (map encode [Lit 0x41, Signed, Hex8]))"
  proof -
    have "list_all (\<lambda>i. ?f (of_nat i) = [0x41, 0x25, 0x64, 0x25, 0x23, 0x78] ! i) [0..<6]"
      by (simp add: upt_rec)
    then show ?thesis by (simp add: holds_str_def list_all_iff)
  qed
  have "render_all (\<lambda>_. []) ?e 0 [Lit 0x41, Signed, Hex8] =
      [0x41, 0x2D, 0x31] @ replicate 6 0x30 @ [0x46, 0x46]"
    by (simp add: itoa_str_def zero_padded_def lookup_bytes)
  then show ?thesis
    using printf_prints_rendering [OF f, of console_bss ?e "\<lambda>_. []" "\<lambda>_. 0"] by simp
qed

text \<open>Text without a line feed never leaves its row: when the column wraps, the row does not
  advance, so a line of more than 80 characters overwrites its own beginning.\<close>

theorem putc_wraps_in_row:
  assumes "screen_ok s" and "\<forall>c \<in> set xs. \<not> newline c"
  shows "screen_y (fold putc xs s) = screen_y s"
proof -
  have "nat (screen_y (fold putc xs s)) = nat (screen_y s)"
    using fold_putc_refines [OF assms(1), of xs]
      screen_putc_row [OF assms(2), of "grid (phys s) VIDEO" "nat (screen_x s)" "nat (screen_y s)"]
    by (simp add: screen_of_def) (metis snd_conv)
  then show ?thesis
    using assms(1) fold_putc_screen_ok [OF assms(1), of xs] by (simp add: screen_ok_def eq_nat_nat_iff)
qed

theorem putc_wraps_in_row_witness:
  "screen_y (fold putc (replicate 81 0x41) console_bss) = 0"
  using putc_wraps_in_row [of console_bss "replicate 81 0x41"] by (simp add: newline_def)

end
