(* ===== verification/Keyboard.thy ===== *)
theory Keyboard
  imports Console
begin

text \<open>
  The keyboard driver (\<open>keyboard.c\<close>): the two tables of keys, the line buffer with its
  editing operations, and the translation of a scan code to the character it types.  The
  interrupt handler that puts them together is in \<open>Key_Handler\<close>.

  A C array is a list of fixed length; an access outside it is \<open>None\<close>.
\<close>

abbreviation "bufsize \<equiv> (128 :: int)"

subsection \<open>Arrays\<close>

definition arr_set :: "'a list \<Rightarrow> int \<Rightarrow> 'a \<Rightarrow> 'a list option" where
  "arr_set xs i v = (if 0 \<le> i \<and> nat i < length xs then Some (xs[nat i := v]) else None)"

text \<open>\<open>for (i = 0; i < index; i++) dst[i] = src[i]\<close> with \<open>k\<close> iterations left.\<close>

fun copy_array :: "u8 list \<Rightarrow> u8 list \<Rightarrow> nat \<Rightarrow> nat \<Rightarrow> u8 list option" where
  "copy_array dst src i 0 = Some dst"
| "copy_array dst src i (Suc k) =
    (if i < length dst \<and> i < length src then copy_array (dst[i := src ! i]) src (Suc i) k else None)"

lemma copy_array_some:
  "i + k \<le> length dst \<Longrightarrow> i + k \<le> length src \<Longrightarrow>
    copy_array dst src i k = Some (take i dst @ take k (drop i src) @ drop (i + k) dst)"
proof (induction k arbitrary: dst i)
  case (Suc k)
  then have "copy_array dst src i (Suc k) =
      Some (take (Suc i) (dst[i := src ! i]) @ take k (drop (Suc i) src) @ drop (Suc i + k) (dst[i := src ! i]))"
    by simp
  moreover have "take (Suc i) (dst[i := src ! i]) = take i dst @ [src ! i]"
    using Suc.prems by (simp add: take_Suc_conv_app_nth)
  moreover have "take (Suc k) (drop i src) = src ! i # take k (drop (Suc i) src)"
    using Suc.prems by (simp add: Cons_nth_drop_Suc [symmetric])
  ultimately show ?case by simp
qed simp

lemma copy_array_none:
  "length dst < i + k \<or> length src < i + k \<Longrightarrow> i \<le> length dst \<Longrightarrow> i \<le> length src \<Longrightarrow>
    copy_array dst src i k = None"
  by (induction k arbitrary: dst i) (auto simp: Suc_le_eq)

lemma copy_array_length: "copy_array dst src i k = Some xs \<Longrightarrow> length xs = length dst"
  by (induction k arbitrary: dst i) (auto split: if_splits)

subsection \<open>The key tables\<close>

definition character_pressed_array :: "u8 list" where
  "character_pressed_array =
    [0x1E, 0x30, 0x2E, 0x20, 0x12, 0x21, 0x22, 0x23, 0x17, 0x24, 0x25, 0x26, 0x32,
     0x31, 0x18, 0x19, 0x10, 0x13, 0x1F, 0x14, 0x16, 0x2F, 0x11, 0x2D, 0x15, 0x2C]"

text \<open>\<open>keyboard_sc[x]\<close> with the three fields assigned; the characters are of type \<open>char\<close>.\<close>

definition set_key :: "nat \<Rightarrow> u8 \<Rightarrow> u8 \<Rightarrow> u8 \<Rightarrow> kboard list \<Rightarrow> kboard list" where
  "set_key x p r a t = t[x := (t ! x)\<lparr>pressed := p, released := r, ascii_number := scast a\<rparr>]"

definition ini_keyboard_sc :: "kboard list \<Rightarrow> kboard list" where
  "ini_keyboard_sc t =
    (let t = fold (\<lambda>x. set_key x (0x02 + of_nat x) (0x82 + of_nat x) (0x31 + of_nat x)) [0..<9] t;
         t = set_key 9 0x0B 0x8B 0x30 t
     in fold (\<lambda>x. set_key x (character_pressed_array ! (x - 9 - 1))
                    (character_pressed_array ! (x - 9 - 1) + 0x80) (0x61 + of_nat (x - 10))) [10..<36] t)"

text \<open>The thirty assignments for the digit keys: code, released code and shifted character.\<close>

definition cap_digits :: "(u8 \<times> u8 \<times> u8) list" where
  "cap_digits =
    [(0x0B, 0x8B, 0x29), (0x02, 0x82, 0x21), (0x03, 0x83, 0x40), (0x04, 0x84, 0x23),
     (0x05, 0x85, 0x24), (0x06, 0x86, 0x25), (0x07, 0x87, 0x5E), (0x08, 0x88, 0x26),
     (0x09, 0x89, 0x2A), (0x0A, 0x8A, 0x28)]"

definition ini_keyboard_Cap :: "kboard list \<Rightarrow> kboard list" where
  "ini_keyboard_Cap t =
    (let t = fold (\<lambda>x. case cap_digits ! x of (p, r, a) \<Rightarrow> set_key x p r a) [0..<10] t
     in fold (\<lambda>x. set_key x (character_pressed_array ! (x - 10))
                    (character_pressed_array ! (x - 10) + 0x80) (0x41 + of_nat (x - 10))) [10..<36] t)"

definition clearbuffuer :: "'a console_scheme \<Rightarrow> 'a console_scheme" where
  "clearbuffuer s = s\<lparr>keyboardbuf := fold (\<lambda>x b. b[x := 0]) [0..<128] (keyboardbuf s)\<rparr>"

definition ini_keyboard :: "'a console_scheme \<Rightarrow> 'a console_scheme" where
  "ini_keyboard s =
    (let s = enable_irq 1 s;
         s = clear s;
         s = reset_position 0 0 s;
         s = reset_cursor 0 0 s;
         s = s\<lparr>vd_x := 0, vd_y := 0\<rparr>;
         s = clearbuffuer s;
         s = s\<lparr>keyboard_sc := ini_keyboard_sc (keyboard_sc s)\<rparr>
     in s\<lparr>keyboard_Cap := ini_keyboard_Cap (keyboard_Cap s)\<rparr>)"

subsection \<open>The line buffer\<close>

definition put_to_buf :: "u8 \<Rightarrow> 'a console_scheme \<Rightarrow> 'a console_scheme option" where
  "put_to_buf c s =
    (if buf_index s < bufsize then
       do { b \<leftarrow> arr_set (keyboardbuf s) (buf_index s) c;
            Some (s\<lparr>keyboardbuf := b, buf_index := buf_index s + 1\<rparr>) }
     else Some s)"

definition get_buf_index :: "'a console_scheme \<Rightarrow> int" where
  "get_buf_index s = buf_index s"

definition clearbufferindex :: "'a console_scheme \<Rightarrow> 'a console_scheme" where
  "clearbufferindex s = s\<lparr>buf_index := 0\<rparr>"

definition copy_to_keyboard_buf ::
  "int \<Rightarrow> u8 list \<Rightarrow> 'a console_scheme \<Rightarrow> 'a console_scheme option" where
  "copy_to_keyboard_buf index key_buf s =
    do { b \<leftarrow> copy_array (keyboardbuf s) key_buf 0 (nat index);
         Some (s\<lparr>keyboardbuf := b, buf_index := index\<rparr>) }"

definition prout :: "u8 \<Rightarrow> 'a console_scheme \<Rightarrow> 'a console_scheme option" where
  "prout c s =
    (if count s = bufsize then Some (reset_cursor (vd_x s) (vd_y s) s)
     else do {
       b \<leftarrow> (if buf_index s \<le> bufsize - 1 then arr_set (keyboardbuf s) (buf_index s) c
              else Some (keyboardbuf s));
       let s = s\<lparr>keyboardbuf := b\<rparr>;
       let s = s\<lparr>buf_index := buf_index s + 1\<rparr>;
       let s = s\<lparr>vd_x := vd_x s + 1\<rparr>;
       Some (if vd_x s = 80 then
               let s = putc c s;
                   s = s\<lparr>count := count s + 1\<rparr>;
                   s = s\<lparr>vd_y := vd_y s + 1\<rparr>;
                   s = s\<lparr>vd_x := 0\<rparr>
               in if vd_y s = 25 then
                    let s = reset_video s;
                        s = clear_row s;
                        s = reset_position (vd_x s) (vd_y s - 1) s
                    in reset_cursor (vd_x s) (vd_y s - 1) s
                  else
                    let s = reset_position (vd_x s) (vd_y s) s
                    in reset_cursor (vd_x s) (vd_y s) s
             else
               let s = putc c s;
                   s = s\<lparr>count := count s + 1\<rparr>
               in reset_cursor (vd_x s) (vd_y s) s) })"

text \<open>The last two statements of both branches of \<open>backspace\<close>.\<close>

definition drop_key :: "'a console_scheme \<Rightarrow> 'a console_scheme option" where
  "drop_key s =
    (if count s > 0 \<and> buf_index s > 0 then
       do { let s = s\<lparr>count := count s - 1\<rparr>;
            let s = s\<lparr>buf_index := buf_index s - 1\<rparr>;
            b \<leftarrow> arr_set (keyboardbuf s) (buf_index s) 0;
            Some (s\<lparr>keyboardbuf := b\<rparr>) }
     else Some s)"

definition backspace :: "'a console_scheme \<Rightarrow> 'a console_scheme option" where
  "backspace s =
    (if count s = 0 then Some s
     else if vd_x s = 0 \<and> vd_y s = 0 then Some s
     else if vd_x s = 0 \<and> count s = 0 \<and> buf_index s = 0 then Some s
     else if vd_x s = 0 then
       let s = put_upbackspace s;
           s = s\<lparr>vd_x := 80 - 1\<rparr>;
           s = s\<lparr>vd_y := vd_y s - 1\<rparr>;
           s = reset_position (vd_x s) (vd_y s) s;
           s = reset_cursor (vd_x s) (vd_y s) s
       in drop_key s
     else
       let s = put_backspace s;
           s = s\<lparr>vd_x := vd_x s - 1\<rparr>;
           s = reset_position (vd_x s) (vd_y s) s;
           s = reset_cursor (vd_x s) (vd_y s) s
       in drop_key s)"

subsection \<open>From scan codes to characters\<close>

text \<open>The symbol keys with shift, with caps lock, and without either.\<close>

definition shift_symbol :: "u8 \<Rightarrow> u8 option" where
  "shift_symbol c =
    (if c = 0x29 then Some 0x7E else if c = 0x0C then Some 0x5F else if c = 0x0D then Some 0x2B
     else if c = 0x1A then Some 0x7B else if c = 0x1B then Some 0x7D else if c = 0x2B then Some 0x7C
     else if c = 0x27 then Some 0x3A else if c = 0x28 then Some 0x22 else if c = 0x33 then Some 0x3C
     else if c = 0x34 then Some 0x3E else if c = 0x35 then Some 0x3F else None)"

definition caps_symbol :: "u8 \<Rightarrow> u8 option" where
  "caps_symbol c =
    (if c = 0x29 then Some 0x60 else if c = 0x0C then Some 0x2D else if c = 0x0D then Some 0x3D
     else if c = 0x1A then Some 0x5B else if c = 0x1B then Some 0x5D else if c = 0x27 then Some 0x3B
     else if c = 0x28 then Some 0x27 else if c = 0x33 then Some 0x2C else if c = 0x34 then Some 0x2E
     else if c = 0x35 then Some 0x2F else if c = 0x2B then Some 0x5C else None)"

definition lower_symbol :: "u8 \<Rightarrow> u8 option" where
  "lower_symbol c =
    (if c = 0x29 then Some 0x60 else if c = 0x0C then Some 0x2D else if c = 0x0D then Some 0x3D
     else if c = 0x1A then Some 0x5B else if c = 0x1B then Some 0x5D else if c = 0x27 then Some 0x3B
     else if c = 0x28 then Some 0x27 else if c = 0x33 then Some 0x2C else if c = 0x34 then Some 0x2E
     else if c = 0x35 then Some 0x2F else if c = 0x2B then Some 0x5C else None)"

text \<open>
  A loop over entries \<open>i\<close> up to \<open>i + k\<close> of a table that types the first key with the code \<open>c\<close>;
  \<open>c\<close> is an \<open>unsigned char\<close>, the code in the table a signed one.
\<close>

fun type_from :: "kboard list \<Rightarrow> u8 \<Rightarrow> nat \<Rightarrow> nat \<Rightarrow> 'a console_scheme \<Rightarrow> 'a console_scheme option" where
  "type_from t c i 0 s = Some s"
| "type_from t c i (Suc k) s =
    (if uint c = sint (pressed (t ! i)) then prout (ucast (ascii_number (t ! i))) s
     else type_from t c (Suc i) k s)"

definition type_shift :: "u8 \<Rightarrow> 'a console_scheme \<Rightarrow> 'a console_scheme option" where
  "type_shift c s =
    (case shift_symbol c of
       Some a \<Rightarrow> prout a s
     | None \<Rightarrow> type_from (keyboard_Cap s) c 0 36 s)"

definition type_caps :: "u8 \<Rightarrow> 'a console_scheme \<Rightarrow> 'a console_scheme option" where
  "type_caps c s =
    (case caps_symbol c of
       Some a \<Rightarrow> prout a s
     | None \<Rightarrow>
         do { s \<leftarrow> type_from (keyboard_sc s) c 0 10 s;
              type_from (keyboard_Cap s) c 10 26 s })"

definition type_lower :: "u8 \<Rightarrow> 'a console_scheme \<Rightarrow> 'a console_scheme option" where
  "type_lower c s =
    (case lower_symbol c of
       Some a \<Rightarrow> prout a s
     | None \<Rightarrow> type_from (keyboard_sc s) c 0 36 s)"

subsection \<open>The tables after initialisation\<close>

lemma fold_update:
  "b \<le> length t \<Longrightarrow> length (fold (\<lambda>x t. t[x := g x (t ! x)]) [a..<b] t) = length t \<and>
    (\<forall>i<length t. fold (\<lambda>x t. t[x := g x (t ! x)]) [a..<b] t ! i =
      (if a \<le> i \<and> i < b then g i (t ! i) else t ! i))"
proof (induction b)
  case (Suc b)
  then show ?case by (cases "a \<le> b") (auto simp: nth_list_update less_Suc_eq)
qed simp

lemma fold_set_key:
  assumes "\<And>x t. f x t = set_key x (p x) (r x) (a x) t" and "n \<le> length t"
  shows "length (fold f [m..<n] t) = length t"
    "i < length t \<Longrightarrow> fold f [m..<n] t ! i =
      (if m \<le> i \<and> i < n then (t ! i)\<lparr>pressed := p i, released := r i, ascii_number := scast (a i)\<rparr> else t ! i)"
proof -
  have "f = (\<lambda>x t. t[x := (t ! x)\<lparr>pressed := p x, released := r x, ascii_number := scast (a x)\<rparr>])"
    by (auto simp: fun_eq_iff assms(1) set_key_def)
  note f = this
  show "length (fold f [m..<n] t) = length t"
    unfolding f using fold_update [OF assms(2), where a = m and
      g = "\<lambda>x k. k\<lparr>pressed := p x, released := r x, ascii_number := scast (a x)\<rparr>"] by simp
  show "i < length t \<Longrightarrow> fold f [m..<n] t ! i =
      (if m \<le> i \<and> i < n then (t ! i)\<lparr>pressed := p i, released := r i, ascii_number := scast (a i)\<rparr> else t ! i)"
    unfolding f using fold_update [OF assms(2), where a = m and
      g = "\<lambda>x k. k\<lparr>pressed := p x, released := r x, ascii_number := scast (a x)\<rparr>"] by simp
qed

definition sc_codes :: "u8 list" where
  "sc_codes = [2, 3, 4, 5, 6, 7, 8, 9, 10, 11] @ character_pressed_array"

definition cap_codes :: "u8 list" where
  "cap_codes = [11, 2, 3, 4, 5, 6, 7, 8, 9, 10] @ character_pressed_array"

definition sc_chars :: "u8 list" where
  "sc_chars = ascii ''1234567890abcdefghijklmnopqrstuvwxyz''"

definition cap_chars :: "u8 list" where
  "cap_chars = ascii '')!@#$%^&*(ABCDEFGHIJKLMNOPQRSTUVWXYZ''"

lemma below36: "(\<forall>i<36. P i) \<longleftrightarrow> list_all P [0..<36]"
  by (auto simp: list_all_iff)

lemma ini_sc:
  assumes "length t = 36"
  shows "length (ini_keyboard_sc t) = 36"
    "i < 36 \<Longrightarrow> pressed (ini_keyboard_sc t ! i) = sc_codes ! i"
    "i < 36 \<Longrightarrow> ucast (ascii_number (ini_keyboard_sc t ! i)) = sc_chars ! i"
proof -
  define t1 where "t1 = fold (\<lambda>x. set_key x (0x02 + of_nat x) (0x82 + of_nat x) (0x31 + of_nat x)) [0..<9] t"
  define t2 where "t2 = set_key 9 0x0B 0x8B 0x30 t1"
  have ini: "ini_keyboard_sc t = fold (\<lambda>x. set_key x (character_pressed_array ! (x - 9 - 1))
      (character_pressed_array ! (x - 9 - 1) + 0x80) (0x61 + of_nat (x - 10))) [10..<36] t2"
    by (simp add: ini_keyboard_sc_def t1_def t2_def)
  have t1: "length t1 = 36" "\<And>i. i < 36 \<Longrightarrow> t1 ! i = (if i < 9 then (t ! i)\<lparr>pressed := 0x02 + of_nat i,
      released := 0x82 + of_nat i, ascii_number := scast (0x31 + of_nat i :: u8)\<rparr> else t ! i)"
    unfolding t1_def using assms by (subst fold_set_key [OF refl]; simp)+
  have t2: "length t2 = 36" "\<And>i. i < 36 \<Longrightarrow> t2 ! i = (if i = 9 then (t ! 9)\<lparr>pressed := 0x0B,
      released := 0x8B, ascii_number := scast (0x30 :: u8)\<rparr> else t1 ! i)"
    using t1 by (simp_all add: t2_def set_key_def nth_list_update)
  show len: "length (ini_keyboard_sc t) = 36"
    unfolding ini using t2(1) by (subst fold_set_key [OF refl]; simp)
  have at_i: "\<And>i. i < 36 \<Longrightarrow> ini_keyboard_sc t ! i = (if 10 \<le> i then (t2 ! i)\<lparr>
      pressed := character_pressed_array ! (i - 9 - 1), released := character_pressed_array ! (i - 9 - 1) + 0x80,
      ascii_number := scast (0x61 + of_nat (i - 10) :: u8)\<rparr> else t2 ! i)"
    unfolding ini using t2(1) by (subst fold_set_key [OF refl]; simp)
  have "\<forall>i<36. pressed (ini_keyboard_sc t ! i) = sc_codes ! i \<and>
      ucast (ascii_number (ini_keyboard_sc t ! i)) = sc_chars ! i"
    unfolding below36
    by (simp add: upt_rec at_i t2 t1 sc_codes_def sc_chars_def character_pressed_array_def ascii_def)
  then show "i < 36 \<Longrightarrow> pressed (ini_keyboard_sc t ! i) = sc_codes ! i"
    "i < 36 \<Longrightarrow> ucast (ascii_number (ini_keyboard_sc t ! i)) = sc_chars ! i" by blast+
qed

lemma ini_Cap:
  assumes "length t = 36"
  shows "length (ini_keyboard_Cap t) = 36"
    "i < 36 \<Longrightarrow> pressed (ini_keyboard_Cap t ! i) = cap_codes ! i"
    "i < 36 \<Longrightarrow> ucast (ascii_number (ini_keyboard_Cap t ! i)) = cap_chars ! i"
proof -
  define t1 where "t1 = fold (\<lambda>x. case cap_digits ! x of (p, r, a) \<Rightarrow> set_key x p r a) [0..<10] t"
  have ini: "ini_keyboard_Cap t = fold (\<lambda>x. set_key x (character_pressed_array ! (x - 10))
      (character_pressed_array ! (x - 10) + 0x80) (0x41 + of_nat (x - 10))) [10..<36] t1"
    by (simp add: ini_keyboard_Cap_def t1_def)
  have f: "(case cap_digits ! x of (p, r, a) \<Rightarrow> set_key x p r a) u =
      set_key x (fst (cap_digits ! x)) (fst (snd (cap_digits ! x))) (snd (snd (cap_digits ! x))) u" for x u
    by (simp split: prod.split)
  have t1: "length t1 = 36" "\<And>i. i < 36 \<Longrightarrow> t1 ! i = (if i < 10 then (t ! i)\<lparr>
      pressed := fst (cap_digits ! i), released := fst (snd (cap_digits ! i)),
      ascii_number := scast (snd (snd (cap_digits ! i)))\<rparr> else t ! i)"
    unfolding t1_def using assms by (subst fold_set_key [OF f]; simp)+
  show len: "length (ini_keyboard_Cap t) = 36"
    unfolding ini using t1(1) by (subst fold_set_key [OF refl]; simp)
  have at_i: "\<And>i. i < 36 \<Longrightarrow> ini_keyboard_Cap t ! i = (if 10 \<le> i then (t1 ! i)\<lparr>
      pressed := character_pressed_array ! (i - 10), released := character_pressed_array ! (i - 10) + 0x80,
      ascii_number := scast (0x41 + of_nat (i - 10) :: u8)\<rparr> else t1 ! i)"
    unfolding ini using t1(1) by (subst fold_set_key [OF refl]; simp)
  have "\<forall>i<36. pressed (ini_keyboard_Cap t ! i) = cap_codes ! i \<and>
      ucast (ascii_number (ini_keyboard_Cap t ! i)) = cap_chars ! i"
    unfolding below36
    by (simp add: upt_rec at_i t1 cap_codes_def cap_chars_def character_pressed_array_def
        cap_digits_def ascii_def)
  then show "i < 36 \<Longrightarrow> pressed (ini_keyboard_Cap t ! i) = cap_codes ! i"
    "i < 36 \<Longrightarrow> ucast (ascii_number (ini_keyboard_Cap t ! i)) = cap_chars ! i" by blast+
qed

subsection \<open>The keyboard layout\<close>

text \<open>The four rows of keys of a US keyboard, their scan codes and their characters.\<close>

definition key_codes :: "u8 list" where
  "key_codes = map of_nat ([2..<14] @ [16..<28] @ [30..<42] @ [43..<54])"

definition plain_chars :: "u8 list" where
  "plain_chars = ascii (''1234567890-='' @ ''qwertyuiop[]'' @ ''asdfghjkl;'' @ [CHR 0x27, CHR 0x60] @
     [CHR 0x5C] @ ''zxcvbnm,./'')"

definition shift_chars :: "u8 list" where
  "shift_chars = ascii (''!@#$%^&*()_+'' @ ''QWERTYUIOP{}'' @ ''ASDFGHJKL:'' @ [CHR 0x22, CHR 0x7E] @
     [CHR 0x7C] @ ''ZXCVBNM<>?'')"

definition caps_chars :: "u8 list" where
  "caps_chars = map (\<lambda>c. if 0x61 \<le> c \<and> c \<le> 0x7A then c - 0x20 else c) plain_chars"

definition key_char :: "bool \<Rightarrow> bool \<Rightarrow> u8 \<Rightarrow> u8 option" where
  "key_char shift caps c =
    map_of (zip key_codes (if shift then shift_chars else if caps then caps_chars else plain_chars)) c"

definition type_char :: "u8 option \<Rightarrow> 'a console_scheme \<Rightarrow> 'a console_scheme option" where
  "type_char a s = (case a of None \<Rightarrow> Some s | Some c \<Rightarrow> prout c s)"

lemma sint_small8: "x < 0x80 \<Longrightarrow> sint (x :: u8) = uint x"
  unfolding sint_uint by (rule signed_take_bit_int_eq_self) (auto simp: word_less_def intro: order_trans [of _ 0])

lemma type_from_map:
  assumes "\<And>j. i \<le> j \<Longrightarrow> j < i + k \<Longrightarrow> pressed (t ! j) = codes ! j \<and> ucast (ascii_number (t ! j)) = outs ! j"
    and "\<And>j. i \<le> j \<Longrightarrow> j < i + k \<Longrightarrow> codes ! j < 0x80"
  shows "type_from t c i k s = type_char (map_of (map (\<lambda>j. (codes ! j, outs ! j)) [i..<i + k]) c) s"
  using assms
proof (induction k arbitrary: i)
  case 0
  then show ?case by (simp add: type_char_def)
next
  case (Suc k)
  have "sint (codes ! i) = uint (codes ! i)"
    using Suc.prems(2) [of i] sint_small8 by simp
  then have c: "uint c = sint (pressed (t ! i)) \<longleftrightarrow> c = codes ! i"
    using Suc.prems(1) [of i] by (metis le_add1 less_add_same_cancel1 order_refl word_uint_eq_iff zero_less_Suc)
  have "[i..<i + Suc k] = i # [Suc i..<Suc i + k]" by (simp add: upt_conv_Cons)
  moreover have "type_from t c (Suc i) k s =
      type_char (map_of (map (\<lambda>j. (codes ! j, outs ! j)) [Suc i..<Suc i + k]) c) s"
    by (rule Suc.IH) (use Suc.prems in auto)
  ultimately show ?case
    using c Suc.prems(1) [of i] by (auto simp: type_char_def simp del: upt_Suc)
qed

text \<open>The tables hold what \<open>ini_keyboard\<close> put there.\<close>

definition keys_ready :: "'a console_scheme \<Rightarrow> bool" where
  "keys_ready s \<longleftrightarrow>
     (\<forall>i<36. pressed (keyboard_sc s ! i) = sc_codes ! i \<and>
       ucast (ascii_number (keyboard_sc s ! i)) = sc_chars ! i \<and>
       pressed (keyboard_Cap s ! i) = cap_codes ! i \<and>
       ucast (ascii_number (keyboard_Cap s ! i)) = cap_chars ! i)"

lemma ini_keyboard_tables:
  "keyboard_sc (ini_keyboard s) = ini_keyboard_sc (keyboard_sc s)"
  "keyboard_Cap (ini_keyboard s) = ini_keyboard_Cap (keyboard_Cap s)"
  by (simp_all add: ini_keyboard_def Let_def clearbuffuer_def console_defs clear_def outb_def
      enable_irq_def write_masks_def)

lemma ini_keys_ready [inv_intros]:
  "length (keyboard_sc s) = 36 \<Longrightarrow> length (keyboard_Cap s) = 36 \<Longrightarrow> keys_ready (ini_keyboard s)"
  by (simp add: keys_ready_def ini_keyboard_tables ini_sc ini_Cap)

lemma codes_small: "i < 36 \<Longrightarrow> sc_codes ! i < 0x80 \<and> cap_codes ! i < 0x80"
proof -
  have "\<forall>i<36. sc_codes ! i < 0x80 \<and> cap_codes ! i < 0x80"
    unfolding below36 by (simp add: upt_rec sc_codes_def cap_codes_def character_pressed_array_def)
  then show "i < 36 \<Longrightarrow> sc_codes ! i < 0x80 \<and> cap_codes ! i < 0x80" by blast
qed

text \<open>The symbol keys as association lists.\<close>

definition symbol_codes :: "u8 list" where
  "symbol_codes = [0x29, 0x0C, 0x0D, 0x1A, 0x1B, 0x27, 0x28, 0x33, 0x34, 0x35, 0x2B]"

lemma symbol_maps:
  "shift_symbol c = map_of (zip symbol_codes [0x7E, 0x5F, 0x2B, 0x7B, 0x7D, 0x3A, 0x22, 0x3C, 0x3E, 0x3F, 0x7C]) c"
  "caps_symbol c = map_of (zip symbol_codes [0x60, 0x2D, 0x3D, 0x5B, 0x5D, 0x3B, 0x27, 0x2C, 0x2E, 0x2F, 0x5C]) c"
  "lower_symbol c = map_of (zip symbol_codes [0x60, 0x2D, 0x3D, 0x5B, 0x5D, 0x3B, 0x27, 0x2C, 0x2E, 0x2F, 0x5C]) c"
  by (auto simp: symbol_codes_def shift_symbol_def caps_symbol_def lower_symbol_def)

lemma map_of_same_set:
  "map fst xs = us \<Longrightarrow> map fst ys = vs \<Longrightarrow> distinct us \<Longrightarrow> distinct vs \<Longrightarrow> set xs = set ys \<Longrightarrow>
    map_of xs = map_of ys"
  by (metis map_of_inject_set)

lemmas table_defs = symbol_codes_def sc_codes_def cap_codes_def character_pressed_array_def
  sc_chars_def cap_chars_def key_codes_def plain_chars_def shift_chars_def caps_chars_def ascii_def

lemma shift_layout:
  "map_of (zip symbol_codes [0x7E, 0x5F, 0x2B, 0x7B, 0x7D, 0x3A, 0x22, 0x3C, 0x3E, 0x3F, 0x7C] @
     map (\<lambda>j. (cap_codes ! j, cap_chars ! j)) [0..<36]) = map_of (zip key_codes shift_chars)"
  by (rule map_of_same_set [OF refl refl]) (simp_all add: table_defs upt_rec insert_commute)

lemma caps_layout:
  "map_of (zip symbol_codes [0x60, 0x2D, 0x3D, 0x5B, 0x5D, 0x3B, 0x27, 0x2C, 0x2E, 0x2F, 0x5C] @
     map (\<lambda>j. (sc_codes ! j, sc_chars ! j)) [0..<10] @
     map (\<lambda>j. (cap_codes ! j, cap_chars ! j)) [10..<36]) = map_of (zip key_codes caps_chars)"
  by (rule map_of_same_set [OF refl refl]) (simp_all add: table_defs upt_rec insert_commute)

lemma lower_layout:
  "map_of (zip symbol_codes [0x60, 0x2D, 0x3D, 0x5B, 0x5D, 0x3B, 0x27, 0x2C, 0x2E, 0x2F, 0x5C] @
     map (\<lambda>j. (sc_codes ! j, sc_chars ! j)) [0..<36]) = map_of (zip key_codes plain_chars)"
  by (rule map_of_same_set [OF refl refl]) (simp_all add: table_defs upt_rec insert_commute)

lemma type_char_None_first:
  "(case map_of xs c of Some a \<Rightarrow> prout a s | None \<Rightarrow> type_char (map_of ys c) s) =
    type_char (map_of (xs @ ys) c) s"
  by (simp add: type_char_def map_add_def split: option.split)

lemma type_shift_layout:
  assumes "keys_ready s"
  shows "type_shift c s = type_char (key_char True caps c) s"
proof -
  have "type_from (keyboard_Cap s) c 0 36 s =
      type_char (map_of (map (\<lambda>j. (cap_codes ! j, cap_chars ! j)) [0..<0 + 36]) c) s"
    by (rule type_from_map) (use assms codes_small in \<open>auto simp: keys_ready_def\<close>)
  then show ?thesis
    by (simp only: type_shift_def symbol_maps type_char_None_first add_0 shift_layout
        key_char_def if_True)
qed

lemma type_lower_layout:
  assumes "keys_ready s"
  shows "type_lower c s = type_char (key_char False False c) s"
proof -
  have "type_from (keyboard_sc s) c 0 36 s =
      type_char (map_of (map (\<lambda>j. (sc_codes ! j, sc_chars ! j)) [0..<0 + 36]) c) s"
    by (rule type_from_map) (use assms codes_small in \<open>auto simp: keys_ready_def\<close>)
  then show ?thesis
    by (simp only: type_lower_def symbol_maps type_char_None_first add_0 lower_layout
        key_char_def if_False)
qed

lemma prout_tables:
  "prout a s = Some s' \<Longrightarrow> keyboard_Cap s' = keyboard_Cap s \<and> keyboard_sc s' = keyboard_sc s"
  by (auto simp: prout_def Let_def console_defs frame_simps outb_def split: if_splits bind_splits)

lemma type_caps_layout:
  assumes "keys_ready s"
  shows "type_caps c s = type_char (key_char False True c) s"
proof -
  let ?d = "map (\<lambda>j. (sc_codes ! j, sc_chars ! j)) [0..<10]"
  let ?l = "map (\<lambda>j. (cap_codes ! j, cap_chars ! j)) [10..<36]"
  have digits: "type_from (keyboard_sc s) c 0 10 s = type_char (map_of ?d c) s"
    using type_from_map [of 0 10 "keyboard_sc s" sc_codes sc_chars c s] assms codes_small
    by (simp add: keys_ready_def del: upt_rec_numeral)
  have letters: "type_from (keyboard_Cap s) c 10 26 s' = type_char (map_of ?l c) s'" for s'
    using type_from_map [of 10 26 "keyboard_Cap s" cap_codes cap_chars c s'] assms codes_small
    by (simp add: keys_ready_def del: upt_rec_numeral)
  have one: "map_of ?l c = None" if "map_of ?d c \<noteq> None"
  proof -
    have d: "map fst ?d = [2, 3, 4, 5, 6, 7, 8, 9, 10, 11]" and l: "map fst ?l = character_pressed_array"
      by (simp_all add: table_defs upt_rec)
    have "c \<in> set (map fst ?d)"
      using that unfolding map_of_eq_None_iff set_map by blast
    moreover have "list_all (\<lambda>c. c \<notin> set (map fst ?l)) (map fst ?d)"
      unfolding d l by (simp add: character_pressed_array_def)
    ultimately have "c \<notin> set (map fst ?l)" unfolding list_all_iff by blast
    then show ?thesis unfolding map_of_eq_None_iff set_map by blast
  qed
  have "do { s \<leftarrow> type_from (keyboard_sc s) c 0 10 s; type_from (keyboard_Cap s) c 10 26 s } =
      type_char (map_of (?d @ ?l) c) s"
  proof (cases "map_of ?d c")
    case None
    then show ?thesis by (simp add: digits letters type_char_def map_add_def del: upt_rec_numeral)
  next
    case (Some a)
    then have "map_of ?l c = None" using one by simp
    then show ?thesis using Some prout_tables [of a s]
      by (cases "prout a s") (simp_all add: digits letters type_char_def map_add_def del: upt_rec_numeral)
  qed
  then have "type_caps c s = type_char (map_of (zip symbol_codes
      [0x60, 0x2D, 0x3D, 0x5B, 0x5D, 0x3B, 0x27, 0x2C, 0x2E, 0x2F, 0x5C] @ ?d @ ?l) c) s"
    by (simp only: type_caps_def symbol_maps type_char_None_first)
  then show ?thesis
    by (simp only: caps_layout key_char_def if_True if_False)
qed

subsection \<open>Typing\<close>

text \<open>
  The buffer holds the characters typed since the last line feed: \<open>count\<close> of them.  This is
  what every operation of the driver preserves as long as the terminal is not switched.
\<close>

definition line_inv :: "'a console_scheme \<Rightarrow> bool" where
  "line_inv s \<longleftrightarrow> length (keyboardbuf s) = 128 \<and> 0 \<le> count s \<and> count s \<le> 128 \<and>
     buf_index s = count s \<and> screen_ok s"

definition typed :: "'a console_scheme \<Rightarrow> u8 list" where
  "typed s = take (nat (count s)) (keyboardbuf s)"

lemma reset_cursor_frame [frame_simps]:
  "phys (reset_cursor x y s) = phys s" "screen_x (reset_cursor x y s) = screen_x s"
  "screen_y (reset_cursor x y s) = screen_y s" "vd_x (reset_cursor x y s) = vd_x s"
  "vd_y (reset_cursor x y s) = vd_y s" "count (reset_cursor x y s) = count s"
  "buf_index (reset_cursor x y s) = buf_index s" "keyboardbuf (reset_cursor x y s) = keyboardbuf s"
  "terminals (reset_cursor x y s) = terminals s" "current_id (reset_cursor x y s) = current_id s"
  "kbbuf (reset_cursor x y s) = kbbuf s" "enter_flag (reset_cursor x y s) = enter_flag s"
  "curr_terminal (reset_cursor x y s) = curr_terminal s" "intr (reset_cursor x y s) = intr s"
  "current_x (reset_cursor x y s) = current_x s" "current_y (reset_cursor x y s) = current_y s"
  "console.more (reset_cursor x y s) = console.more s"
  by (simp_all add: reset_cursor_def Let_def get_cursor_def outb_def)

lemma reset_position_frame [frame_simps]:
  "phys (reset_position x y s) = phys s" "screen_x (reset_position x y s) = x"
  "screen_y (reset_position x y s) = y" "vd_x (reset_position x y s) = vd_x s"
  "vd_y (reset_position x y s) = vd_y s" "count (reset_position x y s) = count s"
  "buf_index (reset_position x y s) = buf_index s" "keyboardbuf (reset_position x y s) = keyboardbuf s"
  "terminals (reset_position x y s) = terminals s" "current_id (reset_position x y s) = current_id s"
  "kbbuf (reset_position x y s) = kbbuf s" "enter_flag (reset_position x y s) = enter_flag s"
  "curr_terminal (reset_position x y s) = curr_terminal s" "intr (reset_position x y s) = intr s"
  "console.more (reset_position x y s) = console.more s"
  by (simp_all add: reset_position_def get_position_def)

lemma scroll_frame [frame_simps]:
  "phys (clear_row (reset_video s)) = blank_row VIDEO (scroll_rows VIDEO (phys s))"
  "vd_x (clear_row (reset_video s)) = vd_x s" "vd_y (clear_row (reset_video s)) = vd_y s"
  "count (clear_row (reset_video s)) = count s" "buf_index (clear_row (reset_video s)) = buf_index s"
  "keyboardbuf (clear_row (reset_video s)) = keyboardbuf s"
  "screen_x (clear_row (reset_video s)) = screen_x s" "screen_y (clear_row (reset_video s)) = screen_y s"
  by (simp_all add: clear_row_def reset_video_def)

lemma putc_vd: "vd_x (putc c s) = screen_x (putc c s)" "vd_y (putc c s) = screen_y (putc c s)"
  using putc_synced [of c s] by (simp_all add: synced_def)

lemma prout_full: "count s = 128 \<Longrightarrow> prout c s = Some (reset_cursor (vd_x s) (vd_y s) s)"
  by (simp add: prout_def)

text \<open>\<open>putc\<close> depends on the screen position and on memory only, among what the tests below ask.\<close>

lemma putc_upd:
  "screen_ok s \<Longrightarrow> screen_ok (putc c (s\<lparr>keyboardbuf := b, buf_index := i, vd_x := x\<rparr>))"
  by (intro putc_screen_ok) (simp add: screen_ok_def)

lemma prout_stores:
  assumes "line_inv s" "count s < 128"
  shows "\<exists>s'. prout c s = Some s' \<and> line_inv s' \<and> typed s' = typed s @ [c] \<and>
    count s' = count s + 1 \<and> keyboardbuf s' = (keyboardbuf s)[nat (count s) := c]"
proof -
  let ?b = "(keyboardbuf s)[nat (count s) := c]"
  let ?u = "s\<lparr>keyboardbuf := ?b, buf_index := count s + 1, vd_x := vd_x s + 1\<rparr>"
  have set: "arr_set (keyboardbuf s) (count s) c = Some ?b"
    using assms by (auto simp: arr_set_def line_inv_def)
  have ok: "screen_ok (putc c ?u)"
    using assms(1) by (intro putc_upd) (simp add: line_inv_def)
  have y: "0 \<le> screen_y (putc c ?u)" "screen_y (putc c ?u) < 25"
    using ok by (simp_all add: screen_ok_def)
  have "take (nat (count s + 1)) ?b = take (nat (count s)) (keyboardbuf s) @ [c]"
  proof -
    have "nat (count s + 1) = Suc (nat (count s))" "nat (count s) < length (keyboardbuf s)"
      using assms by (auto simp: line_inv_def)
    then show ?thesis by (simp add: take_Suc_conv_app_nth)
  qed
  then show ?thesis
    using assms set ok y
    by (auto simp: prout_def line_inv_def typed_def Let_def frame_simps putc_vd screen_ok_def)
qed

text \<open>A full buffer takes no more characters, and the screen stays as it is.\<close>

lemma prout_inv [inv_intros]:
  assumes "line_inv s"
  shows "\<exists>s'. prout c s = Some s' \<and> line_inv s' \<and>
    typed s' = (if count s < 128 then typed s @ [c] else typed s)"
proof (cases "count s < 128")
  case True
  then show ?thesis using prout_stores [OF assms True] by auto
next
  case False
  then have "count s = 128" using assms by (simp add: line_inv_def)
  then show ?thesis using assms
    by (simp add: prout_full line_inv_def typed_def screen_ok_def frame_simps)
qed

fun type_all :: "u8 list \<Rightarrow> 'a console_scheme \<Rightarrow> 'a console_scheme option" where
  "type_all [] s = Some s"
| "type_all (c # cs) s = do { s \<leftarrow> prout c s; type_all cs s }"

lemma typed_length: "line_inv s \<Longrightarrow> length (typed s) = nat (count s)"
  by (auto simp: typed_def line_inv_def min_def)

lemma type_all_typed:
  "line_inv s \<Longrightarrow> \<exists>s'. type_all cs s = Some s' \<and> line_inv s' \<and> typed s' = take 128 (typed s @ cs)"
proof (induction cs arbitrary: s)
  case Nil
  then show ?case using typed_length [of s] by (auto simp: line_inv_def)
next
  case (Cons c cs)
  obtain s1 where s1: "prout c s = Some s1" "line_inv s1"
    "typed s1 = (if count s < 128 then typed s @ [c] else typed s)"
    using prout_inv [OF Cons.prems] by blast
  obtain s2 where s2: "type_all cs s1 = Some s2" "line_inv s2" "typed s2 = take 128 (typed s1 @ cs)"
    using Cons.IH [OF s1(2)] by blast
  have "take 128 (typed s1 @ cs) = take 128 (typed s @ c # cs)"
  proof (cases "count s < 128")
    case False
    then have "length (typed s) = 128"
      using typed_length [OF Cons.prems] Cons.prems by (simp add: line_inv_def)
    then show ?thesis using s1(3) False by simp
  qed (simp add: s1(3))
  then show ?case using s1 s2 by auto
qed

text \<open>Backspace takes the last character back.\<close>

lemma backspace_typed:
  assumes "line_inv s" "vd_x s = screen_x s" "vd_y s = screen_y s" "0 < count s"
    "vd_x s \<noteq> 0 \<or> vd_y s \<noteq> 0"
  shows "\<exists>s'. backspace s = Some s' \<and> line_inv s' \<and> typed s' = butlast (typed s) \<and>
    vd_x s' = screen_x s' \<and> vd_y s' = screen_y s'"
proof -
  have set: "arr_set (keyboardbuf s) (count s - 1) 0 = Some ((keyboardbuf s)[nat (count s - 1) := 0])"
    using assms by (auto simp: arr_set_def line_inv_def)
  have "take (nat (count s - 1)) ((keyboardbuf s)[nat (count s - 1) := 0]) = butlast (typed s)"
  proof -
    have "nat (count s) \<le> length (keyboardbuf s)" using assms(1) by (auto simp: line_inv_def nat_le_iff)
    then show ?thesis using assms(4) by (simp add: typed_def butlast_take nat_diff_distrib)
  qed
  then show ?thesis
    using assms set
    by (cases "vd_x s = 0")
       (auto simp: backspace_def drop_key_def Let_def line_inv_def screen_ok_def frame_simps
          put_backspace_def put_upbackspace_def put_cell_def typed_def)
qed

subsection \<open>What typing shows\<close>

text \<open>The keyboard and \<open>putc\<close> agree on the position.\<close>

definition vd_synced :: "'a console_scheme \<Rightarrow> bool" where
  "vd_synced s \<longleftrightarrow> vd_x s = screen_x s \<and> vd_y s = screen_y s"

text \<open>
  Echoing a character: unlike \<open>putc\<close> alone, the keyboard goes on in the next row when the
  row is full, and scrolls at the bottom.
\<close>

fun screen_echo :: "u8 \<Rightarrow> screen \<Rightarrow> screen" where
  "screen_echo c (g, x, y) =
    (if x = 79 \<and> \<not> newline c then
       if y = 24 then
         (\<lambda>x y. if x < 80 \<and> y < 25 then if y < 24 then (g(79 := (g 79)(24 := c))) x (Suc y) else space else 0, 0, 24)
       else (g(79 := (g 79)(y := c)), 0, Suc y)
     else screen_putc c (g, x, y))"

lemma screen_of_upd:
  "screen_of (s\<lparr>keyboardbuf := b, buf_index := i, vd_x := x\<rparr>) = screen_of s"
  by (simp add: screen_of_def)

lemma prout_echo:
  assumes inv: "line_inv s" "vd_synced s" "count s < 128" and c: "\<not> newline c"
  shows "\<exists>s'. prout c s = Some s' \<and> screen_of s' = screen_echo c (screen_of s) \<and>
    (vd_synced s' \<or> screen_x s = 79 \<and> screen_y s = 24 \<and> vd_x s' = 0 \<and> vd_y s' = 25)"
proof -
  let ?b = "(keyboardbuf s)[nat (count s) := c]"
  let ?u = "s\<lparr>keyboardbuf := ?b, buf_index := count s + 1, vd_x := vd_x s + 1\<rparr>"
  have set: "arr_set (keyboardbuf s) (count s) c = Some ?b"
    using inv by (auto simp: arr_set_def line_inv_def)
  have ok: "screen_ok s" using inv(1) by (simp add: line_inv_def)
  then have ok': "screen_ok ?u" by (simp add: screen_ok_def)
  have ref: "screen_of (putc c ?u) = screen_putc c (screen_of s)"
    using putc_refines [OF ok', of c] by (simp only: screen_of_upd)
  have pos: "screen_x (putc c ?u) = (screen_x s + 1) mod 80" "screen_y (putc c ?u) = screen_y s"
    using putc_char(2,3) [OF c ok'] by simp_all
  obtain x y where xy: "screen_x s = int x" "screen_y s = int y" "x < 80" "y < 25"
    using screen_okD [OF ok] by blast
  have g: "grid (phys (putc c ?u)) VIDEO = (grid (phys s) VIDEO)(x := (grid (phys s) VIDEO x)(y := c))"
    using ref c xy by (simp add: screen_of_def)
  have vd: "vd_x s = int x" "vd_y s = int y" using inv(2) xy by (simp_all add: vd_synced_def)
  show ?thesis
  proof (cases "x = 79")
    case False
    then have "(int x + 1) mod 80 = int x + 1" using xy(3) by simp
    then show ?thesis
      using False inv set pos vd xy g c
      by (auto simp: prout_def Let_def line_inv_def frame_simps putc_vd vd_synced_def screen_of_def
          nat_add_distrib)
  next
    case True
    have gs: "grid (blank_row VIDEO (scroll_rows VIDEO (phys (putc c ?u)))) VIDEO =
        (\<lambda>x' y'. if x' < 80 \<and> y' < 25 then if y' < 24 then
          ((grid (phys s) VIDEO)(x := (grid (phys s) VIDEO x)(y := c))) x' (Suc y') else space else 0)"
      by (simp only: grid_scroll g)
    note facts = inv set pos vd xy g c True
    show ?thesis
    proof (cases "y = 24")
      case y24: True
      then show ?thesis using facts gs [unfolded True y24]
        by (simp add: prout_def Let_def line_inv_def frame_simps putc_vd vd_synced_def screen_of_def)
    next
      case False
      then show ?thesis using facts
        by (simp add: prout_def Let_def line_inv_def frame_simps putc_vd vd_synced_def screen_of_def
            nat_add_distrib)
    qed
  qed
qed

lemma backspace_screen:
  assumes "line_inv s" "vd_synced s" "0 < count s" "vd_x s \<noteq> 0"
  shows "\<exists>s'. backspace s = Some s' \<and> typed s' = butlast (typed s) \<and> line_inv s' \<and> vd_synced s' \<and>
    screen_of s' = (case screen_of s of (g, x, y) \<Rightarrow> (g(x - 1 := (g (x - 1))(y := space)), x - 1, y))"
proof -
  obtain s' where s': "backspace s = Some s'" "line_inv s'" "typed s' = butlast (typed s)" "vd_synced s'"
    using backspace_typed [of s] assms by (auto simp: vd_synced_def)
  obtain x y where xy: "screen_x s = int x" "screen_y s = int y" "x < 80" "y < 25"
    using screen_okD [of s] assms(1) by (auto simp: line_inv_def)
  then have x: "0 < x" using assms(2,4) by (simp add: vd_synced_def)
  then have ix: "int x - 1 = int (x - 1)" by simp
  have set: "arr_set (keyboardbuf s) (count s - 1) 0 = Some ((keyboardbuf s)[nat (count s - 1) := 0])"
    using assms by (auto simp: arr_set_def line_inv_def)
  have "screen_x s' = int x - 1" "screen_y s' = int y"
    "phys s' = phys (put_cell (int x - 1) (int y) space s)"
    using s'(1) assms set xy
    by (auto simp: backspace_def drop_key_def Let_def line_inv_def frame_simps put_backspace_def
        put_cell_def vd_synced_def)
  then have "screen_x s' = int (x - 1)" "screen_y s' = int y"
    "phys s' = phys (put_cell (int (x - 1)) (int y) space s)"
    by (simp_all only: ix)
  moreover have "grid (phys (put_cell (int (x - 1)) (int y) space s)) VIDEO =
      (grid (phys s) VIDEO)(x - 1 := (grid (phys s) VIDEO (x - 1))(y := space))"
    using grid_put [of "x - 1" y "phys s" VIDEO space] xy
    by (simp add: put_cell_def cell_addr_nat del: of_nat_mult of_nat_add)
  ultimately show ?thesis using s' xy by (simp add: screen_of_def)
qed

text \<open>
  After the bottom row was filled, the keyboard's row is 25: backspace then blanks the right
  cell but leaves the position one row below it.
\<close>

lemma backspace_after_scroll:
  assumes "line_inv s" "screen_x s = 0" "screen_y s = 24" "vd_x s = 0" "vd_y s = 25" "0 < count s"
  shows "\<exists>s'. backspace s = Some s' \<and> screen_x s' = 79 \<and> screen_y s' = 24 \<and>
    grid (phys s') VIDEO = (grid (phys s) VIDEO)(79 := (grid (phys s) VIDEO 79)(23 := space))"
proof -
  have "arr_set (keyboardbuf s) (count s - 1) 0 = Some ((keyboardbuf s)[nat (count s - 1) := 0])"
    using assms by (auto simp: arr_set_def line_inv_def)
  moreover have "grid (phys (put_cell (int 79) (int 23) space s)) VIDEO =
      (grid (phys s) VIDEO)(79 := (grid (phys s) VIDEO 79)(23 := space))"
    using grid_put [of 79 23 "phys s" VIDEO space]
    by (simp only: put_cell_def cell_addr_nat) simp
  ultimately show ?thesis
    using assms
    by (auto simp: backspace_def drop_key_def Let_def line_inv_def frame_simps put_upbackspace_def
        put_cell_def)
qed

lemma prout_after_scroll:
  assumes "line_inv s" "count s < 128" "\<not> newline c" "vd_x s = 79" "screen_x s = 79" "screen_y s = 24"
    and "prout c s = Some s'"
  shows "vd_x s' = 0 \<and> vd_y s' = 25"
proof -
  let ?u = "s\<lparr>keyboardbuf := (keyboardbuf s)[nat (count s) := c], buf_index := count s + 1, vd_x := vd_x s + 1\<rparr>"
  have "arr_set (keyboardbuf s) (count s) c = Some ((keyboardbuf s)[nat (count s) := c])"
    using assms by (auto simp: arr_set_def line_inv_def)
  moreover have "screen_y (putc c ?u) = 24"
    using putc_char(3) [of c ?u] assms by (simp add: line_inv_def screen_ok_def)
  ultimately show ?thesis
    using assms by (auto simp: prout_def Let_def line_inv_def frame_simps putc_vd)
qed

subsection \<open>Properties\<close>

lemma console_bss_keyboard:
  "length (keyboard_sc console_bss) = 36" "length (keyboard_Cap console_bss) = 36"
  "line_inv console_bss" "typed console_bss = []" "count console_bss = 0" "vd_synced console_bss"
  by (simp_all add: console_bss_def console.defs fs.defs line_inv_def typed_def screen_ok_def vd_synced_def)

text \<open>C28: with the tables \<open>ini_keyboard\<close> builds, the three ways in which the driver looks up a key
  are the US layout: for every scan code, with shift, with caps lock and without either, it
  types the character printed on that key, once, and types nothing for any other code.\<close>

theorem keyboard_layout:
  assumes "length (keyboard_sc s0) = 36" and "length (keyboard_Cap s0) = 36"
    and "keyboard_sc s = keyboard_sc (ini_keyboard s0)" and "keyboard_Cap s = keyboard_Cap (ini_keyboard s0)"
  shows "type_shift c s = type_char (key_char True caps c) s \<and>
    type_caps c s = type_char (key_char False True c) s \<and>
    type_lower c s = type_char (key_char False False c) s"
proof -
  have "keys_ready s"
    using ini_keys_ready [OF assms(1,2)] assms(3,4) by (simp add: keys_ready_def)
  then show ?thesis by (simp add: type_shift_layout type_caps_layout type_lower_layout)
qed

theorem keyboard_layout_witness:
  "type_lower 0x1E (ini_keyboard console_bss) = prout 0x61 (ini_keyboard console_bss) \<and>
   type_shift 0x02 (ini_keyboard console_bss) = prout 0x21 (ini_keyboard console_bss)"
proof -
  have "key_char False False 0x1E = Some 0x61" "key_char True False 0x02 = Some 0x21"
    by (simp_all add: key_char_def table_defs)
  then show ?thesis
    using keyboard_layout [of console_bss "ini_keyboard console_bss" "0x1E" False]
      keyboard_layout [of console_bss "ini_keyboard console_bss" "0x02" False]
    by (simp add: console_bss_keyboard type_char_def)
qed

text \<open>Typing any sequence of characters on a fresh line never fails, and the line buffer then
  holds the first 128 of them in order; what is typed beyond that is dropped.\<close>

theorem typing_fills_buffer:
  assumes "line_inv s" and "count s = 0"
  shows "\<exists>s'. type_all cs s = Some s' \<and> line_inv s' \<and>
    take (nat (count s')) (keyboardbuf s') = take 128 cs"
  using type_all_typed [OF assms(1), of cs] assms(2) by (auto simp: typed_def)

theorem typing_fills_buffer_witness:
  "\<exists>s'. type_all (replicate 200 0x61) console_bss = Some s' \<and> line_inv s' \<and>
    take (nat (count s')) (keyboardbuf s') = replicate 128 0x61"
  using typing_fills_buffer [of console_bss "replicate 200 0x61"] by (simp add: console_bss_keyboard)

text \<open>C29: typing a character shows it at the cursor and moves on, to the next row when the row is
  full, scrolling at the bottom; except after such a scroll the keyboard's position stays the
  screen's.\<close>

theorem typing_echoes:
  assumes "line_inv s" and "vd_synced s" and "count s < 128" and "\<not> newline c"
  shows "\<exists>s'. prout c s = Some s' \<and> screen_of s' = screen_echo c (screen_of s) \<and>
    typed s' = typed s @ [c] \<and>
    (vd_synced s' \<or> screen_x s = 79 \<and> screen_y s = 24 \<and> vd_x s' = 0 \<and> vd_y s' = 25)"
  using prout_echo [OF assms] prout_stores [OF assms(1,3), of c] by fastforce

theorem typing_echoes_witness:
  "\<exists>s'. prout 0x61 console_bss = Some s' \<and> screen_of s' = screen_echo 0x61 (screen_of console_bss) \<and>
    typed s' = [0x61]"
  using typing_echoes [of console_bss "0x61"] by (auto simp: console_bss_keyboard newline_def)

text \<open>C30: backspace, anywhere but in the first column, undoes the last key: the character leaves the
  line buffer, its cell is blank and the cursor stands on it, the keyboard's position with it.\<close>

theorem backspace_undoes_key:
  assumes "line_inv s" and "vd_synced s" and "0 < count s" and "vd_x s \<noteq> 0"
  shows "\<exists>s'. backspace s = Some s' \<and> typed s' = butlast (typed s) \<and> line_inv s' \<and> vd_synced s' \<and>
    screen_of s' = (case screen_of s of (g, x, y) \<Rightarrow> (g(x - 1 := (g (x - 1))(y := space)), x - 1, y))"
  using assms by (rule backspace_screen)

theorem backspace_undoes_key_witness:
  "\<exists>s'. backspace (console_bss\<lparr>screen_x := 3, vd_x := 3, count := 1, buf_index := 1\<rparr>) = Some s' \<and>
    typed s' = [] \<and> snd (screen_of s') = (2, 0)"
proof -
  let ?s = "console_bss\<lparr>screen_x := 3, vd_x := 3, count := 1, buf_index := 1\<rparr>"
  have "line_inv ?s" "vd_synced ?s" "length (typed ?s) = 1" "snd (screen_of ?s) = (3, 0)"
    using console_bss_keyboard
    by (auto simp: line_inv_def screen_ok_def vd_synced_def typed_def screen_of_def)
  then show ?thesis
    using backspace_undoes_key [of ?s] by (auto simp: length_Suc_conv split: prod.splits)
qed

text \<open>C31: after the last column of the bottom row was filled, backspace blanks the character (now in
  row 23) but leaves the cursor in row 24: the row the keyboard remembers is one too large.\<close>

theorem backspace_misplaced_after_scroll:
  assumes "line_inv s" and "vd_synced s" and "count s < 128" and "\<not> newline c"
    and "screen_x s = 79" and "screen_y s = 24"
  shows "\<exists>s1 s2. prout c s = Some s1 \<and> backspace s1 = Some s2 \<and>
    grid (phys s1) VIDEO 79 23 = c \<and> grid (phys s2) VIDEO 79 23 = space \<and>
    screen_x s2 = 79 \<and> screen_y s2 = 24"
proof -
  obtain s1 where s1: "prout c s = Some s1" "line_inv s1" "count s1 = count s + 1"
    using prout_stores [OF assms(1,3), of c] by auto
  have scr: "screen_of s1 = screen_echo c (screen_of s)"
    and vd: "vd_synced s1 \<or> vd_x s1 = 0 \<and> vd_y s1 = 25"
    using prout_echo [OF assms(1-4)] s1(1) by auto
  have s1': "grid (phys s1) VIDEO 79 23 = c" "nat (screen_x s1) = 0" "nat (screen_y s1) = 24"
    using scr assms(4-6) by (auto simp: screen_of_def)
  have "screen_x s1 = 0" "screen_y s1 = 24"
    using s1'(2,3) s1(2) by (auto simp: line_inv_def screen_ok_def)
  moreover have "vd_x s1 = 0" "vd_y s1 = 25"
    using prout_after_scroll [OF assms(1,3) assms(4)] s1(1) assms(2,5,6) by (auto simp: vd_synced_def)
  moreover have "0 < count s1" using s1(3) assms(1) by (simp add: line_inv_def)
  ultimately obtain s2 where s2: "backspace s1 = Some s2" "screen_x s2 = 79" "screen_y s2 = 24"
    "grid (phys s2) VIDEO = (grid (phys s1) VIDEO)(79 := (grid (phys s1) VIDEO 79)(23 := space))"
    using backspace_after_scroll [OF s1(2)] by blast
  then show ?thesis using s1(1) s1'(1) by auto
qed

theorem backspace_misplaced_after_scroll_witness:
  "\<exists>s1 s2. prout 0x61 (console_bss\<lparr>screen_x := 79, vd_x := 79, screen_y := 24, vd_y := 24\<rparr>) = Some s1 \<and>
    backspace s1 = Some s2 \<and> screen_y s2 = 24 \<and> grid (phys s1) VIDEO 79 23 = 0x61"
proof -
  let ?s = "console_bss\<lparr>screen_x := 79, vd_x := 79, screen_y := 24, vd_y := 24\<rparr>"
  have "line_inv ?s" "vd_synced ?s" "count ?s < 128"
    using console_bss_keyboard by (auto simp: line_inv_def screen_ok_def vd_synced_def)
  then show ?thesis
    using backspace_misplaced_after_scroll [of ?s "0x61"] by (auto simp: newline_def)
qed

end
