(* ===== verification/Vmem.thy ===== *)
theory Vmem
  imports Paging Lib_Mem
begin

text \<open>
  Memory as the running code addresses it.  The kernel's own addresses are mapped to
  themselves (\<open>paging_initialize_map\<close> in \<open>Paging\<close>); the 4 MB user window at 128 MB is
  mapped to the frame in entry 32 of the page directory.  \<open>vmem\<close> reads through this
  mapping, \<open>set_vmem\<close> writes a changed view back to physical memory.
\<close>

definition user_frame :: "'a paging_scheme \<Rightarrow> u32" where
  "user_frame s = push_bit 22 (drop_bit 22 (page_directory s 32))"

definition in_frame :: "u32 \<Rightarrow> u32 \<Rightarrow> bool" where
  "in_frame f pa \<longleftrightarrow> unat (pa - f) < 4194304"

definition vaddr :: "'a paging_scheme \<Rightarrow> u32 \<Rightarrow> u32" where
  "vaddr s va = (if in_user_window va then user_frame s + (va - 0x8000000) else va)"

definition vmem :: "'a paging_scheme \<Rightarrow> mem" where
  "vmem s va = phys s (vaddr s va)"

definition set_vmem :: "mem \<Rightarrow> 'a paging_scheme \<Rightarrow> 'a paging_scheme" where
  "set_vmem m s = s\<lparr>phys := (\<lambda>pa.
     if in_frame (user_frame s) pa then m (0x8000000 + (pa - user_frame s))
     else if in_user_window pa then phys s pa else m pa)\<rparr>"

text \<open>The frame of a program, as the loader and the scheduler enter it.\<close>

definition frame_of :: "u32 \<Rightarrow> u32" where
  "frame_of n = (n + 2) * 0x400000"

lemma user_frame_load: "user_frame (map_to_user_phy n a 0x400000 s) = frame_of n"
  by (simp only: user_frame_def map_to_user_phy_state fun_upd_same frame_of_def big_page_base)

lemma in_user_window_offset: "in_user_window va \<longleftrightarrow> unat (va - 0x8000000) < 4194304"
proof
  assume "in_user_window va"
  then show "unat (va - 0x8000000) < 4194304"
    by (auto simp: in_user_window_def word_le_nat_alt word_less_nat_alt unat_sub)
next
  assume *: "unat (va - 0x8000000) < 4194304"
  have "\<not> unat va < 134217728"
  proof
    assume "unat va < 134217728"
    then have "unat (va - 0x8000000) = unat va + 4294967296 - 134217728"
      using unat_diff_of_nat [of 134217728 va] by simp
    then show False using * by simp
  qed
  then show "in_user_window va"
    using * unat_diff_of_nat [of 134217728 va]
    by (simp add: in_user_window_def word_le_nat_alt word_less_nat_alt)
qed

lemma in_frame_window: "in_user_window va \<Longrightarrow> in_frame f (f + (va - 0x8000000))"
  by (simp add: in_frame_def in_user_window_offset)

text \<open>The user window sees what was written through it.\<close>

lemma vmem_set_window:
  "in_user_window va \<Longrightarrow> vmem (set_vmem m s) va = m va"
  using in_frame_window [of va "user_frame s"]
  by (simp add: vmem_def vaddr_def set_vmem_def user_frame_def)

lemma vmem_set_kernel:
  "\<not> in_user_window va \<Longrightarrow> \<not> in_frame (user_frame s) va \<Longrightarrow> vmem (set_vmem m s) va = m va"
  by (simp add: vmem_def vaddr_def set_vmem_def user_frame_def)

text \<open>A physical byte changes only when the view changed at the address that maps to it.\<close>

lemma set_vmem_frame:
  assumes "in_user_window (0x8000000 + (pa - user_frame s)) \<Longrightarrow>
      in_frame (user_frame s) pa \<Longrightarrow> m (0x8000000 + (pa - user_frame s)) = vmem s (0x8000000 + (pa - user_frame s))"
    and "\<not> in_frame (user_frame s) pa \<Longrightarrow> \<not> in_user_window pa \<Longrightarrow> m pa = vmem s pa"
  shows "phys (set_vmem m s) pa = phys s pa"
proof (cases "in_frame (user_frame s) pa")
  case True
  then have "in_user_window (0x8000000 + (pa - user_frame s))"
    by (simp add: in_user_window_offset in_frame_def)
  then show ?thesis
    using assms(1) True by (simp add: set_vmem_def vmem_def vaddr_def)
next
  case False
  then show ?thesis using assms(2) by (simp add: set_vmem_def vmem_def vaddr_def)
qed

lemma set_vmem_same: "set_vmem (vmem s) s = s"
proof -
  have "phys (set_vmem (vmem s) s) = phys s"
    by (rule ext, rule set_vmem_frame) simp_all
  then show ?thesis by (simp add: set_vmem_def)
qed

text \<open>Writing a block inside the user window changes only the frame behind it.\<close>

lemma set_vmem_block:
  assumes "\<And>i. i < n \<Longrightarrow> in_user_window (a + of_nat i)"
    and "\<not> in_frame (user_frame s) pa"
  shows "phys (set_vmem (overlay (vmem s) a n f) s) pa = phys s pa"
proof (rule set_vmem_frame)
  assume "\<not> in_user_window pa"
  then have "\<not> unat (pa - a) < n"
    using assms(1) [of "unat (pa - a)"] by auto
  then show "overlay (vmem s) a n f pa = vmem s pa" by (rule overlay_outside)
qed (use assms(2) in simp)

lemma set_vmem_more [frame_simps]:
  "page_directory (set_vmem m s) = page_directory s"
  "first_page_table (set_vmem m s) = first_page_table s"
  "user_frame (set_vmem m s) = user_frame s" "paging.more (set_vmem m s) = paging.more s"
  "io (set_vmem m s) = io s" "intr (set_vmem m s) = intr s"
  by (simp_all add: set_vmem_def user_frame_def)

end
