(* ===== verification/Terminal.thy ===== *)
theory Terminal
  imports Keyboard Vmem
begin

text \<open>
  The terminal driver (\<open>terminal.c\<close>): the three terminal structures, reading a line, writing
  to the screen or to the page of a terminal that is not shown, and the two halves of a
  terminal switch, saving the shown terminal and bringing another one back.  The switch
  itself may start a shell and is in \<open>Key_Handler\<close>.

  Indices into \<open>terminals\<close> outside its three elements are \<open>None\<close>.
\<close>

abbreviation "screen_memeory \<equiv> (0xB8000 :: u32)"
abbreviation "onepage \<equiv> (0x1000 :: u32)"

text \<open>\<open>for (i = 0; i < n; i++) arr[i] = NULL\<close>.\<close>

fun clear_array :: "u8 list \<Rightarrow> nat \<Rightarrow> nat \<Rightarrow> u8 list option" where
  "clear_array xs i 0 = Some xs"
| "clear_array xs i (Suc k) =
    (if i < length xs then clear_array (xs[i := 0]) (Suc i) k else None)"

lemma clear_array_some:
  "i + k \<le> length xs \<Longrightarrow> clear_array xs i k = Some (take i xs @ replicate k 0 @ drop (i + k) xs)"
proof (induction k arbitrary: xs i)
  case (Suc k)
  then have "clear_array xs i (Suc k) = Some (take (Suc i) (xs[i := 0]) @ replicate k 0 @ drop (Suc i + k) (xs[i := 0]))"
    by simp
  moreover have "take (Suc i) (xs[i := 0]) = take i xs @ [0]"
    using Suc.prems by (simp add: take_Suc_conv_app_nth)
  ultimately show ?case by simp
qed simp

lemma clear_array_length: "clear_array xs i k = Some ys \<Longrightarrow> length ys = length xs"
  by (induction k arbitrary: xs i) (auto split: if_splits)

text \<open>\<open>terminals[current_id - 1]\<close>.\<close>

definition cur_ix :: "'a console_scheme \<Rightarrow> nat option" where
  "cur_ix s = term_ix s (current_id s - 1)"

subsection \<open>Initialisation\<close>

definition init_one :: "nat \<Rightarrow> 'a console_scheme \<Rightarrow> 'a console_scheme option" where
  "init_one i s =
    do { k \<leftarrow> term_ix s (int i);
         let s = upd_term k (\<lambda>t. t\<lparr>t_open := 0, tem_num := of_nat i + 1, t_screen_x := 0, t_screen_y := 0,
                   t_cursor_x := 0, t_cursor_y := 0, t_buf_index := 0,
                   video_ptr := screen_memeory + (of_nat i + 1) * onepage\<rparr>) s;
         let s = teminial_map_pages (of_nat i + 1) s;
         b \<leftarrow> clear_array (t_buf (terminals s ! k)) 0 128;
         Some (upd_term k (\<lambda>t. t\<lparr>fish := 0, t_buf := b\<rparr>) s) }"

definition terminal_init :: "'a console_scheme \<Rightarrow> 'a console_scheme option" where
  "terminal_init s =
    do { s \<leftarrow> init_one 0 s; s \<leftarrow> init_one 1 s; s \<leftarrow> init_one 2 s;
         k \<leftarrow> term_ix s 0;
         let s = upd_term k (\<lambda>t. t\<lparr>t_open := 1\<rparr>) s;
         Some (s\<lparr>current_id := 1, terminal_buffer_index := 0\<rparr>) }"

subsection \<open>Reading and writing\<close>

definition terminal_open :: "'a console_scheme \<Rightarrow> 'a console_scheme \<times> int" where
  "terminal_open s = (s, 0)"

definition terminal_close :: "'a console_scheme \<Rightarrow> 'a console_scheme \<times> int" where
  "terminal_close s = (s, 0)"

definition clear_buf :: "'a console_scheme \<Rightarrow> 'a console_scheme option" where
  "clear_buf s =
    do { k \<leftarrow> cur_ix s;
         let t = terminals s ! k;
         b \<leftarrow> clear_array (t_buf t) 0 (unat (t_buf_index t));
         Some (upd_term k (\<lambda>t. t\<lparr>t_buf := b, t_buf_index := 0\<rparr>) s) }"

text \<open>\<open>while (buf[i] != NULL) { size++; i++; }\<close>\<close>

function line_size :: "u8 list \<Rightarrow> nat \<Rightarrow> nat option" where
  "line_size b i =
    (if \<not> i < length b then None else if b ! i \<noteq> 0 then line_size b (Suc i) else Some i)"
  by pat_completeness auto
termination
  by (relation "measure (\<lambda>(b, i). length b - i)") auto

declare line_size.simps [simp del]

fun copy_line :: "mem \<Rightarrow> u32 \<Rightarrow> u8 list \<Rightarrow> nat \<Rightarrow> nat \<Rightarrow> mem" where
  "copy_line m buf b i 0 = m"
| "copy_line m buf b i (Suc k) = copy_line (m(buf + of_nat i := b ! i)) buf b (Suc i) k"

text \<open>
  The condition of the wait: no line is ready, or another terminal's process is running.
\<close>

definition read_waits :: "'a console_scheme \<Rightarrow> bool" where
  "read_waits s =
    (case cur_ix s of
       None \<Rightarrow> True
     | Some k \<Rightarrow> read_flag (terminals s ! k) \<noteq> 1 \<or> uint (curr_terminal s) \<noteq> current_id s - 1)"

definition terminal_read ::
  "('a console_scheme \<Rightarrow> 'a console_scheme option) list \<Rightarrow> u32 \<Rightarrow> 'a console_scheme \<Rightarrow>
    ('a console_scheme \<times> int) option" where
  "terminal_read env buf s =
    do { let s = sti s;
         s \<leftarrow> spin_while read_waits env s;
         let s = cli s;
         k \<leftarrow> cur_ix s;
         size \<leftarrow> line_size (t_buf (terminals s ! k)) 0;
         let s = set_vmem (copy_line (vmem s) buf (t_buf (terminals s ! k)) 0 size) s;
         s \<leftarrow> clear_buf s;
         k \<leftarrow> cur_ix s;
         Some (upd_term k (\<lambda>t. t\<lparr>read_flag := 0\<rparr>) s, int size) }"

fun write_putc :: "u32 \<Rightarrow> nat \<Rightarrow> nat \<Rightarrow> 'a console_scheme \<Rightarrow> 'a console_scheme" where
  "write_putc buf i 0 s = s"
| "write_putc buf i (Suc k) s = write_putc buf (Suc i) k (putc (vmem s (buf + of_nat i)) s)"

fun write_putm :: "u32 \<Rightarrow> nat \<Rightarrow> nat \<Rightarrow> 'a console_scheme \<Rightarrow> 'a console_scheme option" where
  "write_putm buf i 0 s = Some s"
| "write_putm buf i (Suc k) s =
    do { s \<leftarrow> putm (vmem s (buf + of_nat i)) s; write_putm buf (Suc i) k s }"

definition terminal_write ::
  "u32 \<Rightarrow> int \<Rightarrow> 'a console_scheme \<Rightarrow> ('a console_scheme \<times> int) option" where
  "terminal_write buf nbytes s =
    (if uint (curr_terminal s) = current_id s - 1 then
       Some (write_putc buf 0 (nat nbytes) s, nbytes)
     else do { s \<leftarrow> write_putm buf 0 (nat nbytes) s; Some (s, nbytes) })"

subsection \<open>From the keyboard\<close>

definition copy_to_teminal :: "u8 list \<Rightarrow> int \<Rightarrow> 'a console_scheme \<Rightarrow> 'a console_scheme option" where
  "copy_to_teminal key_buf index s =
    do { k \<leftarrow> cur_ix s;
         let s = upd_term k (\<lambda>t. t\<lparr>read_flag := 1\<rparr>) s;
         b \<leftarrow> copy_array (t_buf (terminals s ! k)) key_buf 0 (nat index);
         Some (upd_term k (\<lambda>t. t\<lparr>t_buf := b, t_buf_index := t_buf_index t + of_nat (nat index)\<rparr>) s) }"

definition copy_keyboard_buf :: "u8 list \<Rightarrow> int \<Rightarrow> 'a console_scheme \<Rightarrow> 'a console_scheme option" where
  "copy_keyboard_buf kb index s =
    do { b \<leftarrow> copy_array (kbbuf s) kb 0 (nat index); Some (s\<lparr>kbbuf := b\<rparr>) }"

text \<open>\<open>terminal_test\<close> returns at once.\<close>

definition terminal_test :: "int \<Rightarrow> 'a console_scheme \<Rightarrow> 'a console_scheme" where
  "terminal_test y s = s"

definition check_terminal :: "int \<Rightarrow> 'a console_scheme \<Rightarrow> 'a console_scheme" where
  "check_terminal y s = terminal_test y s"

subsection \<open>Saving and restoring a terminal\<close>

text \<open>The first part of every \<open>switch_to_terminal\<close>, up to \<open>clearbufferindex()\<close>.\<close>

definition save_terminal :: "'a console_scheme \<Rightarrow> 'a console_scheme option" where
  "save_terminal s =
    do { let s = s\<lparr>terminal_buffer_index := of_int (get_buf_index s)\<rparr>;
         k \<leftarrow> cur_ix s;
         let s = upd_term k (\<lambda>t. t\<lparr>t_buf_index := terminal_buffer_index s\<rparr>) s;
         let s = s\<lparr>current_x := get_x s\<rparr>;
         let s = s\<lparr>current_y := get_y s\<rparr>;
         let s = s\<lparr>current_cursor_x := current_x s\<rparr>;
         let s = s\<lparr>current_cursor_y := get_y s\<rparr>;
         let s = upd_term k (\<lambda>t. t\<lparr>t_screen_x := of_int (current_x s), t_screen_y := of_int (current_y s),
                   t_cursor_x := of_int (current_cursor_x s), t_cursor_y := of_int (current_cursor_y s)\<rparr>) s;
         b \<leftarrow> clear_array (t_buf (terminals s ! k)) 0 128;
         b \<leftarrow> copy_array b (kbbuf s) 0 (unat (t_buf_index (terminals s ! k)));
         let s = upd_term k (\<lambda>t. t\<lparr>t_buf := b\<rparr>) s;
         let s = s\<lparr>phys := memcpy (phys s) (video_ptr (terminals s ! k)) screen_memeory 0x1000\<rparr>;
         let s = clearbuffuer s;
         Some (clearbufferindex s) }"

text \<open>Bringing terminal \<open>n\<close> back.\<close>

definition restore_terminal :: "int \<Rightarrow> 'a console_scheme \<Rightarrow> 'a console_scheme option" where
  "restore_terminal n s =
    do { let s = s\<lparr>current_id := n\<rparr>;
         k \<leftarrow> cur_ix s;
         let t = terminals s ! k;
         let s = s\<lparr>terminal_buffer_index := t_buf_index t\<rparr>;
         s \<leftarrow> copy_to_keyboard_buf (sint (t_buf_index t)) (t_buf t) s;
         let s = s\<lparr>current_x := sint (t_screen_x t), current_y := sint (t_screen_y t),
                   current_cursor_x := sint (t_cursor_x t), current_cursor_y := sint (t_cursor_y t)\<rparr>;
         let s = s\<lparr>phys := memcpy (phys s) screen_memeory (video_ptr t) 0x1000\<rparr>;
         let s = reset_cursor (current_cursor_x s) (current_cursor_y s) s;
         Some (reset_position (current_x s) (current_y s) s) }"

subsection \<open>Lines\<close>

lemma line_size_walk:
  "i \<le> n \<Longrightarrow> n < length b \<Longrightarrow> (\<And>j. i \<le> j \<Longrightarrow> j < n \<Longrightarrow> b ! j \<noteq> 0) \<Longrightarrow> b ! n = 0 \<Longrightarrow> line_size b i = Some n"
proof (induction "n - i" arbitrary: i)
  case 0
  then show ?case by (subst line_size.simps) simp
next
  case (Suc k)
  then have "line_size b (Suc i) = Some n" by (intro Suc.hyps(1)) simp_all
  then show ?case using Suc by (subst line_size.simps) simp
qed

lemma line_size_line:
  "0 \<notin> set xs \<Longrightarrow> line_size (xs @ 0 # ys) 0 = Some (length xs)"
  by (rule line_size_walk) (auto simp: nth_append, metis nth_mem)

text \<open>A buffer without a NUL makes the loop run off its end.\<close>

lemma line_size_none: "0 \<notin> set (drop i b) \<Longrightarrow> line_size b i = None"
proof (induction "length b - i" arbitrary: i)
  case 0
  then show ?case by (subst line_size.simps) simp
next
  case (Suc k)
  then have i: "i < length b" by simp
  then have d: "drop i b = b ! i # drop (Suc i) b" by (simp add: Cons_nth_drop_Suc)
  have "line_size b (Suc i) = None" using Suc d by (intro Suc.hyps(1)) simp_all
  then show ?case using Suc d i by (subst line_size.simps) simp
qed

lemma copy_line_overlay:
  "i + k \<le> 4294967296 \<Longrightarrow> copy_line m buf b i k = overlay m (buf + of_nat i) k (\<lambda>j. b ! (i + j))"
proof (induction k arbitrary: m i)
  case (Suc k)
  have a: "buf + of_nat (Suc i) = buf + of_nat i + 1" by simp
  have "copy_line m buf b i (Suc k) =
      overlay (m(buf + of_nat i := b ! i)) (buf + of_nat i + 1) k (\<lambda>j. b ! (Suc i + j))"
    using Suc.IH [of "Suc i" "m(buf + of_nat i := b ! i)"] Suc.prems
    by (simp only: copy_line.simps a)
  also have "\<dots> = overlay m (buf + of_nat i) (Suc k) (\<lambda>j. b ! (i + j))"
    using Suc.prems by (subst overlay_step) (auto intro!: overlay_cong split: nat.split)
  finally show ?case .
qed simp

lemma cur_ix_upd [simp]: "cur_ix (upd_term k f s) = cur_ix s"
  by (simp add: cur_ix_def term_ix_def upd_term_def)

lemma cur_ix_less: "cur_ix s = Some k \<Longrightarrow> k < length (terminals s)"
  by (auto simp: cur_ix_def term_ix_def split: if_splits)

lemma upd_term_nth [simp]:
  "k < length (terminals s) \<Longrightarrow> terminals (upd_term k f s) ! k = f (terminals s ! k)"
  "j \<noteq> k \<Longrightarrow> terminals (upd_term k f s) ! j = terminals s ! j"
  "length (terminals (upd_term k f s)) = length (terminals s)"
  by (simp_all add: upd_term_def)

lemma upd_term_twice:
  "k < length (terminals s) \<Longrightarrow> upd_term k f (upd_term k g s) = upd_term k (\<lambda>t. f (g t)) s"
  by (simp add: upd_term_def)

lemma set_vmem_terminals [frame_simps]:
  "terminals (set_vmem m s) = terminals s" "current_id (set_vmem m s) = current_id s"
  "curr_terminal (set_vmem m s) = curr_terminal s"
  by (simp_all add: set_vmem_def)

lemma vmem_upd_term [simp]: "vmem (upd_term k f s) = vmem s" "vmem (s\<lparr>intr := b\<rparr>) = vmem s"
  by (simp_all add: vmem_def vaddr_def upd_term_def user_frame_def fun_eq_iff)

text \<open>A terminal with a complete line in its buffer, whose process is running.\<close>

definition line_ready :: "'a console_scheme \<Rightarrow> nat \<Rightarrow> u8 list \<Rightarrow> bool" where
  "line_ready s k xs \<longleftrightarrow> cur_ix s = Some k \<and> read_flag (terminals s ! k) = 1 \<and>
     uint (curr_terminal s) = current_id s - 1 \<and> 0 \<notin> set xs \<and> length xs < 128 \<and>
     t_buf (terminals s ! k) = xs @ replicate (128 - length xs) 0 \<and>
     t_buf_index (terminals s ! k) = of_nat (length xs)"

lemma terminal_read_ready:
  assumes r: "line_ready s k xs"
  shows "terminal_read env buf s =
    Some (upd_term k (\<lambda>t. t\<lparr>t_buf := replicate 128 0, t_buf_index := 0, read_flag := 0\<rparr>)
       (set_vmem (overlay (vmem s) buf (length xs) (\<lambda>j. xs ! j)) (s\<lparr>intr := False\<rparr>)), int (length xs))"
proof -
  have k: "cur_ix s = Some k" "k < length (terminals s)"
    using r cur_ix_less by (auto simp: line_ready_def)
  have len: "length xs < 128" using r by (simp add: line_ready_def)
  have nowait: "\<not> read_waits (sti s)"
    using r k by (simp add: read_waits_def cur_ix_def term_ix_def sti_def line_ready_def)
  have spin: "spin_while read_waits env (sti s) = Some (sti s)"
    using nowait by (cases env) simp_all
  have rep: "replicate (128 - length xs) 0 = 0 # replicate (127 - length xs) (0 :: u8)"
  proof -
    have "128 - length xs = Suc (127 - length xs)" using len by simp
    then show ?thesis by (simp only: replicate_Suc)
  qed
  have size: "line_size (t_buf (terminals s ! k)) 0 = Some (length xs)"
    using r line_size_line [of xs "replicate (127 - length xs) 0"] by (simp add: line_ready_def rep)
  have copy: "copy_line (vmem s) buf (t_buf (terminals s ! k)) 0 (length xs) =
      overlay (vmem s) buf (length xs) (\<lambda>j. xs ! j)"
    using r len by (simp add: copy_line_overlay line_ready_def)
      (auto intro!: overlay_cong simp: nth_append)
  have clr: "clear_array (t_buf (terminals s ! k)) 0 (unat (t_buf_index (terminals s ! k))) =
      Some (replicate 128 0)"
    using r len by (simp add: line_ready_def clear_array_some unat_of_nat32 replicate_add [symmetric])
  define s1 where "s1 = set_vmem (overlay (vmem s) buf (length xs) (\<lambda>j. xs ! j)) (s\<lparr>intr := False\<rparr>)"
  have s1: "terminals s1 = terminals s" "cur_ix s1 = Some k"
    using k(1) by (simp_all add: s1_def frame_simps cur_ix_def term_ix_def)
  have "clear_buf s1 = Some (upd_term k (\<lambda>t. t\<lparr>t_buf := replicate 128 0, t_buf_index := 0\<rparr>) s1)"
    using clr by (simp add: clear_buf_def s1)
  moreover have "cli (sti s) = s\<lparr>intr := False\<rparr>" by (simp add: cli_def sti_def)
  moreover have "cur_ix (s\<lparr>intr := False\<rparr>) = Some k" using k(1) by (simp add: cur_ix_def term_ix_def)
  ultimately show ?thesis
    using k s1 size copy
    by (simp add: terminal_read_def spin s1_def [symmetric] upd_term_twice)
qed

subsection \<open>Output to a terminal that is not shown\<close>

definition term_screen :: "u32 \<Rightarrow> nat \<Rightarrow> 'a console_scheme \<Rightarrow> screen" where
  "term_screen p k s = (grid (phys s) p, unat (t_screen_x (terminals s ! k)), unat (t_screen_y (terminals s ! k)))"

definition term_pos_ok :: "nat \<Rightarrow> 'a console_scheme \<Rightarrow> bool" where
  "term_pos_ok k s \<longleftrightarrow> k < length (terminals s) \<and> t_screen_x (terminals s ! k) < 80 \<and> t_screen_y (terminals s ! k) < 25"

text \<open>Memory and terminals that output to page \<open>p\<close> of terminal \<open>k\<close> leaves alone.\<close>

definition same_besides :: "u32 \<Rightarrow> nat \<Rightarrow> 'a console_scheme \<Rightarrow> 'a console_scheme \<Rightarrow> bool" where
  "same_besides p k s s' \<longleftrightarrow> (\<forall>a. \<not> unat (a - p) < 4000 \<longrightarrow> phys s' a = phys s a) \<and>
     (\<forall>j. j \<noteq> k \<longrightarrow> terminals s' ! j = terminals s ! j) \<and> length (terminals s') = length (terminals s) \<and>
     screen_x s' = screen_x s \<and> screen_y s' = screen_y s \<and> vd_x s' = vd_x s \<and> vd_y s' = vd_y s \<and>
     keyboardbuf s' = keyboardbuf s \<and> curr_terminal s' = curr_terminal s \<and>
     page_directory s' = page_directory s"

lemma same_besides_trans:
  "same_besides p k s s' \<Longrightarrow> same_besides p k s' s'' \<Longrightarrow> same_besides p k s s''"
  by (simp add: same_besides_def)

lemma upd_term_frame [frame_simps]:
  "phys (upd_term k f s) = phys s" "screen_x (upd_term k f s) = screen_x s"
  "screen_y (upd_term k f s) = screen_y s" "vd_x (upd_term k f s) = vd_x s"
  "vd_y (upd_term k f s) = vd_y s" "keyboardbuf (upd_term k f s) = keyboardbuf s"
  "curr_terminal (upd_term k f s) = curr_terminal s" "current_id (upd_term k f s) = current_id s"
  "page_directory (upd_term k f s) = page_directory s" "kbbuf (upd_term k f s) = kbbuf s"
  "buf_index (upd_term k f s) = buf_index s" "count (upd_term k f s) = count s"
  "current_x (upd_term k f s) = current_x s" "current_y (upd_term k f s) = current_y s"
  "current_cursor_x (upd_term k f s) = current_cursor_x s"
  "current_cursor_y (upd_term k f s) = current_cursor_y s"
  "terminal_buffer_index (upd_term k f s) = terminal_buffer_index s"
  by (simp_all add: upd_term_def)

lemma scroll_outside:
  "\<not> unat (a - p) < 4000 \<Longrightarrow> blank_row p (scroll_rows p m) a = m a"
  by (simp add: scroll_screen overlay_outside)

lemma unat_inc_mod80: "(x :: u32) < 80 \<Longrightarrow> unat ((x + 1) mod 80) = Suc (unat x) mod 80"
  by (simp add: unat_mod word_less_nat_alt unat_word_ariths)

lemma putm_char:
  assumes pre: "printscreen s = Some p" "term_ix s (uint (curr_terminal s)) = Some k" "term_pos_ok k s"
    and c: "\<not> newline c"
  shows "\<exists>s'. putm c s = Some s' \<and> term_screen p k s' = screen_putc c (term_screen p k s) \<and>
    term_pos_ok k s' \<and> same_besides p k s s'"
proof -
  define t where "t = terminals s ! k"
  define x y where "x = unat (t_screen_x t)" and "y = unat (t_screen_y t)"
  have k: "k < length (terminals s)" and xy: "x < 80" "y < 25"
    using pre(3) by (simp_all add: term_pos_ok_def t_def x_def y_def word_less_nat_alt)
  have w: "(of_nat x :: u32) = t_screen_x t" "(of_nat y :: u32) = t_screen_y t"
    by (simp_all add: x_def y_def)
  have nx: "unat ((t_screen_x t + 1) mod 80) = Suc x mod 80"
    using unat_inc_mod80 pre(3) by (simp add: term_pos_ok_def t_def x_def)
  have lt: "(t_screen_x t + 1) mod 80 < 80" by (simp add: word_less_nat_alt nx)
  have d: "(t_screen_x t + 1) mod 80 div 80 = 0"
    using lt by (simp add: word_unat_eq_iff unat_div word_less_nat_alt)
  have ym: "t_screen_y t mod 25 = t_screen_y t"
    using xy(2) by (simp add: word_unat_eq_iff unat_mod y_def)
  let ?m = "(phys s)(p + of_nat (2 * (80 * y + x)) := c, p + of_nat (2 * (80 * y + x)) + 1 := ATTRIB)"
  have "putm c s = Some (upd_term k (\<lambda>u. u\<lparr>t_screen_x := (t_screen_x t + 1) mod 80,
      t_screen_y := t_screen_y u\<rparr>) (s\<lparr>phys := ?m\<rparr>))"
  proof -
    have "upd_term k (\<lambda>u. u\<lparr>t_screen_x := (t_screen_x t + 1) mod 80,
        t_screen_y := (t_screen_y u + (t_screen_x t + 1) mod 80 div 80) mod 25\<rparr>) (s\<lparr>phys := ?m\<rparr>) =
      upd_term k (\<lambda>u. u\<lparr>t_screen_x := (t_screen_x t + 1) mod 80, t_screen_y := t_screen_y u\<rparr>) (s\<lparr>phys := ?m\<rparr>)"
      using ym by (simp add: upd_term_def d t_def)
    then show ?thesis
      using pre(1,2) c by (simp add: putm_def newline_def t_def [symmetric] w Let_def)
  qed
  moreover have "grid ?m p = (grid (phys s) p)(x := (grid (phys s) p x)(y := c))"
    by (rule grid_put [OF xy])
  moreover have "?m b = phys s b" if "\<not> unat (b - p) < 4000" for b
    using that cell_lt [OF xy] cell_offset [OF xy] unat_of_nat32 [of "Suc (2 * (80 * y + x))"]
    by (auto simp: add.assoc simp del: of_nat_mult of_nat_add) (simp add: add.commute)
  ultimately show ?thesis
    using k c nx lt pre(3)
    by (auto simp: term_screen_def term_pos_ok_def same_besides_def frame_simps t_def x_def y_def)
qed

lemma putm_newline:
  assumes pre: "printscreen s = Some p" "term_ix s (uint (curr_terminal s)) = Some k" "term_pos_ok k s"
    and c: "newline c"
  shows "\<exists>s'. putm c s = Some s' \<and> term_screen p k s' = screen_putc c (term_screen p k s) \<and>
    term_pos_ok k s' \<and> same_besides p k s s'"
proof (cases "t_screen_y (terminals s ! k) = 24")
  case True
  have k: "k < length (terminals s)" using pre(3) by (simp add: term_pos_ok_def)
  have "putm c s = Some ((upd_term k (\<lambda>t. t\<lparr>t_screen_x := 0, t_screen_y := 24\<rparr>) (keyboard_write s))
      \<lparr>phys := blank_row p (scroll_rows p (phys s))\<rparr>)"
    using pre(1,2) c True by (simp add: putm_def newline_def Let_def keyboard_write_def upd_term_def)
  then show ?thesis
    using k c True
    by (auto simp: term_screen_def term_pos_ok_def same_besides_def keyboard_write_def grid_scroll
        upd_term_def scroll_outside)
next
  case False
  have k: "k < length (terminals s)" using pre(3) by (simp add: term_pos_ok_def)
  have "unat (t_screen_y (terminals s ! k)) \<noteq> 24"
    using False by (simp add: word_unat_eq_iff)
  moreover have "unat (t_screen_y (terminals s ! k) + 1) = Suc (unat (t_screen_y (terminals s ! k)))"
    using pre(3) by (simp add: unat_word_ariths term_pos_ok_def word_less_nat_alt)
  moreover have "putm c s = Some (upd_term k (\<lambda>t. t\<lparr>t_screen_y := t_screen_y t + 1, t_screen_x := 0\<rparr>) s)"
    using pre(1,2) c False by (auto simp: putm_def newline_def)
  ultimately show ?thesis
    using k c pre(3)
    by (auto simp: term_screen_def term_pos_ok_def same_besides_def frame_simps word_less_nat_alt)
qed

lemma putm_refines:
  assumes "printscreen s = Some p" "term_ix s (uint (curr_terminal s)) = Some k" "term_pos_ok k s"
  shows "\<exists>s'. putm c s = Some s' \<and> term_screen p k s' = screen_putc c (term_screen p k s) \<and>
    term_pos_ok k s' \<and> same_besides p k s s'"
  using putm_char [OF assms] putm_newline [OF assms] by blast

lemma putm_pre_kept:
  assumes "same_besides p k s s'" "printscreen s = Some p" "term_ix s (uint (curr_terminal s)) = Some k"
  shows "printscreen s' = Some p" "term_ix s' (uint (curr_terminal s')) = Some k" "vaddr s' = vaddr s"
proof -
  have "printscreen s' = printscreen s" "term_ix s' (uint (curr_terminal s')) = term_ix s (uint (curr_terminal s))"
    using assms(1) by (simp_all add: same_besides_def printscreen_def term_ix_def)
  then show "printscreen s' = Some p" "term_ix s' (uint (curr_terminal s')) = Some k"
    using assms(2,3) by simp_all
  show "vaddr s' = vaddr s"
    using assms(1) by (simp add: same_besides_def vaddr_def user_frame_def fun_eq_iff)
qed

lemma write_putm_fold:
  "printscreen s = Some p \<Longrightarrow> term_ix s (uint (curr_terminal s)) = Some k \<Longrightarrow> term_pos_ok k s \<Longrightarrow>
   \<forall>j<i + n. \<not> unat (vaddr s (buf + of_nat j) - p) < 4000 \<Longrightarrow>
   \<exists>s'. write_putm buf i n s = Some s' \<and>
     term_screen p k s' = fold screen_putc (map (\<lambda>j. vmem s (buf + of_nat j)) [i..<i + n]) (term_screen p k s) \<and>
     same_besides p k s s' \<and> term_pos_ok k s'"
proof (induction n arbitrary: i s)
  case 0
  then show ?case by (simp add: same_besides_def)
next
  case (Suc n)
  let ?c = "vmem s (buf + of_nat i)"
  obtain s1 where s1: "putm ?c s = Some s1" "term_screen p k s1 = screen_putc ?c (term_screen p k s)"
    "term_pos_ok k s1" "same_besides p k s s1"
    using putm_refines [OF Suc.prems(1-3)] by blast
  note kept = putm_pre_kept [OF s1(4) Suc.prems(1,2)]
  have bytes: "vmem s1 (buf + of_nat j) = vmem s (buf + of_nat j)" if "j < i + Suc n" for j
    using s1(4) Suc.prems(4) that by (simp add: vmem_def kept(3) same_besides_def)
  obtain s2 where s2: "write_putm buf (Suc i) n s1 = Some s2"
    "term_screen p k s2 = fold screen_putc (map (\<lambda>j. vmem s1 (buf + of_nat j)) [Suc i..<Suc i + n])
      (term_screen p k s1)" "same_besides p k s1 s2" "term_pos_ok k s2"
    using Suc.IH [OF kept(1,2) s1(3), of "Suc i"] Suc.prems(4) by (auto simp: kept(3))
  have m: "map (\<lambda>j. vmem s1 (buf + of_nat j)) [Suc i..<Suc i + n] =
      map (\<lambda>j. vmem s (buf + of_nat j)) [Suc i..<Suc i + n]"
    by (rule map_cong [OF refl], rule bytes) auto
  have "[i..<i + Suc n] = i # [Suc i..<Suc i + n]" by (simp add: upt_conv_Cons)
  then show ?case
    using s1 s2(1,4) s2(2) [unfolded m] same_besides_trans [OF s1(4) s2(3)]
    by (simp del: upt_Suc of_nat_Suc)
qed

lemma putc_vaddr: "vaddr (putc c s) = vaddr s"
  by (simp add: vaddr_def user_frame_def frame_simps fun_eq_iff)

lemma write_putc_fold:
  "screen_ok s \<Longrightarrow> \<forall>j<i + n. \<not> in_video (vaddr s (buf + of_nat j)) \<Longrightarrow>
    write_putc buf i n s = fold putc (map (\<lambda>j. vmem s (buf + of_nat j)) [i..<i + n]) s"
proof (induction n arbitrary: i s)
  case (Suc n)
  let ?c = "vmem s (buf + of_nat i)"
  have bytes: "vmem (putc ?c s) (buf + of_nat j) = vmem s (buf + of_nat j)" if "j < i + Suc n" for j
    using Suc.prems that by (simp add: vmem_def putc_vaddr putc_phys_frame)
  have "write_putc buf (Suc i) n (putc ?c s) =
      fold putc (map (\<lambda>j. vmem (putc ?c s) (buf + of_nat j)) [Suc i..<Suc i + n]) (putc ?c s)"
    using Suc.prems by (intro Suc.IH) (simp_all add: putc_screen_ok putc_vaddr)
  also have "map (\<lambda>j. vmem (putc ?c s) (buf + of_nat j)) [Suc i..<Suc i + n] =
      map (\<lambda>j. vmem s (buf + of_nat j)) [Suc i..<Suc i + n]"
    by (rule map_cong [OF refl], rule bytes) auto
  finally have "write_putc buf (Suc i) n (putc ?c s) =
      fold putc (map (\<lambda>j. vmem s (buf + of_nat j)) [Suc i..<Suc i + n]) (putc ?c s)" .
  moreover have "[i..<i + Suc n] = i # [Suc i..<Suc i + n]" by (simp add: upt_conv_Cons)
  ultimately show ?case by (simp del: upt_Suc of_nat_Suc)
qed simp

subsection \<open>A typed line reaches the reader\<close>

definition term_empty :: "'a console_scheme \<Rightarrow> nat \<Rightarrow> bool" where
  "term_empty s k \<longleftrightarrow> cur_ix s = Some k \<and> t_buf (terminals s ! k) = replicate 128 0 \<and>
     t_buf_index (terminals s ! k) = 0"

lemma copy_to_teminal_line:
  assumes "line_inv s" "term_empty s k"
  shows "\<exists>s'. copy_to_teminal (keyboardbuf s) (buf_index s) s = Some s' \<and>
    read_flag (terminals s' ! k) = 1 \<and> cur_ix s' = Some k \<and>
    t_buf (terminals s' ! k) = typed s @ replicate (128 - length (typed s)) 0 \<and>
    t_buf_index (terminals s' ! k) = of_nat (length (typed s)) \<and>
    curr_terminal s' = curr_terminal s \<and> current_id s' = current_id s"
proof -
  have k: "cur_ix s = Some k" "k < length (terminals s)"
    using assms(2) cur_ix_less by (auto simp: term_empty_def)
  have n: "nat (buf_index s) \<le> 128" "nat (buf_index s) = length (typed s)"
    using assms(1) typed_length [OF assms(1)] by (auto simp: line_inv_def)
  have "copy_array (replicate 128 0) (keyboardbuf s) 0 (nat (buf_index s)) =
      Some (typed s @ replicate (128 - length (typed s)) 0)"
    using assms(1) n by (simp add: copy_array_some line_inv_def typed_def)
  then show ?thesis
    using k assms(2) n
    by (auto simp: copy_to_teminal_def term_empty_def upd_term_twice frame_simps)
qed

subsection \<open>Saving and restoring\<close>

text \<open>Terminal \<open>k\<close> has its own video page and the arrays have their sizes.\<close>

definition term_page :: "nat \<Rightarrow> u32" where
  "term_page k = 0xB9000 + of_nat k * 0x1000"

definition terms_ok :: "'a console_scheme \<Rightarrow> bool" where
  "terms_ok s \<longleftrightarrow> length (terminals s) = 3 \<and> length (kbbuf s) = 128 \<and> length (keyboardbuf s) = 128 \<and>
     (\<forall>k<3. video_ptr (terminals s ! k) = term_page k \<and> length (t_buf (terminals s ! k)) = 128)"

lemma page_sep:
  assumes "k < 3"
  shows "sep (term_page k) 4096 VIDEO 4096"
proof -
  have "k = 0 \<or> k = 1 \<or> k = 2" using assms by linarith
  then show ?thesis by (auto simp: term_page_def sep_def)
qed

lemma pages_sep:
  assumes "k < 3" "j < 3" "k \<noteq> j"
  shows "sep (term_page k) 4096 (term_page j) 4096"
proof -
  have "k = 0 \<or> k = 1 \<or> k = 2" "j = 0 \<or> j = 1 \<or> j = 2" using assms by linarith+
  then show ?thesis using assms(3) by (auto simp: term_page_def sep_def)
qed

text \<open>What \<open>save_terminal\<close> stores for a screen position and a line of \<open>n\<close> characters.\<close>

definition saved_as :: "terminal \<Rightarrow> u8 list \<Rightarrow> int \<Rightarrow> int \<Rightarrow> bool" where
  "saved_as t line x y \<longleftrightarrow> t_buf_index t = of_nat (length line) \<and>
     t_buf t = line @ replicate (128 - length line) 0 \<and>
     t_screen_x t = of_int x \<and> t_screen_y t = of_int y \<and> t_cursor_x t = of_int x \<and> t_cursor_y t = of_int y"

lemma fold_clear: "length b = n \<Longrightarrow> fold (\<lambda>x b. b[x := 0]) [0..<n] b = replicate n (0 :: u8)"
proof -
  have "k \<le> length b \<Longrightarrow> fold (\<lambda>x b. b[x := 0]) [0..<k] b = replicate k 0 @ drop k b" for k
    by (induction k) (auto simp: list_update_append Cons_nth_drop_Suc [symmetric] replicate_append_same
        simp del: replicate_Suc simp flip: replicate_Suc)
  then show "length b = n \<Longrightarrow> fold (\<lambda>x b. b[x := 0]) [0..<n] b = replicate n 0" by simp
qed

lemma clearbuffuer_buf: "length (keyboardbuf s) = 128 \<Longrightarrow> clearbuffuer s = s\<lparr>keyboardbuf := replicate 128 0\<rparr>"
  unfolding clearbuffuer_def by (simp only: fold_clear)

lemma terms_okD:
  "terms_ok s \<Longrightarrow> k < 3 \<Longrightarrow> video_ptr (terminals s ! k) = term_page k \<and> length (t_buf (terminals s ! k)) = 128"
  by (simp add: terms_ok_def)

lemma save_terminal_saves:
  assumes ok: "terms_ok s" "cur_ix s = Some k" and n: "0 \<le> buf_index s" "buf_index s \<le> 128"
  shows "\<exists>s'. save_terminal s = Some s' \<and> terms_ok s' \<and> current_id s' = current_id s \<and>
    saved_as (terminals s' ! k) (take (nat (buf_index s)) (kbbuf s)) (screen_x s) (screen_y s) \<and>
    phys s' = overlay (phys s) (term_page k) 4096 (\<lambda>i. phys s (VIDEO + of_nat i)) \<and>
    keyboardbuf s' = replicate 128 0 \<and> buf_index s' = 0 \<and> kbbuf s' = kbbuf s \<and>
    screen_x s' = screen_x s \<and> screen_y s' = screen_y s \<and>
    (\<forall>j. j \<noteq> k \<longrightarrow> terminals s' ! j = terminals s ! j) \<and> t_open (terminals s' ! k) = t_open (terminals s ! k) \<and>
    count s' = count s \<and> vd_x s' = vd_x s \<and> vd_y s' = vd_y s"
proof -
  have k: "k < length (terminals s)" "k < 3" using cur_ix_less [OF ok(2)] ok(1) by (simp_all add: terms_ok_def)
  define line where "line = take (nat (buf_index s)) (kbbuf s)"
  have len: "length line = nat (buf_index s)" "length line \<le> 128"
    using ok(1) n by (auto simp: line_def terms_ok_def)
  have idx: "(of_int (buf_index s) :: u32) = of_nat (length line)"
    using n(1) by (simp add: len(1))
  have u: "unat (of_nat (length line) :: u32) = length line"
    using len(2) by (intro unat_of_nat32) simp
  have bufs: "video_ptr (terminals s ! k) = term_page k" "length (t_buf (terminals s ! k)) = 128"
    "length (keyboardbuf s) = 128" "length (kbbuf s) = 128"
    using ok(1) k(2) by (simp_all add: terms_ok_def)
  have clr: "clear_array (t_buf (terminals s ! k)) 0 128 = Some (replicate 128 0)"
    using bufs by (simp add: clear_array_some)
  have cp: "copy_array (replicate 128 0) (kbbuf s) 0 (length line) = Some (line @ replicate (128 - length line) 0)"
    using len bufs by (simp add: copy_array_some line_def)
  have mem: "memcpy (phys s) (term_page k) VIDEO 0x1000 =
      overlay (phys s) (term_page k) 4096 (\<lambda>i. phys s (VIDEO + of_nat i))"
    using cpy.copy_overlay [of "term_page k" "0x1000" VIDEO] page_sep [OF k(2)] by simp
  define t' where "t' = (terminals s ! k)\<lparr>t_buf_index := of_nat (length line), t_screen_x := of_int (screen_x s),
    t_screen_y := of_int (screen_y s), t_cursor_x := of_int (screen_x s), t_cursor_y := of_int (screen_y s),
    t_buf := line @ replicate (128 - length line) 0\<rparr>"
  have "save_terminal s = Some (s\<lparr>terminal_buffer_index := of_nat (length line),
      terminals := (terminals s)[k := t'], current_x := screen_x s, current_y := screen_y s,
      current_cursor_x := screen_x s, current_cursor_y := screen_y s,
      phys := overlay (phys s) (term_page k) 4096 (\<lambda>i. phys s (VIDEO + of_nat i)),
      keyboardbuf := replicate 128 0, buf_index := 0\<rparr>)"
  proof -
    have ci: "cur_ix (s\<lparr>terminal_buffer_index := b\<rparr>) = Some k" for b
      using ok(2) by (simp add: cur_ix_def term_ix_def)
    show ?thesis
      unfolding save_terminal_def get_buf_index_def get_x_def get_y_def Let_def
      using k bufs
      by (simp add: ci upd_term_def idx clr u cp mem clearbuffuer_buf clearbufferindex_def t'_def)
  qed
  moreover have "saved_as t' line (screen_x s) (screen_y s)" "t_open t' = t_open (terminals s ! k)"
    by (simp_all add: saved_as_def t'_def)
  moreover have "video_ptr t' = term_page k" "length (t_buf t') = 128"
    using bufs len by (simp_all add: t'_def)
  ultimately show ?thesis
    using ok(1) k by (auto simp: terms_ok_def line_def nth_list_update)
qed

lemma restore_terminal_restores:
  assumes ok: "terms_ok s" "0 < n" "n \<le> 3"
    and saved: "saved_as (terminals s ! nat (n - 1)) line x y" "length line \<le> 128"
    and xy: "0 \<le> x" "x < 80" "0 \<le> y" "y < 25"
  shows "\<exists>s'. restore_terminal n s = Some s' \<and> terms_ok s' \<and> current_id s' = n \<and>
    terminals s' = terminals s \<and> screen_x s' = x \<and> screen_y s' = y \<and>
    buf_index s' = int (length line) \<and> take (length line) (keyboardbuf s') = line \<and>
    phys s' = overlay (phys s) VIDEO 4096 (\<lambda>i. phys s (term_page (nat (n - 1)) + of_nat i)) \<and>
    count s' = count s \<and> vd_x s' = vd_x s \<and> vd_y s' = vd_y s \<and> kbbuf s' = kbbuf s"
proof -
  define k where "k = nat (n - 1)"
  have k: "k < 3" using ok(2,3) by (simp add: k_def)
  define t where "t = terminals s ! k"
  have t: "video_ptr t = term_page k" "length (t_buf t) = 128"
    using ok(1) k by (simp_all add: t_def terms_ok_def)
  have idx: "sint (t_buf_index t) = int (length line)"
    using saved by (simp add: saved_as_def t_def k_def sint_of_nat32)
  have pos: "sint (of_int v :: u32) = v" if "0 \<le> v" "v < 80" for v
  proof -
    have "sint (of_nat (nat v) :: u32) = int (nat v)" using that by (intro sint_of_nat32) simp
    then show ?thesis using that by simp
  qed
  have sxy: "sint (t_screen_x t) = x" "sint (t_screen_y t) = y" "sint (t_cursor_x t) = x" "sint (t_cursor_y t) = y"
    using saved xy pos by (simp_all add: saved_as_def t_def k_def)
  have line: "take (length line) (t_buf t) = line"
    using saved by (simp add: saved_as_def t_def k_def)
  have kb: "length (keyboardbuf s) = 128" using ok(1) by (simp add: terms_ok_def)
  have cp: "copy_array (keyboardbuf s) (t_buf t) 0 (length line) = Some (line @ drop (length line) (keyboardbuf s))"
    using t(2) kb saved(2) by (simp add: copy_array_some line)
  have mem: "memcpy (phys s) VIDEO (term_page k) 0x1000 =
      overlay (phys s) VIDEO 4096 (\<lambda>i. phys s (term_page k + of_nat i))"
    using cpy.copy_overlay [of VIDEO "0x1000" "term_page k"] sep_sym [OF page_sep [OF k]] by simp
  have "term_ix (s\<lparr>current_id := n\<rparr>) (n - 1) = Some k"
    using ok by (simp add: term_ix_def k_def terms_ok_def)
  then have "restore_terminal n s = Some (reset_position x y (reset_cursor x y (s\<lparr>current_id := n,
      terminal_buffer_index := t_buf_index t, keyboardbuf := line @ drop (length line) (keyboardbuf s),
      buf_index := int (length line), current_x := x, current_y := y, current_cursor_x := x, current_cursor_y := y,
      phys := overlay (phys s) VIDEO 4096 (\<lambda>i. phys s (term_page k + of_nat i))\<rparr>)))"
    by (simp add: restore_terminal_def cur_ix_def t_def [symmetric] idx copy_to_keyboard_buf_def cp sxy t mem Let_def frame_simps)
  then show ?thesis
    using ok(1) kb saved(2) by (auto simp: frame_simps terms_ok_def k_def)
qed

text \<open>
  A terminal that was left and comes back shows the same screen with the same cursor and
  holds the same line, whatever happened in between to the screen and the other terminals.
\<close>

lemma leave_and_return:
  assumes "terms_ok s" "cur_ix s = Some k" "0 \<le> buf_index s" "buf_index s \<le> 128" "screen_ok s"
    and "save_terminal s = Some s1"
    and "terms_ok s2" "terminals s2 ! k = terminals s1 ! k"
    and "\<And>i. i < 4096 \<Longrightarrow> phys s2 (term_page k + of_nat i) = phys s1 (term_page k + of_nat i)"
  shows "\<exists>s3. restore_terminal (current_id s) s2 = Some s3 \<and>
    (\<forall>i<4096. phys s3 (VIDEO + of_nat i) = phys s (VIDEO + of_nat i)) \<and>
    screen_x s3 = screen_x s \<and> screen_y s3 = screen_y s \<and> buf_index s3 = buf_index s \<and>
    take (nat (buf_index s)) (keyboardbuf s3) = take (nat (buf_index s)) (kbbuf s) \<and>
    count s3 = count s2 \<and> vd_x s3 = vd_x s2 \<and> vd_y s3 = vd_y s2 \<and> terms_ok s3"
proof -
  let ?line = "take (nat (buf_index s)) (kbbuf s)"
  have id: "0 < current_id s" "current_id s \<le> 3" "nat (current_id s - 1) = k"
    using assms(1,2) by (auto simp: cur_ix_def term_ix_def terms_ok_def split: if_splits)
  then have k: "k < 3" by linarith
  obtain s1' where s1: "save_terminal s = Some s1'" "saved_as (terminals s1' ! k) ?line (screen_x s) (screen_y s)"
    "phys s1' = overlay (phys s) (term_page k) 4096 (\<lambda>i. phys s (VIDEO + of_nat i))"
    using save_terminal_saves [OF assms(1-4)] by blast
  have len: "length ?line = nat (buf_index s)" "length ?line \<le> 128"
    using assms(1,4) by (auto simp: terms_ok_def)
  have saved: "saved_as (terminals s2 ! nat (current_id s - 1)) ?line (screen_x s) (screen_y s)"
    using s1 assms(6,8) id(3) by simp
  obtain s3 where s3: "restore_terminal (current_id s) s2 = Some s3" "screen_x s3 = screen_x s"
    "screen_y s3 = screen_y s" "buf_index s3 = int (length ?line)" "take (length ?line) (keyboardbuf s3) = ?line"
    "phys s3 = overlay (phys s2) VIDEO 4096 (\<lambda>i. phys s2 (term_page k + of_nat i))"
    "count s3 = count s2" "vd_x s3 = vd_x s2" "vd_y s3 = vd_y s2" "terms_ok s3"
    using restore_terminal_restores [OF assms(7) id(1,2) saved len(2)] assms(5) id(3)
    by (auto simp: screen_ok_def)
  have "phys s3 (VIDEO + of_nat i) = phys s (VIDEO + of_nat i)" if "i < 4096" for i
    using that s3(6) assms(6) assms(9) [OF that] s1 by (simp add: overlay_inside)
  then show ?thesis using s3 len assms(3) by (intro exI [of _ s3]) auto
qed

lemma terms_ok_init: "length (terminals s) = 3 \<Longrightarrow> k < 3 \<Longrightarrow> \<exists>k'. term_ix s (int k) = Some k'"
  by (simp add: term_ix_def)

lemma init_one_state:
  assumes "i < length (terminals s)" "length (t_buf (terminals s ! i)) = 128"
  shows "\<exists>s'. init_one i s = Some s' \<and>
    terminals s' = (terminals s)[i := (terminals s ! i)\<lparr>t_open := 0, tem_num := of_nat i + 1, t_screen_x := 0,
      t_screen_y := 0, t_cursor_x := 0, t_cursor_y := 0, t_buf_index := 0,
      video_ptr := screen_memeory + (of_nat i + 1) * onepage, fish := 0, t_buf := replicate 128 0\<rparr>] \<and>
    keyboardbuf s' = keyboardbuf s \<and> kbbuf s' = kbbuf s"
  using assms
  by (simp add: init_one_def term_ix_def upd_term_def teminial_map_pages_def clear_array_some frame_simps
      tlb_flush_def load_cr3_def Let_def)

subsection \<open>Properties\<close>

definition term_fresh :: "terminal \<Rightarrow> bool" where
  "term_fresh t \<longleftrightarrow> t_screen_x t = 0 \<and> t_screen_y t = 0 \<and> t_buf_index t = 0 \<and> fish t = 0 \<and>
     t_buf t = replicate 128 0"

text \<open>Initialising the terminals gives each of the three its own video page, an empty line
  buffer and the position (0,0), opens the first one only and makes it the shown one.\<close>

theorem terminal_init_opens_first:
  assumes "length (terminals s) = 3" "\<forall>k<3. length (t_buf (terminals s ! k)) = 128"
    and "length (kbbuf s) = 128" "length (keyboardbuf s) = 128"
  shows "\<exists>s'. terminal_init s = Some s' \<and> terms_ok s' \<and> current_id s' = 1 \<and>
    (\<forall>k<3. term_fresh (terminals s' ! k) \<and> t_open (terminals s' ! k) = (if k = 0 then 1 else 0))"
proof -
  obtain s1 where s1: "init_one 0 s = Some s1" "terminals s1 = (terminals s)[0 := (terminals s ! 0)\<lparr>t_open := 0,
      tem_num := of_nat 0 + 1, t_screen_x := 0, t_screen_y := 0, t_cursor_x := 0, t_cursor_y := 0, t_buf_index := 0,
      video_ptr := screen_memeory + (of_nat 0 + 1) * onepage, fish := 0, t_buf := replicate 128 0\<rparr>]"
    "keyboardbuf s1 = keyboardbuf s" "kbbuf s1 = kbbuf s"
    using init_one_state [of 0 s] assms by auto
  obtain s2 where s2: "init_one 1 s1 = Some s2" "terminals s2 = (terminals s1)[1 := (terminals s1 ! 1)\<lparr>t_open := 0,
      tem_num := of_nat 1 + 1, t_screen_x := 0, t_screen_y := 0, t_cursor_x := 0, t_cursor_y := 0, t_buf_index := 0,
      video_ptr := screen_memeory + (of_nat 1 + 1) * onepage, fish := 0, t_buf := replicate 128 0\<rparr>]"
    "keyboardbuf s2 = keyboardbuf s" "kbbuf s2 = kbbuf s"
    using init_one_state [of 1 s1] assms s1 by auto
  obtain s3 where s3: "init_one 2 s2 = Some s3" "terminals s3 = (terminals s2)[2 := (terminals s2 ! 2)\<lparr>t_open := 0,
      tem_num := of_nat 2 + 1, t_screen_x := 0, t_screen_y := 0, t_cursor_x := 0, t_cursor_y := 0, t_buf_index := 0,
      video_ptr := screen_memeory + (of_nat 2 + 1) * onepage, fish := 0, t_buf := replicate 128 0\<rparr>]"
    "keyboardbuf s3 = keyboardbuf s" "kbbuf s3 = kbbuf s"
    using init_one_state [of 2 s2] assms s1 s2 by auto
  have n: "length (terminals s3) = 3" using assms s1 s2 s3 by simp
  have ix: "term_ix s3 0 = Some 0" using n by (simp add: term_ix_def)
  have three: "(\<forall>k<3. P k) \<longleftrightarrow> P 0 \<and> P 1 \<and> P (2 :: nat)" for P
    by (auto simp: less_Suc_eq numeral_3_eq_3 numeral_2_eq_2)
  show ?thesis
    unfolding three
    using assms s1 s2 s3 n ix
    by (simp add: terminal_init_def terms_ok_def three term_fresh_def term_page_def upd_term_def)
qed

theorem terminal_init_opens_first_witness:
  "\<exists>s'. terminal_init console_bss = Some s' \<and> terms_ok s' \<and> current_id s' = 1"
proof -
  have "length (terminals console_bss) = 3" "\<forall>k<3. length (t_buf (terminals console_bss ! k)) = 128"
    "length (kbbuf console_bss) = 128" "length (keyboardbuf console_bss) = 128"
    by (simp_all add: console_bss_def console.defs fs.defs fs_bss_def terminal_bss_def terminal.defs)
  from terminal_init_opens_first [OF this] show ?thesis by blast
qed

text \<open>C32: A line typed at the keyboard and ended by Enter reaches the reader: once the keyboard
  handler has copied the line into the terminal, \<open>terminal_read\<close> writes exactly its characters to
  the caller's buffer, returns their number and leaves the line buffer empty.  The line has to be
  shorter than the buffer.\<close>

theorem typed_line_is_read:
  assumes "line_inv s" "term_empty s k" "0 \<notin> set (typed s)" "length (typed s) < 128"
    and "uint (curr_terminal s) = current_id s - 1"
    and "\<forall>j<length (typed s). in_user_window (buf + of_nat j)"
  shows "\<exists>s1 s2. copy_to_teminal (keyboardbuf s) (buf_index s) s = Some s1 \<and>
    terminal_read env buf s1 = Some (s2, int (length (typed s))) \<and>
    (\<forall>j<length (typed s). vmem s2 (buf + of_nat j) = typed s ! j) \<and>
    term_empty s2 k \<and> read_flag (terminals s2 ! k) = 0"
proof -
  obtain s1 where s1: "copy_to_teminal (keyboardbuf s) (buf_index s) s = Some s1" "read_flag (terminals s1 ! k) = 1"
    "cur_ix s1 = Some k" "t_buf (terminals s1 ! k) = typed s @ replicate (128 - length (typed s)) 0"
    "t_buf_index (terminals s1 ! k) = of_nat (length (typed s))"
    "curr_terminal s1 = curr_terminal s" "current_id s1 = current_id s"
    using copy_to_teminal_line [OF assms(1,2)] by blast
  then have "line_ready s1 k (typed s)" using assms by (simp add: line_ready_def)
  from terminal_read_ready [OF this, of env buf]
  obtain s2 where s2: "terminal_read env buf s1 = Some (s2, int (length (typed s)))"
    "s2 = upd_term k (\<lambda>t. t\<lparr>t_buf := replicate 128 0, t_buf_index := 0, read_flag := 0\<rparr>)
       (set_vmem (overlay (vmem s1) buf (length (typed s)) (\<lambda>j. typed s ! j)) (s1\<lparr>intr := False\<rparr>))"
    by blast
  have "vmem s2 (buf + of_nat j) = typed s ! j" if "j < length (typed s)" for j
    using that assms(4,6) by (simp add: s2(2) vmem_set_window overlay_inside)
  moreover have "cur_ix s2 = Some k"
    using s1(3) by (simp add: s2(2)) (simp add: cur_ix_def term_ix_def frame_simps)
  moreover have "terminals s2 ! k = (terminals s1 ! k)\<lparr>t_buf := replicate 128 0, t_buf_index := 0, read_flag := 0\<rparr>"
    using cur_ix_less [OF s1(3)] by (simp add: s2(2) frame_simps)
  ultimately show ?thesis
    using s1(1) s2(1) by (intro exI [of _ s1] exI [of _ s2]) (simp add: term_empty_def)
qed
text \<open>The state of the witnesses: after initialisation, \<open>A\<close> typed.\<close>

definition con_up :: console where
  "con_up = console_bss\<lparr>terminals := map (\<lambda>k. terminal_bss\<lparr>video_ptr := term_page k\<rparr>) [0, 1, 2],
     current_id := 1\<rparr>"

definition con_typed :: console where
  "con_typed = con_up\<lparr>keyboardbuf := 0x41 # replicate 127 0, count := 1, buf_index := 1\<rparr>"

lemma con_up_simps [simp]:
  "terminals con_up = map (\<lambda>k. terminal_bss\<lparr>video_ptr := term_page k\<rparr>) [0, 1, 2]"
  "current_id con_up = 1" "curr_terminal con_up = 0" "screen_x con_up = 0" "screen_y con_up = 0"
  "buf_index con_up = 0" "count con_up = 0" "kbbuf con_up = replicate 128 0"
  "keyboardbuf con_up = replicate 128 0" "phys con_up = (\<lambda>_. 0)" "screen_ok con_up"
  "page_directory con_up = (\<lambda>_. 0)"
  by (simp_all add: con_up_def console_bss_def console.defs fs.defs fs_bss_def paging.defs paging_bss_def
      screen_ok_def)

lemma con_typed_simps [simp]:
  "terminals con_typed = terminals con_up" "current_id con_typed = 1" "curr_terminal con_typed = 0"
  "screen_ok con_typed" "keyboardbuf con_typed = 0x41 # replicate 127 0" "count con_typed = 1"
  "buf_index con_typed = 1"
  by (simp_all add: con_typed_def con_up_def console_bss_def console.defs fs.defs fs_bss_def paging.defs
      paging_bss_def screen_ok_def)

lemma con_up_ok: "terms_ok con_up"
proof -
  have three: "(\<forall>k<3. P k) \<longleftrightarrow> P 0 \<and> P 1 \<and> P (2 :: nat)" for P
    by (auto simp: less_Suc_eq numeral_3_eq_3 numeral_2_eq_2)
  show ?thesis by (simp add: terms_ok_def three terminal_bss_def terminal.defs)
qed

lemma con_up_ix: "cur_ix con_up = Some 0" "cur_ix con_typed = Some 0"
  by (simp_all add: cur_ix_def term_ix_def)

theorem typed_line_is_read_witness:
  "\<exists>s1 s2. copy_to_teminal (keyboardbuf con_typed) 1 con_typed = Some s1 \<and>
    terminal_read [] 0x8000000 s1 = Some (s2, 1) \<and> vmem s2 0x8000000 = 0x41"
proof -
  have "typed con_typed = [0x41]" by (simp add: typed_def)
  moreover have "line_inv con_typed" by (simp add: line_inv_def)
  moreover have "term_empty con_typed 0"
    by (simp add: term_empty_def con_up_ix terminal_bss_def terminal.defs)
  ultimately show ?thesis
    using typed_line_is_read [of con_typed 0 "0x8000000" "[]"] by (auto simp: in_user_window_def)
qed


lemma less_2_cases_all: "(\<forall>j<2. P j) \<longleftrightarrow> P 0 \<and> P (1 :: nat)"
  by (auto simp: less_2_cases_iff)


text \<open>C34: \<open>terminal_write\<close> of \<open>n\<close> bytes prints exactly the bytes of the caller's buffer and returns
  \<open>n\<close>.  For the shown terminal they go through \<open>putc\<close>, so the screen is the abstract screen of
  those characters.\<close>

theorem terminal_write_shown:
  assumes "screen_ok s" "uint (curr_terminal s) = current_id s - 1"
    and "\<forall>j<n. \<not> in_video (vaddr s (buf + of_nat j))"
  shows "\<exists>s'. terminal_write buf (int n) s = Some (s', int n) \<and>
    screen_of s' = fold screen_putc (map (\<lambda>j. vmem s (buf + of_nat j)) [0..<n]) (screen_of s) \<and>
    screen_ok s' \<and> terminals s' = terminals s \<and> (\<forall>a. \<not> in_video a \<longrightarrow> phys s' a = phys s a)"
  using assms write_putc_fold [OF assms(1), of 0 n buf]
  by (simp add: terminal_write_def fold_putc_refines fold_putc_screen_ok fold_putc_phys_frame frame_simps)

theorem terminal_write_shown_witness:
  "\<exists>s'. terminal_write 0x400000 2 con_up = Some (s', 2) \<and>
    screen_of s' = fold screen_putc [0, 0] (screen_of con_up)"
proof -
  let ?m = "map (\<lambda>j. vmem con_up (0x400000 + of_nat j)) [0..<2]"
  have "?m = [0, 0]" by (simp add: upt_rec vmem_def)
  moreover have "\<forall>j<2. \<not> in_video (vaddr con_up (0x400000 + of_nat j))"
    by (simp add: less_2_cases_all in_video_def vaddr_def in_user_window_def)
  ultimately show ?thesis
    using terminal_write_shown [of con_up 2 "0x400000"] by auto
qed

text \<open>C35: When another terminal is shown, the same bytes go to the video page of the program's own
  terminal with that terminal's position: the page becomes the abstract screen of the
  characters, and the visible screen, the positions of the shown terminal, its line and the
  other terminals stay as they are.\<close>

theorem terminal_write_hidden:
  assumes "terms_ok s" "uint (curr_terminal s) = int k" "int k \<noteq> current_id s - 1" "term_pos_ok k s"
    and "\<forall>j<n. \<not> unat (vaddr s (buf + of_nat j) - term_page k) < 4000"
  shows "\<exists>s'. terminal_write buf (int n) s = Some (s', int n) \<and>
    term_screen (term_page k) k s' =
      fold screen_putc (map (\<lambda>j. vmem s (buf + of_nat j)) [0..<n]) (term_screen (term_page k) k s) \<and>
    same_besides (term_page k) k s s' \<and> term_pos_ok k s'"
proof -
  have k: "k < 3" using assms(1,4) by (simp add: terms_ok_def term_pos_ok_def)
  have w: "curr_terminal s = of_nat k" using assms(2) by (metis of_int_of_nat_eq word_of_int_uint)
  have k3: "k = 0 \<or> k = 1 \<or> k = 2" using k by linarith
  have "printscreen s = Some (term_page k)"
    using k3 by (elim disjE) (simp_all add: printscreen_def w term_page_def)
  moreover have "term_ix s (uint (curr_terminal s)) = Some k"
    using assms(1,2) k by (simp add: term_ix_def terms_ok_def)
  ultimately obtain s' where "write_putm buf 0 n s = Some s'"
    "term_screen (term_page k) k s' =
      fold screen_putc (map (\<lambda>j. vmem s (buf + of_nat j)) [0..<0 + n]) (term_screen (term_page k) k s)"
    "same_besides (term_page k) k s s'" "term_pos_ok k s'"
    using write_putm_fold [of s "term_page k" k 0 n buf] assms(4,5) by auto
  then show ?thesis using assms(2,3) by (simp add: terminal_write_def)
qed

theorem terminal_write_hidden_witness:
  "\<exists>s'. terminal_write 0x400000 2 (con_up\<lparr>curr_terminal := 1\<rparr>) = Some (s', 2) \<and>
    same_besides 0xBA000 1 (con_up\<lparr>curr_terminal := 1\<rparr>) s'"
proof -
  let ?s = "con_up\<lparr>curr_terminal := 1\<rparr>"
  have "terms_ok ?s" using con_up_ok by (simp add: terms_ok_def)
  moreover have "term_pos_ok 1 ?s" by (simp add: term_pos_ok_def terminal_bss_def terminal.defs)
  moreover have "\<forall>j<2. \<not> unat (vaddr ?s (0x400000 + of_nat j) - term_page 1) < 4000"
    by (simp add: less_2_cases_all vaddr_def in_user_window_def term_page_def)
  ultimately show ?thesis
    using terminal_write_hidden [of ?s 1 2 "0x400000"] by (auto simp: term_page_def)
qed


end
