(* ===== verification/Syscall.thy ===== *)
theory Syscall
  imports Terminal
begin

text \<open>
  Processes and system calls (\<open>syscall.c\<close>, and \<open>file_read\<close> of \<open>filesystem.c\<close>, which works on the
  descriptors of the running process).

  A process control block lies at the top of a kernel stack, at \<open>8MB - 8KB * (n + 1)\<close>.  The
  blocks form the map \<open>pcbs\<close> from such addresses; they are kept apart from the bytes of
  \<open>phys\<close>.  Following a pointer that is none of the six addresses has no value
  (\<open>pcb_at\<close>).  An operations table holds function pointers; \<open>call_close\<close>, \<open>call_read\<close> and
  \<open>call_write\<close> are the calls through them.

  What a call reads from the outside is a parameter: \<open>env\<close>, the interrupts taken while it
  waits, \<open>junk\<close>, the contents of its uninitialised locals, \<open>prev\<close>, the byte an \<open>inb\<close>
  returns.  Objects of the caller are read and written through the paging of the running
  process (\<open>Vmem\<close>).
\<close>

subsection \<open>Process control blocks\<close>

datatype file_fn = Fn_null | Rtc_open | Rtc_close | Rtc_read | Rtc_write
  | Dir_open | Dir_close | Dir_read | Dir_write | File_open | File_close | File_read | File_write
  | Terminal_open | Terminal_close | Terminal_read | Terminal_write | Unvalid_operation

record file_op =
  op_open :: file_fn
  op_close :: file_fn
  op_read :: file_fn
  op_write :: file_fn

datatype op_ptr = Op_null | Rtc_table | Dir_table | File_table | Stdin_table | Stdout_table | No_op_table

record file_descriptor =
  op_table :: op_ptr
  inode :: u32
  file_position :: u32
  flags :: u32

record pcb =
  pid :: u32
  parent_pid :: u32
  fd :: "file_descriptor list"
  old_esp :: u32
  old_ebp :: u32
  pcb_arg :: "u8 list"
  arg_size :: int
  eip :: u32

record kernel = console +
  process_array :: "u8 list"
  current_pcb :: u32
  pcbs :: "u32 \<Rightarrow> pcb"
  op_tables :: "op_ptr \<Rightarrow> file_op"
  tss_esp0 :: u32
  tss_ss0 :: u16

abbreviation "max_processes \<equiv> (6 :: nat)"
abbreviation "first_process_index \<equiv> (2 :: nat)"
abbreviation "MAX_FD \<equiv> (7 :: int)"
abbreviation "MIN_FD \<equiv> (0 :: int)"
abbreviation "file_name_char_num \<equiv> (32 :: nat)"
abbreviation "kb8 \<equiv> (0x2000 :: u32)"
abbreviation "mb8 \<equiv> (0x800000 :: u32)"
abbreviation "MAP_1 \<equiv> (0x8000000 :: u32)"
abbreviation "MAP_2 \<equiv> (0x400000 :: u32)"
abbreviation "read_buf \<equiv> (0x08048000 :: u32)"
abbreviation "asm_hex \<equiv> (0x83FFFFC :: u32)"
abbreviation "KERNEL_DS \<equiv> (0x18 :: u16)"

definition pcb_ptr :: "u32 \<Rightarrow> u32" where
  "pcb_ptr n = mb8 - kb8 * (n + 1)"

definition pcb_at :: "'a kernel_scheme \<Rightarrow> u32 \<Rightarrow> pcb option" where
  "pcb_at s p = (if p \<in> set (map pcb_ptr [0, 1, 2, 3, 4, 5]) then Some (pcbs s p) else None)"

definition upd_pcb :: "u32 \<Rightarrow> (pcb \<Rightarrow> pcb) \<Rightarrow> 'a kernel_scheme \<Rightarrow> 'a kernel_scheme" where
  "upd_pcb p f s = s\<lparr>pcbs := (pcbs s)(p := f (pcbs s p))\<rparr>"

text \<open>\<open>p->fd[i]\<close>, with \<open>None\<close> outside the eight descriptors.\<close>

definition fd_at :: "'a kernel_scheme \<Rightarrow> u32 \<Rightarrow> nat \<Rightarrow> file_descriptor option" where
  "fd_at s p i =
    do { b \<leftarrow> pcb_at s p; if i < length (fd b) then Some (fd b ! i) else None }"

definition upd_fd :: "u32 \<Rightarrow> nat \<Rightarrow> (file_descriptor \<Rightarrow> file_descriptor) \<Rightarrow> 'a kernel_scheme \<Rightarrow> 'a kernel_scheme" where
  "upd_fd p i f = upd_pcb p (\<lambda>b. b\<lparr>fd := (fd b)[i := f (fd b ! i)]\<rparr>)"

text \<open>\<open>terminals[curr_terminal].cur_pcb\<close> and \<open>terminals[get_terminal_id()-1].cur_pcb\<close>.\<close>

definition running_pcb :: "'a kernel_scheme \<Rightarrow> u32 option" where
  "running_pcb s = do { k \<leftarrow> term_ix s (uint (curr_terminal s)); Some (cur_pcb (terminals s ! k)) }"

definition shown_pcb :: "'a kernel_scheme \<Rightarrow> u32 option" where
  "shown_pcb s = do { k \<leftarrow> term_ix s (get_terminal_id s - 1); Some (cur_pcb (terminals s ! k)) }"

subsection \<open>Operation tables\<close>

definition init_operation_table :: "'a kernel_scheme \<Rightarrow> 'a kernel_scheme" where
  "init_operation_table s = s\<lparr>op_tables := (op_tables s)
     (Rtc_table := \<lparr>op_open = Rtc_open, op_close = Rtc_close, op_read = Rtc_read, op_write = Rtc_write\<rparr>,
      Dir_table := \<lparr>op_open = Dir_open, op_close = Dir_close, op_read = Dir_read, op_write = Dir_write\<rparr>,
      File_table := \<lparr>op_open = File_open, op_close = File_close, op_read = File_read, op_write = File_write\<rparr>,
      Stdin_table := \<lparr>op_open = Terminal_open, op_close = Terminal_close, op_read = Terminal_read,
        op_write = Unvalid_operation\<rparr>,
      Stdout_table := \<lparr>op_open = Terminal_open, op_close = Terminal_close, op_read = Unvalid_operation,
        op_write = Terminal_write\<rparr>,
      No_op_table := \<lparr>op_open = Unvalid_operation, op_close = Unvalid_operation,
        op_read = Unvalid_operation, op_write = Unvalid_operation\<rparr>)\<rparr>"

definition unvalid_operation :: "'a kernel_scheme \<Rightarrow> 'a kernel_scheme \<times> int" where
  "unvalid_operation s = (s, -1)"

text \<open>Following \<open>op_table\<close>; the null pointer has no table.\<close>

definition op_at :: "'a kernel_scheme \<Rightarrow> op_ptr \<Rightarrow> file_op option" where
  "op_at s p = (if p = Op_null then None else Some (op_tables s p))"

subsection \<open>Reading a file\<close>

text \<open>The last condition reads the length of the file again, after the copy.\<close>

definition file_read :: "nat \<Rightarrow> u32 \<Rightarrow> u32 \<Rightarrow> 'a kernel_scheme \<Rightarrow> ('a kernel_scheme \<times> int) option" where
  "file_read i buf nbytes s =
    do { p \<leftarrow> running_pcb s;
         d \<leftarrow> fd_at s p i;
         let offset = file_position d;
         let (m, n) = read_data s (vmem s) (inode d) offset buf nbytes;
         let s = set_vmem m s;
         let s = upd_fd p i (\<lambda>d. d\<lparr>file_position := file_position d + n\<rparr>) s;
         d \<leftarrow> fd_at s p i;
         if file_position d > file_size s (vmem s) (inode d) then
           Some (upd_fd p i (\<lambda>d. d\<lparr>file_position := 0\<rparr>) s, 0)
         else Some (s, sint n) }"

subsection \<open>Calls through the operation tables\<close>

definition call_close :: "file_fn \<Rightarrow> 'a kernel_scheme \<Rightarrow> ('a kernel_scheme \<times> int) option" where
  "call_close f s =
    (case f of
       Rtc_close \<Rightarrow> Some (rtc_close s) | Dir_close \<Rightarrow> Some (dir_close s) | File_close \<Rightarrow> Some (file_close s)
     | Terminal_close \<Rightarrow> Some (terminal_close s) | Unvalid_operation \<Rightarrow> Some (unvalid_operation s) | _ \<Rightarrow> None)"

definition call_read :: "file_fn \<Rightarrow> ('a kernel_scheme \<Rightarrow> 'a kernel_scheme option) list \<Rightarrow> mem \<Rightarrow> nat \<Rightarrow> u32 \<Rightarrow> u32 \<Rightarrow>
    'a kernel_scheme \<Rightarrow> ('a kernel_scheme \<times> int) option" where
  "call_read f env junk i buf nbytes s =
    (case f of
       Rtc_read \<Rightarrow> rtc_read env s
     | Dir_read \<Rightarrow> do { (s, m, n) \<leftarrow> dir_read junk buf s (vmem s); Some (set_vmem m s, sint n) }
     | File_read \<Rightarrow> file_read i buf nbytes s
     | Terminal_read \<Rightarrow> terminal_read env buf s
     | Unvalid_operation \<Rightarrow> Some (unvalid_operation s)
     | _ \<Rightarrow> None)"

definition call_write :: "file_fn \<Rightarrow> u8 \<Rightarrow> u32 \<Rightarrow> u32 \<Rightarrow>
    'a kernel_scheme \<Rightarrow> ('a kernel_scheme \<times> int) option" where
  "call_write f prev buf nbytes s =
    (case f of
       Rtc_write \<Rightarrow> Some (rtc_write (load32 (vmem s) buf) prev s)
     | Dir_write \<Rightarrow> Some (dir_write s)
     | File_write \<Rightarrow> Some (file_write s)
     | Terminal_write \<Rightarrow> terminal_write buf (sint nbytes) s
     | Unvalid_operation \<Rightarrow> Some (unvalid_operation s)
     | _ \<Rightarrow> None)"

subsection \<open>Descriptors\<close>

text \<open>The \<open>for\<close> loop of \<open>open\<close> at descriptor \<open>i\<close>, with \<open>k\<close> iterations left.\<close>

fun open_loop :: "nat \<Rightarrow> nat \<Rightarrow> u32 \<Rightarrow> u32 \<Rightarrow> u32 \<Rightarrow> 'a kernel_scheme \<Rightarrow> ('a kernel_scheme \<times> int) option" where
  "open_loop 0 i p file_type node s = Some (s, -1)"
| "open_loop (Suc k) i p file_type node s =
    do { d \<leftarrow> fd_at s p i;
         if flags d = 0 then
           let s = upd_fd p i (\<lambda>d. d\<lparr>file_position := 0\<rparr>) s
           in if file_type = 0 then Some (upd_fd p i (\<lambda>d. d\<lparr>op_table := Rtc_table, flags := 1\<rparr>) s, int i)
              else if file_type = 1 then Some (upd_fd p i (\<lambda>d. d\<lparr>op_table := Dir_table, flags := 1\<rparr>) s, int i)
              else Some (upd_fd p i (\<lambda>d. d\<lparr>op_table := File_table, inode := node, flags := 1\<rparr>) s, int i)
         else open_loop k (Suc i) p file_type node s }"

text \<open>
  \<open>open\<close>, with \<open>junk\<close> the uninitialised \<open>temp_dentry\<close>.  A null \<open>filename\<close> is
  followed by \<open>strlen\<close>, before it is tested.
\<close>

definition sys_open :: "mem \<Rightarrow> u32 \<Rightarrow> 'a kernel_scheme \<Rightarrow> ('a kernel_scheme \<times> int) option" where
  "sys_open junk filename s =
    do { n \<leftarrow> (if filename = 0 then None else strlen (view (vmem s) filename));
         if n = 0 then Some (s, -1)
         else (case read_dentry_by_name s (vmem s) (Some (view (vmem s) filename)) (Some junk) of
             (Some temp_dentry, r) \<Rightarrow>
               if r = -1 then Some (s, -1)
               else do { p \<leftarrow> running_pcb s;
                         open_loop 6 first_process_index p (d_type temp_dentry) (d_inode temp_dentry) s }
           | (None, r) \<Rightarrow> None) }"

definition sys_close :: "int \<Rightarrow> 'a kernel_scheme \<Rightarrow> ('a kernel_scheme \<times> int) option" where
  "sys_close i s =
    (if i < MIN_FD \<or> i > MAX_FD then Some (s, -1)
     else do { p \<leftarrow> running_pcb s;
               d \<leftarrow> fd_at s p (nat i);
               if flags d = 0 \<or> i = 0 \<or> i = 1 then Some (s, -1)
               else do { let s = upd_fd p (nat i) (\<lambda>d. d\<lparr>flags := 0\<rparr>) s;
                         t \<leftarrow> op_at s (op_table d);
                         call_close (op_close t) s } })"

definition sys_read :: "('a kernel_scheme \<Rightarrow> 'a kernel_scheme option) list \<Rightarrow> mem \<Rightarrow> int \<Rightarrow> u32 \<Rightarrow> u32 \<Rightarrow>
    'a kernel_scheme \<Rightarrow> ('a kernel_scheme \<times> int) option" where
  "sys_read env junk i buf nbytes s =
    (if i < MIN_FD \<or> i > MAX_FD then Some (s, -1)
     else do { p \<leftarrow> running_pcb s;
               d \<leftarrow> fd_at s p (nat i);
               if flags d = 0 then Some (s, -1)
               else do { t \<leftarrow> op_at s (op_table d);
                         call_read (op_read t) env junk (nat i) buf nbytes s } })"

text \<open>\<open>write\<close> looks the descriptor up in the process of the terminal that is shown.\<close>

definition sys_write :: "u8 \<Rightarrow> int \<Rightarrow> u32 \<Rightarrow> u32 \<Rightarrow>
    'a kernel_scheme \<Rightarrow> ('a kernel_scheme \<times> int) option" where
  "sys_write prev i buf nbytes s =
    (if i < MIN_FD \<or> i > MAX_FD then Some (s, -1)
     else if buf = 0 then Some (s, -1)
     else do { p \<leftarrow> shown_pcb s;
               d \<leftarrow> fd_at s p (nat i);
               if flags d = 0 then Some (s, -1)
               else do { t \<leftarrow> op_at s (op_table d);
                         call_write (op_write t) prev buf nbytes s } })"

subsection \<open>execute\<close>

text \<open>
  The first loop over the command.  It stores the characters before the first space in
  \<open>file_name\<close> and ends at a space or at the NUL; \<open>None\<close> is a store past the array.
\<close>

function exec_name :: "cstr \<Rightarrow> u8 list \<Rightarrow> nat \<Rightarrow> (u8 list \<times> nat) option" where
  "exec_name command file_name i =
    (if command (of_nat i) = 0 \<or> command (of_nat i) = 0x20 then Some (file_name, i)
     else if i < length file_name then exec_name command (file_name[i := command (of_nat i)]) (Suc i)
     else None)"
  by pat_completeness auto
termination
  by (relation "measure (\<lambda>(c, f, i). length f - i)") auto

text \<open>The second loop, over the rest of the command, and the NUL behind the argument.\<close>

function exec_arg :: "cstr \<Rightarrow> u8 list \<Rightarrow> nat \<Rightarrow> nat \<Rightarrow> (u8 list \<times> nat) option" where
  "exec_arg command arg i j =
    (if \<not> j < length arg then None
     else if command (of_nat i) = 0 then Some (arg[j := 0], j)
     else exec_arg command (arg[j := command (of_nat i)]) (Suc i) (Suc j))"
  by pat_completeness auto
termination
  by (relation "measure (\<lambda>(c, a, i, j). length a - j)") auto

declare exec_name.simps [simp del] exec_arg.simps [simp del]

text \<open>The file name, the argument and its size; \<open>arg\<close> is the uninitialised array of 128.\<close>

definition parse_command :: "u8 list \<Rightarrow> cstr \<Rightarrow> (u8 list \<times> u8 list \<times> nat) option" where
  "parse_command arg command =
    do { (file_name, i) \<leftarrow> exec_name command (replicate file_name_char_num 0) 0;
         (if command (of_nat i) = 0 then Some (file_name, arg[0 := 0], 0)
          else do { (arg, sz) \<leftarrow> exec_arg command arg (Suc i) 0; Some (file_name, arg, sz) }) }"

text \<open>\<open>strcpy\<close> from one local array to another; \<open>None\<close> when it leaves one of the two.\<close>

fun strcpy_array :: "u8 list \<Rightarrow> u8 list \<Rightarrow> u8 list option" where
  "strcpy_array (d # ds) (x # xs) =
    (if x = 0 then Some (0 # ds) else map_option ((#) x) (strcpy_array ds xs))"
| "strcpy_array _ _ = None"

definition array_str :: "u8 list \<Rightarrow> cstr" where
  "array_str xs i = (if unat i < length xs then xs ! unat i else 0)"

text \<open>
  The screen of a program whose name begins with \<open>fish\<close> is copied to the page of its
  terminal, before it is known whether the program exists.
\<close>

definition start_fish :: "u8 list \<Rightarrow> 'a kernel_scheme \<Rightarrow> 'a kernel_scheme option" where
  "start_fish file_name s =
    (if take 4 file_name = ascii ''fish'' then
       do { k \<leftarrow> term_ix s (get_terminal_id s - 1);
            let s = s\<lparr>phys := memcpy (phys s) (video_ptr (terminals s ! k)) screen_memeory 0x1000\<rparr>;
            Some (upd_term k (\<lambda>t. t\<lparr>fish := 1\<rparr>) s) }
     else Some s)"

text \<open>
  The process number: that of the terminal for its first process, otherwise the first free
  one of 3, 4 and 5.  \<open>Inl\<close> is the early return.
\<close>

definition max_processes_msg :: cstr where
  "max_processes_msg = array_str (ascii ''Maximum Processes'' @ [0x0A, 0])"

definition new_process :: "mem \<Rightarrow> 'a kernel_scheme \<Rightarrow> ('a kernel_scheme + 'a kernel_scheme \<times> u8) option" where
  "new_process junk s =
    do { k \<leftarrow> term_ix s (get_terminal_id s - 1);
         if first_process (terminals s ! k) = 0 then
           do { a \<leftarrow> arr_set (process_array s) (get_terminal_id s - 1) 1;
                Some (Inr (s\<lparr>process_array := a\<rparr>, of_int (get_terminal_id s - 1))) }
         else if process_array s ! 3 = 1 \<and> process_array s ! 4 = 1 \<and> process_array s ! 5 = 1 then
           do { (s, n) \<leftarrow> printf junk max_processes_msg (\<lambda>_. 0) s; Some (Inl s) }
         else do { i \<leftarrow> List.find (\<lambda>i. process_array s ! i = 0) [3..<max_processes];
                   Some (Inr (s\<lparr>process_array := (process_array s)[i := 1]\<rparr>, of_nat i)) } }"

text \<open>Filling the control block of the new process at \<open>p\<close>; \<open>old_fd\<close> are its old descriptors.\<close>

definition fresh_fds :: "file_descriptor list \<Rightarrow> file_descriptor list" where
  "fresh_fds old =
    (let fds = old[0 := (old ! 0)\<lparr>op_table := Stdin_table, inode := -1, file_position := 0, flags := 1\<rparr>];
         fds = fds[1 := (fds ! 1)\<lparr>op_table := Stdout_table, inode := -1, file_position := 0, flags := 1\<rparr>]
     in fold (\<lambda>i fds. fds[i := (fds ! i)\<lparr>op_table := Op_null, inode := -1, file_position := 0, flags := 0\<rparr>])
          [first_process_index..<8] fds)"

datatype exec_result = Returned int | Enter_user u32 u32

definition start_process :: "u8 \<Rightarrow> u8 list \<Rightarrow> nat \<Rightarrow> u32 \<Rightarrow> u32 \<Rightarrow> 'a kernel_scheme \<Rightarrow> 'a kernel_scheme option" where
  "start_process process_num arg sz esp ebp s =
    do { let p = pcb_ptr (ucast process_num);
         let s = s\<lparr>current_pcb := p\<rparr>;
         b \<leftarrow> pcb_at s p;
         a \<leftarrow> strcpy_array (pcb_arg b) arg;
         let s = upd_pcb p (\<lambda>b. b\<lparr>pid := ucast process_num, arg_size := int sz, pcb_arg := a\<rparr>) s;
         k \<leftarrow> term_ix s (get_terminal_id s - 1);
         let s = upd_term k (\<lambda>t. t\<lparr>cur_pcb := p\<rparr>) s;
         let t = terminals s ! k;
         let s = (if first_process t = 0 then
                    upd_term k (\<lambda>t. t\<lparr>first_process := 1, current_pid := ucast process_num\<rparr>)
                      (upd_pcb p (\<lambda>b. b\<lparr>parent_pid := -1\<rparr>) s)
                  else
                    upd_term k (\<lambda>t. t\<lparr>current_pid := ucast process_num\<rparr>)
                      (upd_pcb p (\<lambda>b. b\<lparr>parent_pid := current_pid t\<rparr>) s));
         let s = s\<lparr>curr_terminal := of_int (get_terminal_id s - 1)\<rparr>;
         let s = upd_pcb p (\<lambda>b. b\<lparr>old_esp := esp, old_ebp := ebp, fd := fresh_fds (fd b)\<rparr>) s;
         Some (s\<lparr>tss_esp0 := mb8 - kb8 * (ucast process_num + 1), tss_ss0 := KERNEL_DS\<rparr>) }"

text \<open>
  \<open>execute\<close>.  Its inputs are the command (\<open>None\<close> is the null pointer), the address \<open>bufp\<close>
  of its local \<open>buf\<close>, the contents of the uninitialised \<open>exe_dentry\<close> and \<open>arg\<close>, and the
  values of \<open>esp\<close> and \<open>ebp\<close> it reads.  It ends with a return value, or in the new
  program with the entry point and the user stack given to \<open>iret\<close>.
\<close>

record exec_env =
  e_junk :: mem
  e_arg :: "u8 list"
  e_bufp :: u32
  e_esp :: u32
  e_ebp :: u32

definition executable :: "u8 list" where
  "executable = [0x7F, 0x45, 0x4C, 0x46]"

definition buf_at :: "'a kernel_scheme \<Rightarrow> u32 \<Rightarrow> u8 list" where
  "buf_at s p = map (\<lambda>i. vmem s (p + of_nat i)) [0..<4]"

text \<open>From the directory entry on: the checks of the file, the process number, the load.\<close>

definition load_program :: "exec_env \<Rightarrow> u32 \<Rightarrow> u8 list \<Rightarrow> nat \<Rightarrow> 'a kernel_scheme \<Rightarrow>
    ('a kernel_scheme \<times> exec_result) option" where
  "load_program e node arg sz s =
    (let (m, r) = read_data s (vmem s) node 0 (e_bufp e) 4;
         s = set_vmem m s
     in if r = -1 then Some (s, Returned (-1))
        else if buf_at s (e_bufp e) \<noteq> executable then Some (s, Returned (-1))
        else
          let s = set_vmem (fst (read_data s (vmem s) node 24 (e_bufp e) 4)) s;
              entry_point = load32 (vmem s) (e_bufp e)
          in do { np \<leftarrow> new_process (e_junk e) s;
                  (case np of
                     Inl s \<Rightarrow> Some (s, Returned (-1))
                   | Inr (s, process_num) \<Rightarrow>
                       do { let s = map_to_user_phy (ucast process_num) MAP_1 MAP_2 s;
                            let s = set_vmem (fst (read_data s (vmem s) node 0 read_buf
                                      (file_size s (vmem s) node))) s;
                            s \<leftarrow> start_process process_num arg sz (e_esp e) (e_ebp e) s;
                            Some (s, Enter_user entry_point asm_hex) }) })"

definition execute :: "exec_env \<Rightarrow> cstr option \<Rightarrow> 'a kernel_scheme \<Rightarrow> ('a kernel_scheme \<times> exec_result) option" where
  "execute e command s =
    do { let s = cli s;
         (case command of
            None \<Rightarrow> Some (s, Returned (-1))
          | Some c \<Rightarrow>
              do { (file_name, arg, sz) \<leftarrow> parse_command (e_arg e) c;
                   s \<leftarrow> start_fish file_name s;
                   (case read_dentry_by_name s (vmem s) (Some (array_str file_name)) (Some (e_junk e)) of
                      (Some exe_dentry, r) \<Rightarrow>
                        if r \<noteq> 0 then Some (s, Returned (-1))
                        else load_program e (d_inode exe_dentry) arg sz s
                    | (None, r) \<Rightarrow> None) }) }"

subsection \<open>halt\<close>

text \<open>
  \<open>halt\<close> continues on the stack of the parent, in its \<open>execute\<close>, with the status as return
  value; or, for a shell without a parent, in the shell it starts.
\<close>

datatype halt_result = Resume u32 u32 int | Fresh_shell u32 u32

definition shell_cmd :: cstr where
  "shell_cmd = array_str (ascii ''shell'' @ [0, 0])"

definition halt :: "exec_env \<Rightarrow> u8 \<Rightarrow> 'a kernel_scheme \<Rightarrow> ('a kernel_scheme \<times> halt_result) option" where
  "halt e status s =
    do { let s = cli s;
         k \<leftarrow> term_ix s (uint (curr_terminal s));
         let s = (if fish (terminals s ! k) = 1 then upd_term k (\<lambda>t. t\<lparr>fish := 0\<rparr>) s else s);
         let p = cur_pcb (terminals s ! k);
         let s = s\<lparr>current_pcb := p\<rparr>;
         b \<leftarrow> pcb_at s p;
         let parent_id = parent_pid b;
         let esp = old_esp b;
         let ebp = old_ebp b;
         a \<leftarrow> arr_set (process_array s) (uint (pid b)) 0;
         let s = s\<lparr>process_array := a\<rparr>;
         let s = upd_pcb p (\<lambda>b. b\<lparr>fd := map (\<lambda>d. d\<lparr>op_table := No_op_table, flags := 0\<rparr>) (fd b)\<rparr>) s;
         (s, started) \<leftarrow>
           (if parent_id = -1 then
              do { let s = upd_term k (\<lambda>t. t\<lparr>first_process := 0\<rparr>) s;
                   (s, r) \<leftarrow> execute e (Some shell_cmd) s;
                   Some (s, case r of Enter_user entry esp \<Rightarrow> Some (entry, esp) | Returned v \<Rightarrow> None) }
            else Some (s, None));
         (case started of
            Some (entry, sp) \<Rightarrow> Some (s, Fresh_shell entry sp)
          | None \<Rightarrow>
              do { b \<leftarrow> pcb_at s (current_pcb s);
                   let s = map_to_user_phy (parent_pid b) MAP_1 MAP_2 s;
                   let s = s\<lparr>tss_ss0 := KERNEL_DS, tss_esp0 := mb8 - (parent_pid b + 1) * kb8\<rparr>;
                   k \<leftarrow> term_ix s (uint (curr_terminal s));
                   let s = upd_term k (\<lambda>t. t\<lparr>cur_pcb := mb8 - (parent_id + 1) * kb8, current_pid := parent_id\<rparr>) s;
                   Some (s, Resume esp ebp (uint status)) }) }"

subsection \<open>The other calls\<close>

definition getargs :: "u32 \<Rightarrow> u32 \<Rightarrow> 'a kernel_scheme \<Rightarrow> ('a kernel_scheme \<times> int) option" where
  "getargs buf nbytes s =
    (if buf = 0 then Some (s, -1)
     else do { p \<leftarrow> shown_pcb s;
               b \<leftarrow> pcb_at s p;
               if arg_size b = 0 then Some (s, -1)
               else do { c \<leftarrow> pcb_at s (current_pcb s);
                         n \<leftarrow> line_size (pcb_arg c) 0;
                         m \<leftarrow> strcpy (vmem s) buf (array_str (pcb_arg c));
                         Some (set_vmem m s, 0) } })"

text \<open>Terminal 3 gets its page without a flush of the translation cache.\<close>

definition vidmap :: "u32 \<Rightarrow> 'a kernel_scheme \<Rightarrow> 'a kernel_scheme \<times> int" where
  "vidmap screen_start s =
    (if screen_start < 0x08000000 \<or> screen_start \<ge> 0x08000000 + 0x00400000 then (s, -1)
     else if screen_start = 0 then (s, -1)
     else
       let s = set_vmem (store32 (vmem s) screen_start (0x400000 + 128 * 1024 * 1024)) s;
           s = (if get_terminal_id s = 1 then tlb_flush (map_to_vid (0x400000 + 128 * 1024 * 1024) 0xB9000 s) else s);
           s = (if get_terminal_id s = 2 then tlb_flush (map_to_vid (0x400000 + 128 * 1024 * 1024) 0xBA000 s) else s);
           s = (if get_terminal_id s = 3 then map_to_vid (0x400000 + 128 * 1024 * 1024) 0xBB000 s else s)
       in (s, 0x400000 + 128 * 1024 * 1024))"

definition get_process_number :: "'a kernel_scheme \<Rightarrow> int option" where
  "get_process_number s = do { b \<leftarrow> pcb_at s (current_pcb s); Some (sint (pid b)) }"

end
