(* ===== verification/Descriptors.thy ===== *)
theory Descriptors
  imports Syscall
begin

text \<open>
  The file descriptors of a process.  \<open>fd_table\<close> reads the eight descriptors of a control
  block as a partial map from numbers to open files, and \<open>open\<close> and \<open>close\<close> are shown to be
  insertion at the least free number and removal on that map.  The locale \<open>open_table\<close>
  states the contract of such a table; what follows from it alone is proved inside it and
  used through its interpretation on \<open>open_loop\<close> and \<open>sys_close\<close>.
\<close>

subsection \<open>Descriptor tables\<close>

lemma upd_pcb_frame [frame_simps]:
  "phys (upd_pcb p f s) = phys s" "page_directory (upd_pcb p f s) = page_directory s"
  "terminals (upd_pcb p f s) = terminals s" "curr_terminal (upd_pcb p f s) = curr_terminal s"
  "current_id (upd_pcb p f s) = current_id s" "process_array (upd_pcb p f s) = process_array s"
  "current_pcb (upd_pcb p f s) = current_pcb s" "op_tables (upd_pcb p f s) = op_tables s"
  "file_sys (upd_pcb p f s) = file_sys s" "dentry_addr (upd_pcb p f s) = dentry_addr s"
  "tss_esp0 (upd_pcb p f s) = tss_esp0 s" "io (upd_pcb p f s) = io s"
  by (simp_all add: upd_pcb_def)

lemma pcbs_upd_pcb [simp]: "pcbs (upd_pcb p f s) = (pcbs s)(p := f (pcbs s p))"
  by (simp add: upd_pcb_def)

lemma vmem_upd_pcb [simp]: "vmem (upd_pcb p f s) = vmem s"
  by (simp add: vmem_def vaddr_def user_frame_def frame_simps fun_eq_iff)

lemma vmem_upd_fd [simp]: "vmem (upd_fd p i f s) = vmem s"
  by (simp add: upd_fd_def)

lemma set_vmem_kernel [frame_simps]:
  "process_array (set_vmem m s) = process_array s" "current_pcb (set_vmem m s) = current_pcb s"
  "pcbs (set_vmem m s) = pcbs s" "op_tables (set_vmem m s) = op_tables s"
  "file_sys (set_vmem m s) = file_sys s" "dentry_addr (set_vmem m s) = dentry_addr s"
  "tss_esp0 (set_vmem m s) = tss_esp0 s"
  by (simp_all add: set_vmem_def)

lemma upd_pcb_twice: "upd_pcb p f (upd_pcb p g s) = upd_pcb p (\<lambda>b. f (g b)) s"
  by (simp add: upd_pcb_def)

lemma pcb_at_upd [simp]:
  "pcb_at (upd_pcb p f s) q = (if p = q then map_option f (pcb_at s q) else pcb_at s q)"
  by (simp add: pcb_at_def upd_pcb_def)

lemma running_pcb_cong:
  "terminals s' = terminals s \<Longrightarrow> curr_terminal s' = curr_terminal s \<Longrightarrow> running_pcb s' = running_pcb s"
  by (simp add: running_pcb_def term_ix_def)

lemma running_pcb_upd [simp]:
  "running_pcb (upd_pcb p f s) = running_pcb s" "running_pcb (upd_fd p i g s) = running_pcb s"
  "running_pcb (set_vmem m s) = running_pcb s"
  by (intro running_pcb_cong, simp_all add: upd_fd_def frame_simps)+

text \<open>A process whose control block exists and has its eight descriptors.\<close>

definition proc_block :: "'a kernel_scheme \<Rightarrow> u32 \<Rightarrow> bool" where
  "proc_block s p \<longleftrightarrow> p \<in> set (map pcb_ptr [0, 1, 2, 3, 4, 5]) \<and> length (fd (pcbs s p)) = 8"

lemma proc_block_fd: "proc_block s p \<Longrightarrow> i < 8 \<Longrightarrow> fd_at s p i = Some (fd (pcbs s p) ! i)"
  by (auto simp: proc_block_def fd_at_def pcb_at_def)

lemma pcbs_upd_fd: "pcbs (upd_fd p i f s) p = (pcbs s p)\<lparr>fd := (fd (pcbs s p))[i := f (fd (pcbs s p) ! i)]\<rparr>"
  by (simp add: upd_fd_def)

lemma proc_block_upd [simp]: "proc_block (upd_fd p i f s) q \<longleftrightarrow> proc_block s q"
  by (auto simp: proc_block_def upd_fd_def)

lemma upd_fd_twice:
  "proc_block s p \<Longrightarrow> i < 8 \<Longrightarrow> upd_fd p i f (upd_fd p i g s) = upd_fd p i (\<lambda>d. f (g d)) s"
  by (auto simp: upd_fd_def upd_pcb_def proc_block_def)

lemma open_loop_find:
  assumes "proc_block s p" "i + k = 8"
  shows "open_loop k i p ty node s =
    (case find (\<lambda>j. flags (fd (pcbs s p) ! j) = 0) [i..<8] of
       None \<Rightarrow> Some (s, -1)
     | Some j \<Rightarrow> Some (upd_fd p j (\<lambda>d. d\<lparr>file_position := 0, flags := 1,
           op_table := if ty = 0 then Rtc_table else if ty = 1 then Dir_table else File_table,
           inode := if ty = 0 \<or> ty = 1 then inode d else node\<rparr>) s, int j))"
  using assms(2)
proof (induction k arbitrary: i)
  case 0
  then show ?case by simp
next
  case (Suc k)
  have i: "i < 8" "[i..<8] = i # [Suc i..<8]" using Suc.prems by (auto simp: upt_conv_Cons)
  show ?case
    unfolding i(2)
    using assms(1) i(1) Suc.IH [of "Suc i"] Suc.prems
    by (auto simp: proc_block_fd upd_fd_twice [OF assms(1) i(1)] Let_def split: option.splits
        intro!: arg_cong [where f = "\<lambda>f. upd_fd p i f s"])
qed

text \<open>What an open descriptor stands for.\<close>

datatype open_file = Clock | Directory | Stream_in | Stream_out | Regular u32 u32

fun file_of :: "op_ptr \<Rightarrow> u32 \<Rightarrow> u32 \<Rightarrow> open_file option" where
  "file_of Rtc_table n x = Some Clock"
| "file_of Dir_table n x = Some Directory"
| "file_of Stdin_table n x = Some Stream_in"
| "file_of Stdout_table n x = Some Stream_out"
| "file_of File_table n x = Some (Regular n x)"
| "file_of _ n x = None"

definition fd_abs :: "file_descriptor \<Rightarrow> open_file option" where
  "fd_abs d = (if flags d = 0 then None else file_of (op_table d) (inode d) (file_position d))"

definition fd_table :: "'a kernel_scheme \<Rightarrow> u32 \<Rightarrow> nat \<Rightarrow> open_file option" where
  "fd_table s p i = (if i < 8 then fd_abs (fd (pcbs s p) ! i) else None)"

definition opened :: "u32 \<Rightarrow> u32 \<Rightarrow> open_file" where
  "opened ty node = (if ty = 0 then Clock else if ty = 1 then Directory else Regular node 0)"

lemma fd_table_upd:
  "proc_block s p \<Longrightarrow> i < 8 \<Longrightarrow> fd_table (upd_fd p i f s) p = (fd_table s p)(i := fd_abs (f (fd (pcbs s p) ! i)))"
  by (auto simp: fd_table_def pcbs_upd_fd proc_block_def fun_eq_iff nth_list_update)

text \<open>
  The descriptors of a process: the two streams stay open, a used one has a table, and the
  tables hold the functions they were given at the start.
\<close>

definition tables_ok :: "'a kernel_scheme \<Rightarrow> bool" where
  "tables_ok s \<longleftrightarrow> op_tables (init_operation_table s) = op_tables s"

definition fds_ok :: "'a kernel_scheme \<Rightarrow> u32 \<Rightarrow> bool" where
  "fds_ok s p \<longleftrightarrow> proc_block s p \<and> fd_table s p 0 = Some Stream_in \<and> fd_table s p 1 = Some Stream_out \<and>
     (\<forall>i \<in> {2..<8}. flags (fd (pcbs s p) ! i) \<noteq> 0 \<longrightarrow>
        op_table (fd (pcbs s p) ! i) \<in> {Rtc_table, Dir_table, File_table})"

lemma tables_ok_at:
  assumes "tables_ok s"
  shows "op_at s Rtc_table = Some \<lparr>op_open = Rtc_open, op_close = Rtc_close, op_read = Rtc_read, op_write = Rtc_write\<rparr>"
    "op_at s Dir_table = Some \<lparr>op_open = Dir_open, op_close = Dir_close, op_read = Dir_read, op_write = Dir_write\<rparr>"
    "op_at s File_table = Some \<lparr>op_open = File_open, op_close = File_close, op_read = File_read, op_write = File_write\<rparr>"
    "op_at s Stdin_table = Some \<lparr>op_open = Terminal_open, op_close = Terminal_close, op_read = Terminal_read, op_write = Unvalid_operation\<rparr>"
    "op_at s Stdout_table = Some \<lparr>op_open = Terminal_open, op_close = Terminal_close, op_read = Unvalid_operation, op_write = Terminal_write\<rparr>"
proof -
  have *: "op_at s q = (if q = Op_null then None else Some (op_tables (init_operation_table s) q))" for q
    using assms by (simp add: op_at_def tables_ok_def)
  show "op_at s Rtc_table = Some \<lparr>op_open = Rtc_open, op_close = Rtc_close, op_read = Rtc_read, op_write = Rtc_write\<rparr>"
    "op_at s Dir_table = Some \<lparr>op_open = Dir_open, op_close = Dir_close, op_read = Dir_read, op_write = Dir_write\<rparr>"
    "op_at s File_table = Some \<lparr>op_open = File_open, op_close = File_close, op_read = File_read, op_write = File_write\<rparr>"
    "op_at s Stdin_table = Some \<lparr>op_open = Terminal_open, op_close = Terminal_close, op_read = Terminal_read, op_write = Unvalid_operation\<rparr>"
    "op_at s Stdout_table = Some \<lparr>op_open = Terminal_open, op_close = Terminal_close, op_read = Unvalid_operation, op_write = Terminal_write\<rparr>"
    by (simp_all add: * init_operation_table_def)
qed

lemma find_least: "find P [a..<b] = Some j \<Longrightarrow> a \<le> j \<and> j < b \<and> P j \<and> (\<forall>i. a \<le> i \<and> i < j \<longrightarrow> \<not> P i)"
  by (fastforce simp: find_Some_iff dest: le_Suc_ex)

lemma open_finds:
  assumes run: "running_pcb s = Some p" "proc_block s p"
    and name: "filename \<noteq> 0" "holds_str (view (vmem s) filename) nm" "nm \<noteq> []"
  shows "sys_open junk filename s =
    (case find (\<lambda>j. entry_name s (vmem s) j = chars (view (vmem s) filename) 0 32) [0..<63] of
       None \<Rightarrow> Some (s, -1)
     | Some e \<Rightarrow> open_loop 6 2 p (load32 (vmem s) (dentry_ptr s (of_nat e) + 32))
         (load32 (vmem s) (dentry_ptr s (of_nat e) + 36)) s)"
proof -
  have "length nm < 4294967296" "length nm \<noteq> 0" using name by (simp_all add: holds_str_def)
  then have "(of_nat (length nm) :: u32) \<noteq> 0"
    by (metis unat_of_nat32 unat_0)
  then show ?thesis
    using run name(1) strlen_holds [OF name(2)]
    by (simp add: sys_open_def read_dentry_by_name_find copy_dentry_bytes split: option.splits del: chars.simps)
qed
lemma fds_ok_free:
  assumes "fds_ok s p" "2 \<le> j" "j < 8"
  shows "(flags (fd (pcbs s p) ! j) = 0) = (fd_table s p j = None)"
proof -
  have "flags (fd (pcbs s p) ! j) \<noteq> 0 \<Longrightarrow>
      op_table (fd (pcbs s p) ! j) \<in> {Rtc_table, Dir_table, File_table}"
    using assms by (simp add: fds_ok_def)
  then show ?thesis using assms(3) by (auto simp: fd_table_def fd_abs_def)
qed

lemma fds_ok_upd:
  assumes "fds_ok s p" "2 \<le> i" "i < 8"
    and "flags (f (fd (pcbs s p) ! i)) \<noteq> 0 \<longrightarrow> op_table (f (fd (pcbs s p) ! i)) \<in> {Rtc_table, Dir_table, File_table}"
  shows "fds_ok (upd_fd p i f s) p"
proof -
  have b: "proc_block s p" "length (fd (pcbs s p)) = 8"
    using assms(1) by (simp_all add: fds_ok_def proc_block_def)
  show ?thesis
    using assms b by (auto simp: fds_ok_def fd_table_upd pcbs_upd_fd nth_list_update)
qed

text \<open>The result of the search for a free descriptor, over the table of open files.\<close>

lemma open_loop_table:
  assumes ok: "fds_ok s p" and r: "open_loop 6 2 p ty node s = Some (s', r)"
  shows "fds_ok s' p \<and>
    (case find (\<lambda>j. fd_table s p j = None) [2..<8] of
       None \<Rightarrow> r = -1 \<and> s' = s
     | Some j \<Rightarrow> r = int j \<and> fd_table s' p = (fd_table s p)(j \<mapsto> opened ty node)) \<and>
    (\<exists>b. s' = s\<lparr>pcbs := (pcbs s)(p := b)\<rparr>)"
proof -
  have b: "proc_block s p" using ok by (simp add: fds_ok_def)
  have "find (\<lambda>j. flags (fd (pcbs s p) ! j) = 0) [2..<8] = find (\<lambda>j. fd_table s p j = None) [2..<8]"
    by (rule find_cong [OF refl], subst (asm) set_upt, rule fds_ok_free [OF ok]) simp_all
  note l = open_loop_find [OF b, of 2 6 ty node, unfolded this]
  show ?thesis
  proof (cases "find (\<lambda>j. fd_table s p j = None) [2..<8]")
    case None
    then have "s' = s" "r = -1" using l r by (simp_all del: upt_rec_numeral find.simps)
    moreover have "\<exists>b. s = s\<lparr>pcbs := (pcbs s)(p := b)\<rparr>" by (rule exI [of _ "pcbs s p"]) simp
    ultimately show ?thesis using None ok by (simp del: upt_rec_numeral find.simps)
  next
    case (Some j)
    then have j: "2 \<le> j" "j < 8" using find_least [OF Some] by simp_all
    let ?f = "\<lambda>d. d\<lparr>file_position := 0, flags := 1,
           op_table := if ty = 0 then Rtc_table else if ty = 1 then Dir_table else File_table,
           inode := if ty = 0 \<or> ty = 1 then inode d else node\<rparr>"
    have s': "s' = upd_fd p j ?f s" "r = int j" using l r Some by (simp_all del: upt_rec_numeral find.simps)
    have "fds_ok s' p" unfolding s' by (rule fds_ok_upd [OF ok j]) simp
    moreover have "fd_table s' p = (fd_table s p)(j \<mapsto> opened ty node)"
      unfolding s' fd_table_upd [OF b j(2)] by (simp add: fd_abs_def opened_def)
    moreover have "\<exists>b. s' = s\<lparr>pcbs := (pcbs s)(p := b)\<rparr>"
      unfolding s' by (auto simp: upd_fd_def upd_pcb_def)
    ultimately show ?thesis using Some s'(2) by (simp del: upt_rec_numeral find.simps)
  qed
qed

lemma open_loop_total: "fds_ok s p \<Longrightarrow> \<exists>r. open_loop 6 2 p ty node s = Some r"
  using open_loop_find [of s p 2 6] by (simp add: fds_ok_def split: option.split)

lemma close_table:
  assumes ok: "fds_ok s p" "tables_ok s" "running_pcb s = Some p" and i: "2 \<le> i" "i < 8"
  shows "sys_close (int i) s =
    (if fd_table s p i = None then Some (s, -1) else Some (upd_fd p i (\<lambda>d. d\<lparr>flags := 0\<rparr>) s, 0))"
    and "fd_table (upd_fd p i (\<lambda>d. d\<lparr>flags := 0\<rparr>) s) p = (fd_table s p)(i := None)"
    and "fds_ok (upd_fd p i (\<lambda>d. d\<lparr>flags := 0\<rparr>) s) p"
proof -
  have b: "proc_block s p" using ok by (simp add: fds_ok_def)
  let ?d = "fd (pcbs s p) ! i"
  have t: "flags ?d \<noteq> 0 \<Longrightarrow> op_table ?d \<in> {Rtc_table, Dir_table, File_table}"
    using ok(1) i by (simp add: fds_ok_def)
  have eq: "(fd_table s p i = None) = (flags ?d = 0)" using fds_ok_free [OF ok(1) i] by simp
  have tab: "tables_ok (upd_fd p i g s)" for g
    using ok(2) by (simp add: tables_ok_def upd_fd_def frame_simps init_operation_table_def)
  show "sys_close (int i) s =
    (if fd_table s p i = None then Some (s, -1) else Some (upd_fd p i (\<lambda>d. d\<lparr>flags := 0\<rparr>) s, 0))"
    using ok(3) i t eq
    by (auto simp: sys_close_def proc_block_fd [OF b] tables_ok_at [OF tab] call_close_def rtc_close_def
        dir_close_def file_close_def)
  show "fd_table (upd_fd p i (\<lambda>d. d\<lparr>flags := 0\<rparr>) s) p = (fd_table s p)(i := None)"
    by (simp add: fd_table_upd [OF b i(2)] fd_abs_def)
  show "fds_ok (upd_fd p i (\<lambda>d. d\<lparr>flags := 0\<rparr>) s) p"
    by (rule fds_ok_upd [OF ok(1) i]) simp
qed

lemma close_protected:
  assumes "fds_ok s p" "running_pcb s = Some p" and "i < 2 \<or> 7 < i"
  shows "sys_close i s = Some (s, -1)"
proof -
  have b: "proc_block s p" using assms by (simp add: fds_ok_def)
  have "i = 0 \<or> i = 1 \<or> i < 0 \<or> 7 < i" using assms(3) by linarith
  then show ?thesis
    using assms(2) by (auto simp: sys_close_def proc_block_fd [OF b])
qed

subsection \<open>The contract of a table of open files\<close>

definition free_slot :: "(nat \<Rightarrow> 'f option) \<Rightarrow> nat option" where
  "free_slot t = find (\<lambda>j. t j = None) [2..<8]"

locale open_table =
  fixes tab :: "'s \<Rightarrow> nat \<Rightarrow> 'f option"
    and ok :: "'s \<Rightarrow> bool"
    and alloc :: "'d \<Rightarrow> 's \<Rightarrow> ('s \<times> int) option"
    and release :: "nat \<Rightarrow> 's \<Rightarrow> ('s \<times> int) option"
    and entry :: "'d \<Rightarrow> 'f"
  assumes alloc_free: "ok s \<Longrightarrow> free_slot (tab s) = Some j \<Longrightarrow>
      \<exists>s'. alloc d s = Some (s', int j) \<and> tab s' = (tab s)(j \<mapsto> entry d) \<and> ok s'"
    and alloc_full: "ok s \<Longrightarrow> free_slot (tab s) = None \<Longrightarrow> alloc d s = Some (s, -1)"
    and release_used: "ok s \<Longrightarrow> 2 \<le> j \<Longrightarrow> j < 8 \<Longrightarrow> tab s j \<noteq> None \<Longrightarrow>
      \<exists>s'. release j s = Some (s', 0) \<and> tab s' = (tab s)(j := None) \<and> ok s'"
    and release_free: "ok s \<Longrightarrow> 2 \<le> j \<Longrightarrow> j < 8 \<Longrightarrow> tab s j = None \<Longrightarrow> release j s = Some (s, -1)"
begin

lemma slot_range: "free_slot t = Some j \<Longrightarrow> 2 \<le> j \<and> j < 8 \<and> t j = None"
  unfolding free_slot_def by (drule find_least) simp

text \<open>Releasing what was allocated gives the old table back.\<close>

lemma alloc_release:
  assumes "ok s" "alloc d s = Some (s', int j)"
  shows "\<exists>s''. release j s' = Some (s'', 0) \<and> tab s'' = tab s \<and> ok s''"
proof (cases "free_slot (tab s)")
  case None
  then show ?thesis using alloc_full [OF assms(1)] assms(2) by simp
next
  case (Some i)
  from alloc_free [OF assms(1) Some, of d] assms(2)
  have i: "i = j" "tab s' = (tab s)(j \<mapsto> entry d)" "ok s'" by auto
  then have j: "2 \<le> j" "j < 8" "tab s j = None" using slot_range [OF Some] by simp_all
  from release_used [OF i(3) j(1,2)] i(2)
  obtain s'' where "release j s' = Some (s'', 0)" "tab s'' = (tab s')(j := None)" "ok s''" by auto
  then show ?thesis using i(2) j(3) by (intro exI [of _ s'']) (auto simp: fun_eq_iff)
qed

text \<open>A series of allocations, with what each returned.\<close>

primrec allocs :: "'d list \<Rightarrow> 's \<Rightarrow> ('s \<times> int list) option" where
  "allocs [] s = Some (s, [])"
| "allocs (d # ds) s =
    do { (s, r) \<leftarrow> alloc d s; (s, rs) \<leftarrow> allocs ds s; Some (s, r # rs) }"

lemma allocs_fill:
  assumes "ok s" "\<And>j. i \<le> j \<Longrightarrow> j < 8 \<Longrightarrow> tab s j = None" "\<And>j. 2 \<le> j \<Longrightarrow> j < i \<Longrightarrow> tab s j \<noteq> None"
    and "2 \<le> i" "length ds = 8 - i"
  shows "\<exists>s'. allocs ds s = Some (s', map int [i..<8]) \<and> ok s' \<and>
    tab s' = (\<lambda>j. if i \<le> j \<and> j < 8 then Some (entry (ds ! (j - i))) else tab s j)"
  using assms
proof (induction ds arbitrary: s i)
  case Nil
  then show ?case by (auto simp: fun_eq_iff)
next
  case (Cons d ds)
  then have i: "i < 8" by simp
  have "free_slot (tab s) = Some i"
    using Cons.prems i
    by (auto simp: free_slot_def find_Some_iff intro!: exI [of _ "i - 2"] simp del: upt_rec_numeral)
  from alloc_free [OF Cons.prems(1) this, of d]
  obtain s1 where s1: "alloc d s = Some (s1, int i)" "tab s1 = (tab s)(i \<mapsto> entry d)" "ok s1" by blast
  have "\<exists>s'. allocs ds s1 = Some (s', map int [Suc i..<8]) \<and> ok s' \<and>
      tab s' = (\<lambda>j. if Suc i \<le> j \<and> j < 8 then Some (entry (ds ! (j - Suc i))) else tab s1 j)"
    using Cons.prems s1 by (intro Cons.IH) (auto simp: less_Suc_eq)
  then obtain s2 where s2: "allocs ds s1 = Some (s2, map int [Suc i..<8])" "ok s2"
    "tab s2 = (\<lambda>j. if Suc i \<le> j \<and> j < 8 then Some (entry (ds ! (j - Suc i))) else tab s1 j)" by blast
  have "tab s2 = (\<lambda>j. if i \<le> j \<and> j < 8 then Some (entry ((d # ds) ! (j - i))) else tab s j)"
    using s1(2) s2(3) i by (auto simp: fun_eq_iff nth_Cons' Suc_le_eq le_less)
  moreover have "[i..<8] = i # [Suc i..<8]" using i by (simp only: upt_conv_Cons)
  ultimately show ?case using s1(1) s2 by (simp del: upt_rec_numeral)
qed

end

text \<open>The operations of \<open>syscall.c\<close> on the descriptors of the running process.\<close>

definition running_table :: "'a kernel_scheme \<Rightarrow> nat \<Rightarrow> open_file option" where
  "running_table s = (case running_pcb s of None \<Rightarrow> (\<lambda>_. None) | Some p \<Rightarrow> fd_table s p)"

definition running_ok :: "'a kernel_scheme \<Rightarrow> bool" where
  "running_ok s \<longleftrightarrow> tables_ok s \<and> (\<exists>p. running_pcb s = Some p \<and> fds_ok s p)"

text \<open>The part of \<open>open\<close> after the directory entry was found.\<close>

definition open_entry :: "u32 \<times> u32 \<Rightarrow> 'a kernel_scheme \<Rightarrow> ('a kernel_scheme \<times> int) option" where
  "open_entry d s = do { p \<leftarrow> running_pcb s; open_loop 6 2 p (fst d) (snd d) s }"

lemma tables_ok_pcbs [simp]: "tables_ok (s\<lparr>pcbs := f\<rparr>) = tables_ok s"
  by (simp add: tables_ok_def init_operation_table_def)

lemma running_pcb_pcbs [simp]: "running_pcb (s\<lparr>pcbs := f\<rparr>) = running_pcb s"
  by (rule running_pcb_cong) simp_all

lemma open_entry_table:
  assumes "running_ok s"
  shows "\<exists>s'. running_ok s' \<and> (case free_slot (running_table s) of
      None \<Rightarrow> open_entry d s = Some (s, -1)
    | Some j \<Rightarrow> open_entry d s = Some (s', int j) \<and>
        running_table s' = (running_table s)(j \<mapsto> opened (fst d) (snd d)))"
proof -
  obtain p where p: "tables_ok s" "running_pcb s = Some p" "fds_ok s p"
    using assms by (auto simp: running_ok_def)
  obtain s' r where r: "open_loop 6 2 p (fst d) (snd d) s = Some (s', r)"
    using open_loop_total [OF p(3)] by force
  have t: "fds_ok s' p \<and>
    (case free_slot (fd_table s p) of
       None \<Rightarrow> r = -1 \<and> s' = s
     | Some j \<Rightarrow> r = int j \<and> fd_table s' p = (fd_table s p)(j \<mapsto> opened (fst d) (snd d))) \<and>
    (\<exists>b. s' = s\<lparr>pcbs := (pcbs s)(p := b)\<rparr>)"
    using open_loop_table [OF p(3) r] by (simp only: free_slot_def)
  then have "running_pcb s' = Some p" "tables_ok s'" using p by auto
  then show ?thesis
    using p r t by (intro exI [of _ s'])
      (auto simp: running_ok_def running_table_def open_entry_def split: option.splits)
qed

lemma sys_close_table:
  assumes "running_ok s" "2 \<le> j" "j < 8"
  shows "\<exists>s'. running_ok s' \<and>
    (if running_table s j = None then sys_close (int j) s = Some (s, -1)
     else sys_close (int j) s = Some (s', 0) \<and> running_table s' = (running_table s)(j := None))"
proof -
  obtain p where p: "tables_ok s" "running_pcb s = Some p" "fds_ok s p"
    using assms by (auto simp: running_ok_def)
  note c = close_table [OF p(3,1,2) assms(2,3)]
  have "tables_ok (upd_fd p j f s)" for f using p(1) by (simp add: upd_fd_def upd_pcb_def)
  then show ?thesis
    using p c by (intro exI [of _ "upd_fd p j (\<lambda>d. d\<lparr>flags := 0\<rparr>) s"])
      (auto simp: running_ok_def running_table_def)
qed

interpretation fdt: open_table running_table running_ok open_entry "\<lambda>j. sys_close (int j)" "\<lambda>d. opened (fst d) (snd d)"
proof unfold_locales
  fix s :: "'a kernel_scheme" and j d
  assume "running_ok s"
  note e = open_entry_table [OF this, of d] and c = sys_close_table [OF this, of j]
  show "free_slot (running_table s) = Some j \<Longrightarrow> \<exists>s'. open_entry d s = Some (s', int j) \<and>
      running_table s' = (running_table s)(j \<mapsto> opened (fst d) (snd d)) \<and> running_ok s'"
    using e by auto
  show "free_slot (running_table s) = None \<Longrightarrow> open_entry d s = Some (s, -1)" using e by auto
  show "2 \<le> j \<Longrightarrow> j < 8 \<Longrightarrow> running_table s j \<noteq> None \<Longrightarrow> \<exists>s'. sys_close (int j) s = Some (s', 0) \<and>
      running_table s' = (running_table s)(j := None) \<and> running_ok s'"
    using c by auto
  show "2 \<le> j \<Longrightarrow> j < 8 \<Longrightarrow> running_table s j = None \<Longrightarrow> sys_close (int j) s = Some (s, -1)"
    using c by auto
qed

subsection \<open>Opening by name\<close>

text \<open>The string at \<open>filename\<close> is the name of a directory entry with this type and index node.\<close>

definition names_file :: "'a kernel_scheme \<Rightarrow> u32 \<Rightarrow> u32 \<Rightarrow> u32 \<Rightarrow> bool" where
  "names_file s filename ty node \<longleftrightarrow> filename \<noteq> 0 \<and> (\<exists>nm. nm \<noteq> [] \<and> holds_str (view (vmem s) filename) nm) \<and>
     (\<exists>e. find (\<lambda>j. entry_name s (vmem s) j = chars (view (vmem s) filename) 0 32) [0..<63] = Some e \<and>
       ty = load32 (vmem s) (dentry_ptr s (of_nat e) + 32) \<and> node = load32 (vmem s) (dentry_ptr s (of_nat e) + 36))"

definition names_nothing :: "'a kernel_scheme \<Rightarrow> u32 \<Rightarrow> bool" where
  "names_nothing s filename \<longleftrightarrow> filename \<noteq> 0 \<and> (\<exists>nm. holds_str (view (vmem s) filename) nm \<and>
     (nm = [] \<or> find (\<lambda>j. entry_name s (vmem s) j = chars (view (vmem s) filename) 0 32) [0..<63] = None))"

lemma sys_open_entry:
  assumes "running_ok s" "names_file s filename ty node"
  shows "sys_open junk filename s = open_entry (ty, node) s"
proof -
  obtain p where p: "running_pcb s = Some p" "proc_block s p"
    using assms(1) by (auto simp: running_ok_def fds_ok_def)
  show ?thesis
    using assms(2) open_finds [OF p] p(1) by (auto simp: names_file_def open_entry_def simp del: chars.simps)
qed

lemma sys_open_nothing:
  assumes "running_ok s" "names_nothing s filename"
  shows "sys_open junk filename s = Some (s, -1)"
proof -
  obtain p where p: "running_pcb s = Some p" "proc_block s p"
    using assms(1) by (auto simp: running_ok_def fds_ok_def)
  obtain nm where nm: "filename \<noteq> 0" "holds_str (view (vmem s) filename) nm"
    "nm = [] \<or> find (\<lambda>j. entry_name s (vmem s) j = chars (view (vmem s) filename) 0 32) [0..<63] = None"
    using assms(2) by (auto simp: names_nothing_def)
  show ?thesis
  proof (cases "nm = []")
    case True
    then show ?thesis using strlen_holds [OF nm(2)] nm(1) by (simp add: sys_open_def)
  next
    case False
    then show ?thesis using open_finds [OF p nm(1,2) False] nm(3) by simp
  qed
qed

text \<open>Opening changes nothing a name depends on.\<close>

lemma vmem_pcbs [simp]: "vmem (s\<lparr>pcbs := f\<rparr>) = vmem s"
  by (simp add: vmem_def vaddr_def user_frame_def fun_eq_iff)

lemma names_file_pcbs: "names_file (s\<lparr>pcbs := f\<rparr>) filename ty node = names_file s filename ty node"
  by (simp add: names_file_def entry_name_def dentry_ptr_def)

lemma open_entry_pcbs: "running_ok s \<Longrightarrow> open_entry d s = Some (s', r) \<Longrightarrow> \<exists>f. s' = s\<lparr>pcbs := f\<rparr>"
proof -
  assume s: "running_ok s" "open_entry d s = Some (s', r)"
  then obtain p where p: "running_pcb s = Some p" "fds_ok s p" by (auto simp: running_ok_def)
  then have "open_loop 6 2 p (fst d) (snd d) s = Some (s', r)" using s(2) by (simp add: open_entry_def)
  from open_loop_table [OF p(2) this] show ?thesis by blast
qed

text \<open>The same file opened again and again.\<close>

fun open_again :: "nat \<Rightarrow> mem \<Rightarrow> u32 \<Rightarrow> 'a kernel_scheme \<Rightarrow> ('a kernel_scheme \<times> int list) option" where
  "open_again 0 junk filename s = Some (s, [])"
| "open_again (Suc n) junk filename s =
    do { (s, r) \<leftarrow> sys_open junk filename s;
         (s, rs) \<leftarrow> open_again n junk filename s;
         Some (s, r # rs) }"

lemma open_again_allocs:
  "running_ok s \<Longrightarrow> names_file s filename ty node \<Longrightarrow>
    open_again n junk filename s = fdt.allocs (replicate n (ty, node)) s"
proof (induction n arbitrary: s)
  case (Suc n)
  have e: "sys_open junk filename s = open_entry (ty, node) s" using sys_open_entry Suc.prems by blast
  show ?case
  proof (cases "open_entry (ty, node) s")
    case None
    then show ?thesis by (simp add: e)
  next
    case (Some x)
    then obtain s1 r where o: "open_entry (ty, node) s = Some (s1, r)" by (cases x) auto
    have "names_file s1 filename ty node"
      using open_entry_pcbs [OF Suc.prems(1) o] Suc.prems(2) names_file_pcbs by blast
    moreover have "running_ok s1"
      using open_entry_table [OF Suc.prems(1), of "(ty, node)"] o Suc.prems(1)
      by (auto split: option.splits)
    ultimately show ?thesis using Suc.IH by (simp add: e o)
  qed
qed simp

lemma open_again_pcbs:
  "running_ok s \<Longrightarrow> names_file s filename ty node \<Longrightarrow> open_again n junk filename s = Some (s', rs) \<Longrightarrow>
    \<exists>f. s' = s\<lparr>pcbs := f\<rparr>"
proof (induction n arbitrary: s rs)
  case 0
  then show ?case by (auto intro: exI [of _ "pcbs s"])
next
  case (Suc n)
  obtain s1 r qs where 1: "sys_open junk filename s = Some (s1, r)" "open_again n junk filename s1 = Some (s', qs)"
    using Suc.prems(3) by (auto split: bind_splits)
  then have o: "open_entry (ty, node) s = Some (s1, r)" using sys_open_entry Suc.prems(1,2) by metis
  obtain f where f: "s1 = s\<lparr>pcbs := f\<rparr>" using open_entry_pcbs [OF Suc.prems(1) o] by blast
  have "running_ok s1"
    using open_entry_table [OF Suc.prems(1), of "(ty, node)"] o Suc.prems(1) by (auto split: option.splits)
  moreover have "names_file s1 filename ty node" using Suc.prems(2) by (simp add: f names_file_pcbs)
  ultimately obtain g where "s' = s1\<lparr>pcbs := g\<rparr>" using Suc.IH 1(2) by blast
  then show ?case using f by auto
qed

lemma sys_open_lowest:
  assumes "running_ok s" "names_file s filename ty node"
  shows "\<exists>s'. running_ok s' \<and> (case free_slot (running_table s) of
      None \<Rightarrow> sys_open junk filename s = Some (s, -1)
    | Some j \<Rightarrow> sys_open junk filename s = Some (s', int j) \<and>
        running_table s' = (running_table s)(j \<mapsto> opened ty node))"
  unfolding sys_open_entry [OF assms]
  using open_entry_table [OF assms(1), of "(ty, node)", unfolded fst_conv snd_conv] .


subsection \<open>A state for the witnesses\<close>

lemma map_to_user_kernel [frame_simps]:
  "file_sys (map_to_user_phy n a z s) = file_sys s" "dentry_addr (map_to_user_phy n a z s) = dentry_addr s"
  "dir_read_loc (map_to_user_phy n a z s) = dir_read_loc s" "screen_x (map_to_user_phy n a z s) = screen_x s"
  "screen_y (map_to_user_phy n a z s) = screen_y s" "terminals (map_to_user_phy n a z s) = terminals s"
  "current_id (map_to_user_phy n a z s) = current_id s" "curr_terminal (map_to_user_phy n a z s) = curr_terminal s"
  "process_array (map_to_user_phy n a z s) = process_array s" "current_pcb (map_to_user_phy n a z s) = current_pcb s"
  "pcbs (map_to_user_phy n a z s) = pcbs s" "op_tables (map_to_user_phy n a z s) = op_tables s"
  by (simp_all add: map_to_user_phy_def Let_def tlb_flush_def load_cr3_def)

text \<open>One process, a shell without open files, on terminal 1; the file system is \<open>small_image\<close>.\<close>

definition fd_bss :: file_descriptor where
  "fd_bss = \<lparr>op_table = Op_null, inode = 0, file_position = 0, flags = 0\<rparr>"

definition pcb_bss :: pcb where
  "pcb_bss = \<lparr>pid = 0, parent_pid = 0, fd = replicate 8 fd_bss, old_esp = 0, old_ebp = 0,
     pcb_arg = replicate 128 0, arg_size = 0, eip = 0\<rparr>"

definition kernel_bss :: kernel where
  "kernel_bss = console.extend con_up (kernel.fields (replicate 6 0) 0 (\<lambda>_. pcb_bss)
     (\<lambda>_. \<lparr>op_open = Fn_null, op_close = Fn_null, op_read = Fn_null, op_write = Fn_null\<rparr>) 0 0)"

definition kernel_up :: kernel where
  "kernel_up = map_to_user_phy 0 0x8000000 0x400000 (init_operation_table (kernel_bss\<lparr>phys := small_image,
     process_array := [1, 0, 0, 0, 0, 0], current_pcb := pcb_ptr 0,
     pcbs := (\<lambda>_. pcb_bss\<lparr>fd := fresh_fds (replicate 8 fd_bss), parent_pid := -1\<rparr>),
     terminals := (terminals con_up)[0 := (terminals con_up ! 0)\<lparr>cur_pcb := pcb_ptr 0, first_process := 1\<rparr>]\<rparr>))"

lemma con_up_more [simp]: "file_sys con_up = 0x400000" "dentry_addr con_up = 0x400000" "dir_read_loc con_up = 0"
  by (simp_all add: con_up_def console_bss_def console.defs fs.defs fs_bss_def paging.defs paging_bss_def)

lemma kernel_bss_simps [simp]:
  "screen_x kernel_bss = 0" "screen_y kernel_bss = 0" "curr_terminal kernel_bss = 0" "current_id kernel_bss = 1"
  "file_sys kernel_bss = 0x400000" "dentry_addr kernel_bss = 0x400000" "dir_read_loc kernel_bss = 0"
  by (simp_all add: kernel_bss_def console.defs kernel.defs del: con_up_simps(1))

lemma kernel_up_simps [simp]:
  "phys kernel_up = small_image" "process_array kernel_up = [1, 0, 0, 0, 0, 0]"
  "current_pcb kernel_up = pcb_ptr 0" "curr_terminal kernel_up = 0" "current_id kernel_up = 1"
  "pcbs kernel_up = (\<lambda>_. pcb_bss\<lparr>fd := fresh_fds (replicate 8 fd_bss), parent_pid := -1\<rparr>)"
  "terminals kernel_up = (terminals con_up)[0 := (terminals con_up ! 0)\<lparr>cur_pcb := pcb_ptr 0, first_process := 1\<rparr>]"
  "file_sys kernel_up = 0x400000" "dentry_addr kernel_up = 0x400000"
  "user_frame kernel_up = 0x800000" "dir_read_loc kernel_up = 0" "screen_x kernel_up = 0" "screen_y kernel_up = 0"
proof -
  show "user_frame kernel_up = 0x800000" unfolding kernel_up_def user_frame_load by (simp add: frame_of_def)
qed (simp_all add: kernel_up_def map_to_user_kernel map_to_user_phy_state init_operation_table_def)

lemma kernel_up_screen [simp]: "screen_ok kernel_up"
  by (simp add: screen_ok_def)

lemma small_image_high: "0x500000 \<le> a \<Longrightarrow> small_image a = 0"
  by (auto simp: small_image_def)

lemma vmem_kernel_up [simp]: "vmem kernel_up = small_image"
proof
  fix va
  have "small_image (0x800000 + (va - 0x8000000)) = small_image va" if "in_user_window va"
  proof -
    have "unat (va - 0x8000000) < 4194304" using that by (simp add: in_user_window_offset)
    then have "unat (0x800000 + (va - 0x8000000)) = 8388608 + unat (va - 0x8000000)"
      using unat_add_lem [of "0x800000 :: u32" "va - 0x8000000"] by simp
    then have "0x500000 \<le> 0x800000 + (va - 0x8000000)" by (simp add: word_le_nat_alt)
    moreover have "0x500000 \<le> va" using that by (simp add: in_user_window_def word_le_nat_alt)
    ultimately show ?thesis by (simp add: small_image_high)
  qed
  then show "vmem kernel_up va = small_image va" by (simp add: vmem_def vaddr_def)
qed

lemma fresh_fds_nth:
  assumes "length old = 8"
  shows "length (fresh_fds old) = 8"
    "i < 8 \<Longrightarrow> fresh_fds old ! i =
      (if i = 0 then (old ! 0)\<lparr>op_table := Stdin_table, inode := -1, file_position := 0, flags := 1\<rparr>
       else if i = 1 then (old ! 1)\<lparr>op_table := Stdout_table, inode := -1, file_position := 0, flags := 1\<rparr>
       else (old ! i)\<lparr>op_table := Op_null, inode := -1, file_position := 0, flags := 0\<rparr>)"
proof -
  let ?o = "old[0 := (old ! 0)\<lparr>op_table := Stdin_table, inode := -1, file_position := 0, flags := 1\<rparr>]"
  let ?t = "?o[1 := (?o ! 1)\<lparr>op_table := Stdout_table, inode := -1, file_position := 0, flags := 1\<rparr>]"
  let ?g = "\<lambda>_ d :: file_descriptor. d\<lparr>op_table := Op_null, inode := -1, file_position := 0, flags := 0\<rparr>"
  have f: "fresh_fds old = fold (\<lambda>x t. t[x := ?g x (t ! x)]) [2..<8] ?t"
    by (simp only: fresh_fds_def Let_def)
  have "8 \<le> length ?t" using assms by simp
  note u = fold_update [OF this, of ?g 2]
  show "length (fresh_fds old) = 8" unfolding f using u assms by simp
  show "i < 8 \<Longrightarrow> fresh_fds old ! i =
      (if i = 0 then (old ! 0)\<lparr>op_table := Stdin_table, inode := -1, file_position := 0, flags := 1\<rparr>
       else if i = 1 then (old ! 1)\<lparr>op_table := Stdout_table, inode := -1, file_position := 0, flags := 1\<rparr>
       else (old ! i)\<lparr>op_table := Op_null, inode := -1, file_position := 0, flags := 0\<rparr>)"
    unfolding f using conjunct2 [OF u, rule_format, of i] assms by (auto simp del: upt_rec_numeral)
qed

lemma fresh_table:
  "length old = 8 \<Longrightarrow> fd (pcbs s p) = fresh_fds old \<Longrightarrow> fd_table s p = [0 \<mapsto> Stream_in, 1 \<mapsto> Stream_out]"
  by (auto simp: fd_table_def fresh_fds_nth fd_abs_def fun_eq_iff)

lemma fresh_ok:
  "length old = 8 \<Longrightarrow> fd (pcbs s p) = fresh_fds old \<Longrightarrow> p \<in> set (map pcb_ptr [0, 1, 2, 3, 4, 5]) \<Longrightarrow> fds_ok s p"
  by (simp add: fds_ok_def proc_block_def fresh_table [of old]) (auto simp: fresh_fds_nth)

lemma kernel_up_ok: "running_ok kernel_up" "running_pcb kernel_up = Some (pcb_ptr 0)"
  "running_table kernel_up = [0 \<mapsto> Stream_in, 1 \<mapsto> Stream_out]"
proof -
  show r: "running_pcb kernel_up = Some (pcb_ptr 0)" by (simp add: running_pcb_def term_ix_def)
  have "tables_ok kernel_up"
    by (simp add: kernel_up_def map_to_user_kernel tables_ok_def init_operation_table_def)
  moreover have "fds_ok kernel_up (pcb_ptr 0)"
    by (rule fresh_ok [of "replicate 8 fd_bss"]) simp_all
  ultimately show "running_ok kernel_up" using r by (auto simp: running_ok_def)
  show "running_table kernel_up = [0 \<mapsto> Stream_in, 1 \<mapsto> Stream_out]" by (simp add: running_table_def r fresh_table [of "replicate 8 fd_bss"])
qed

lemma kernel_up_names: "names_file kernel_up 0x400040 2 0"
proof -
  have "chars (view small_image 0x400040) 0 32 = entry_name kernel_up small_image 0"
    by (simp add: entry_name_def dentry_ptr_def del: chars.simps)
  then have "find (\<lambda>j. entry_name kernel_up small_image j = chars (view small_image 0x400040) 0 32) [0..<63] = Some 0"
    using upt_conv_Cons [of 0 63] by (simp del: chars.simps view_apply upt_rec_numeral)
  moreover have "2 = load32 small_image (dentry_ptr kernel_up (of_nat 0) + 32)"
    "0 = load32 small_image (dentry_ptr kernel_up (of_nat 0) + 36)"
    by (simp_all add: load32_def small_image_def dentry_ptr_def)
  moreover have "holds_str (view small_image 0x400040) [0x6C, 0x73]"
  proof -
    have "view small_image 0x400040 0 = 0x6C" "view small_image 0x400040 1 = 0x73" "view small_image 0x400040 2 = 0"
      by (simp_all add: small_image_def)
    then show ?thesis
      by (auto simp: holds_str_def less_Suc_eq simp del: view_apply)
  qed
  moreover have "[0x6C, 0x73 :: u8] \<noteq> []" "(0x400040 :: u32) \<noteq> 0" by simp_all
  ultimately show ?thesis
    unfolding names_file_def vmem_kernel_up by blast
qed

subsection \<open>Properties\<close>

text \<open>C37: \<open>open\<close> enters the file in the lowest free descriptor from 2 to 7 and returns its number,
  at position 0 and with the kind and index node of the directory entry, and changes no other
  descriptor; with all descriptors in use it returns -1 and changes nothing.\<close>

theorem open_takes_lowest_free:
  assumes "running_ok s" "names_file s filename ty node"
  shows "\<exists>s'. running_ok s' \<and> (case free_slot (running_table s) of
      None \<Rightarrow> sys_open junk filename s = Some (s, -1)
    | Some j \<Rightarrow> sys_open junk filename s = Some (s', int j) \<and>
        running_table s' = (running_table s)(j \<mapsto> opened ty node))"
  using assms by (rule sys_open_lowest)

theorem open_takes_lowest_free_witness:
  "\<exists>s'. sys_open (\<lambda>_. 0) 0x400040 kernel_up = Some (s', 2) \<and> running_table s' 2 = Some (Regular 0 0)"
proof -
  have "free_slot (running_table kernel_up) = Some 2" by (simp add: free_slot_def kernel_up_ok)
  then show ?thesis
    using open_takes_lowest_free [OF kernel_up_ok(1) kernel_up_names, of "\<lambda>_. 0"] by (auto simp: opened_def)
qed

text \<open>C38: Opening a file and closing the descriptor leaves the table of open files as it was.\<close>

theorem open_close_round_trip:
  assumes "running_ok s" "names_file s filename ty node" "sys_open junk filename s = Some (s', int j)"
  shows "\<exists>s''. sys_close (int j) s' = Some (s'', 0) \<and> running_table s'' = running_table s \<and> running_ok s''"
  using fdt.alloc_release [OF assms(1)] assms(3) sys_open_entry [OF assms(1,2)] by simp

theorem open_close_round_trip_witness:
  "\<exists>s' s''. sys_open (\<lambda>_. 0) 0x400040 kernel_up = Some (s', 2) \<and> sys_close 2 s' = Some (s'', 0) \<and>
    running_table s'' = running_table kernel_up"
proof -
  have "free_slot (running_table kernel_up) = Some 2" by (simp add: free_slot_def kernel_up_ok)
  then obtain s' where "sys_open (\<lambda>_. 0) 0x400040 kernel_up = Some (s', int 2)"
    using open_entry_table [OF kernel_up_ok(1), of "(2, 0)"] sys_open_entry [OF kernel_up_ok(1) kernel_up_names]
    by auto
  then show ?thesis
    using open_close_round_trip [OF kernel_up_ok(1) kernel_up_names, of "\<lambda>_. 0" s' 2] by auto
qed

text \<open>A process without open files can open six; the seventh \<open>open\<close> fails.\<close>

theorem six_files_open:
  assumes "running_ok s" "names_file s filename ty node" "\<forall>j. 2 \<le> j \<longrightarrow> running_table s j = None"
  shows "\<exists>s'. open_again 6 junk filename s = Some (s', [2, 3, 4, 5, 6, 7]) \<and>
    sys_open junk filename s' = Some (s', -1) \<and>
    (\<forall>j \<in> {2..<8}. running_table s' j = Some (opened ty node))"
proof -
  have "\<exists>s'. fdt.allocs (replicate 6 (ty, node)) s = Some (s', map int [2..<8]) \<and> running_ok s' \<and>
      running_table s' = (\<lambda>j. if 2 \<le> j \<and> j < 8 then
        Some (opened (fst (replicate 6 (ty, node) ! (j - 2))) (snd (replicate 6 (ty, node) ! (j - 2))))
        else running_table s j)"
    using assms by (intro fdt.allocs_fill) auto
  then obtain s' where s': "fdt.allocs (replicate 6 (ty, node)) s = Some (s', map int [2..<8])" "running_ok s'"
    "running_table s' = (\<lambda>j. if 2 \<le> j \<and> j < 8 then
        Some (opened (fst (replicate 6 (ty, node) ! (j - 2))) (snd (replicate 6 (ty, node) ! (j - 2))))
        else running_table s j)" by blast
  have full: "running_table s' j = Some (opened ty node)" if "j \<in> {2..<8}" for j
  proof -
    have "replicate 6 (ty, node) ! (j - 2) = (ty, node)" using that by (intro nth_replicate) auto
    then show ?thesis using that by (simp add: s'(3))
  qed
  then have "free_slot (running_table s') = None" by (auto simp: free_slot_def find_None_iff simp del: upt_rec_numeral)
  then have "open_entry (ty, node) s' = Some (s', -1)" using fdt.alloc_full [OF s'(2)] by blast
  moreover have again: "open_again 6 junk filename s = Some (s', [2, 3, 4, 5, 6, 7])"
    using s'(1) open_again_allocs [OF assms(1,2)] by (simp add: upt_rec)
  moreover have "sys_open junk filename s' = open_entry (ty, node) s'"
    using open_again_pcbs [OF assms(1,2) again] sys_open_entry [OF s'(2)] assms(2) names_file_pcbs by metis
  ultimately show ?thesis using full by metis
qed

theorem six_files_open_witness:
  "\<exists>s'. open_again 6 (\<lambda>_. 0) 0x400040 kernel_up = Some (s', [2, 3, 4, 5, 6, 7]) \<and>
    sys_open (\<lambda>_. 0) 0x400040 s' = Some (s', -1)"
  using six_files_open [OF kernel_up_ok(1) kernel_up_names, of "\<lambda>_. 0"] by (auto simp: kernel_up_ok)

subsection \<open>Reading a file\<close>

text \<open>Descriptor \<open>i\<close> of the running process is a file, and memory holds its blocks.\<close>

definition reads_file :: "'a kernel_scheme \<Rightarrow> nat \<Rightarrow> u32 \<Rightarrow> u32 \<Rightarrow> bool" where
  "reads_file s i node pos \<longleftrightarrow> running_ok s \<and> i < 8 \<and> running_table s i = Some (Regular node pos)"

lemma reads_file_fd:
  assumes "reads_file s i node pos"
  shows "\<exists>p. running_pcb s = Some p \<and> fds_ok s p \<and> proc_block s p \<and>
    fd_at s p i = Some (fd (pcbs s p) ! i) \<and> flags (fd (pcbs s p) ! i) \<noteq> 0 \<and>
    op_table (fd (pcbs s p) ! i) = File_table \<and> inode (fd (pcbs s p) ! i) = node \<and>
    file_position (fd (pcbs s p) ! i) = pos"
proof -
  obtain p where p: "running_pcb s = Some p" "fds_ok s p"
    using assms by (auto simp: reads_file_def running_ok_def)
  then have "fd_abs (fd (pcbs s p) ! i) = Some (Regular node pos)"
    using assms by (auto simp: reads_file_def running_table_def fd_table_def)
  then have "flags (fd (pcbs s p) ! i) \<noteq> 0" "op_table (fd (pcbs s p) ! i) = File_table"
    "inode (fd (pcbs s p) ! i) = node" "file_position (fd (pcbs s p) ! i) = pos"
    by (cases "op_table (fd (pcbs s p) ! i)"; auto simp: fd_abs_def split: if_splits)+
  then show ?thesis
    using p proc_block_fd [of s p i] assms by (auto simp: fds_ok_def reads_file_def)
qed

text \<open>
  Where the memory of the call ends up: the new view of memory holds what \<open>read_data\<close>
  produced.  The image must be in kernel memory and the buffer in the user window, as they
  are in this system.
\<close>

definition image_kernel :: "'a kernel_scheme \<Rightarrow> nat \<Rightarrow> bool" where
  "image_kernel s sz \<longleftrightarrow> (\<forall>x < sz. \<not> in_user_window (dentry_addr s + of_nat x) \<and>
     \<not> in_frame (user_frame s) (dentry_addr s + of_nat x))"

lemma sys_read_file:
  assumes r: "reads_file s i node pos" and d: "read_data s (vmem s) node pos buf n = (m, c)"
    and l: "file_size (set_vmem m s) (vmem (set_vmem m s)) node = len"
  shows "\<exists>s'. sys_read env junk (int i) buf n s = Some (s', if pos + c > len then 0 else sint c) \<and>
    running_ok s' \<and> running_table s' = (running_table s)(i \<mapsto> Regular node (if pos + c > len then 0 else pos + c)) \<and>
    vmem s' = vmem (set_vmem m s) \<and> phys s' = phys (set_vmem m s) \<and>
    (\<exists>f. s' = (set_vmem m s)\<lparr>pcbs := f\<rparr>)"
proof -
  obtain p where p: "running_pcb s = Some p" "fds_ok s p" "proc_block s p"
    "fd_at s p i = Some (fd (pcbs s p) ! i)" "flags (fd (pcbs s p) ! i) \<noteq> 0"
    "op_table (fd (pcbs s p) ! i) = File_table" "inode (fd (pcbs s p) ! i) = node"
    "file_position (fd (pcbs s p) ! i) = pos"
    using reads_file_fd [OF r] by blast
  have "fd_table s p 0 = Some Stream_in" "fd_table s p 1 = Some Stream_out" "fd_table s p i = Some (Regular node pos)"
    using r p(1,2) by (auto simp: reads_file_def running_table_def fds_ok_def)
  then have "i \<noteq> 0" "i \<noteq> 1" by (metis open_file.simps option.inject)+
  then have i: "i < 8" "2 \<le> i" "tables_ok s" using r by (auto simp: reads_file_def running_ok_def)
  define q where "q = (if pos + c > len then 0 else pos + c)"
  define s' where "s' = upd_fd p i (\<lambda>d. d\<lparr>file_position := q\<rparr>) (set_vmem m s)"
  have b: "proc_block (set_vmem m s) p" using p(3) by (simp add: proc_block_def frame_simps)
  have fs: "file_size (upd_fd p i f (set_vmem m s)) = file_size (set_vmem m s)" for f
    by (simp add: fun_eq_iff file_size_def upd_fd_def frame_simps)
  have at: "fd_at (upd_fd p i (\<lambda>d. d\<lparr>file_position := file_position d + c\<rparr>) (set_vmem m s)) p i =
      Some ((fd (pcbs s p) ! i)\<lparr>file_position := pos + c\<rparr>)"
    using b i p(3,8) by (simp add: proc_block_fd pcbs_upd_fd frame_simps proc_block_def)
  have keep: "upd_fd p i (\<lambda>d. d\<lparr>file_position := file_position d + c\<rparr>) (set_vmem m s) =
      upd_fd p i (\<lambda>d. d\<lparr>file_position := pos + c\<rparr>) (set_vmem m s)"
    using p(8) by (simp add: upd_fd_def upd_pcb_def frame_simps)
  have "file_read i buf n s = Some (s', if pos + c > len then 0 else sint c)"
    using p d l at fs
    by (simp add: file_read_def s'_def q_def upd_fd_twice [OF b i(1)] keep frame_simps)
  then have call: "sys_read env junk (int i) buf n s = Some (s', if pos + c > len then 0 else sint c)"
    using i p by (simp add: sys_read_def tables_ok_at [OF i(3)] call_read_def)
  have fds: "fds_ok (set_vmem m s) p"
    using p(2) by (simp add: fds_ok_def proc_block_def fd_table_def frame_simps)
  have "fds_ok s' p" unfolding s'_def
    by (rule fds_ok_upd [OF fds i(2,1)]) (simp add: frame_simps p(6))
  moreover have "running_pcb s' = Some p" using p(1) by (simp add: s'_def)
  moreover have "tables_ok s'"
    using i(3) by (simp add: s'_def tables_ok_def upd_fd_def frame_simps init_operation_table_def)
  moreover have "fd_table s' p = (fd_table s p)(i \<mapsto> Regular node q)"
    unfolding s'_def fd_table_upd [OF b i(1)]
    using p by (simp add: frame_simps fd_abs_def) (simp add: fd_table_def frame_simps fun_eq_iff)
  moreover have "vmem s' = vmem (set_vmem m s)" "phys s' = phys (set_vmem m s)"
    by (simp_all add: s'_def) (simp add: upd_fd_def frame_simps)
  moreover have "\<exists>f. s' = (set_vmem m s)\<lparr>pcbs := f\<rparr>" by (auto simp: s'_def upd_fd_def upd_pcb_def)
  ultimately show ?thesis using call p(1) by (auto simp: running_ok_def running_table_def q_def)
qed

text \<open>What a file is depends on the bytes of the image only.\<close>

lemma image_load_cong:
  assumes "\<forall>x < sz. m' (base + of_nat x) = m (base + of_nat x)" "x + 4 \<le> sz"
  shows "load32 m' (base + of_nat x) = load32 m (base + of_nat x)"
proof -
  have e: "m' (base + of_nat (x + k)) = m (base + of_nat (x + k))" if "k < 4" for k
    using assms(1) [rule_format, of "x + k"] assms(2) that by (simp del: of_nat_add)
  show ?thesis
    using e [of 0] e [of 1] e [of 2] e [of 3] by (intro load32_cong) (simp_all add: ac_simps)
qed

lemma image_cong:
  assumes eq: "\<forall>x < sz. m' (dentry_addr s + of_nat x) = m (dentry_addr s + of_nat x)"
    and img: "file_in_image s m sz node k"
  shows "inode_length s m' node = inode_length s m node"
    and "j < k \<Longrightarrow> file_byte s m' node j = file_byte s m node j"
    and "file_in_image s m' sz node k"
proof -
  have sz: "(unat node + 2) * 4096 \<le> sz" "8 \<le> sz" "file_sys s = dentry_addr s"
    using img by (auto simp: file_in_image_def)
  show l: "inode_length s m' node = inode_length s m node"
    unfolding inode_length_def image_words(1) using sz by (intro image_load_cong [OF eq]) simp
  have n: "num_inode s m' = num_inode s m"
    using image_load_cong [OF eq, of 4] sz by (simp add: num_inode_def)
  have d: "data_block_index s m' node (of_nat j) = data_block_index s m node (of_nat j)" if "j < 1023" for j
    unfolding data_block_index_def image_words(2) using that sz by (intro image_load_cong [OF eq]) simp
  have blk: "j div 4096 < 1023 \<and>
      (unat (num_inode s m) + 2 + unat (data_block_index s m node (of_nat (j div 4096)))) * 4096 \<le> sz" if "j < k" for j
    using img that by (auto simp: file_in_image_def)
  show "file_in_image s m' sz node k"
    using img blk d by (auto simp: file_in_image_def n)
  show "j < k \<Longrightarrow> file_byte s m' node j = file_byte s m node j"
  proof -
    assume j: "j < k"
    have "(unat (num_inode s m) + 1 + unat (data_block_index s m node (of_nat (j div 4096)))) * 4096 + j mod 4096 < sz"
    proof -
      have lt: "a * 4096 + j mod 4096 < (a + 1) * 4096" for a by simp
      show ?thesis by (rule less_le_trans [OF lt]) (use blk [OF j] in \<open>simp add: add.commute\<close>)
    qed
    then show ?thesis
      using eq blk [OF j] by (simp only: file_byte_def image_words n d)
  qed
qed

definition file_ready :: "'a kernel_scheme \<Rightarrow> nat \<Rightarrow> u32 \<Rightarrow> u32 \<Rightarrow> nat \<Rightarrow> bool" where
  "file_ready s i node pos sz \<longleftrightarrow> reads_file s i node pos \<and> image_kernel s sz \<and>
     file_in_image s (vmem s) sz node (unat (inode_length s (vmem s) node))"

definition user_buf :: "'a kernel_scheme \<Rightarrow> u32 \<Rightarrow> nat \<Rightarrow> nat \<Rightarrow> bool" where
  "user_buf s buf n sz \<longleftrightarrow> sep buf n (dentry_addr s) sz \<and> n < 2147483648 \<and>
     (\<forall>j<n. in_user_window (buf + of_nat j))"

lemma image_after_write:
  assumes "image_kernel s sz" "user_buf s buf n sz"
  shows "\<forall>x < sz. vmem (set_vmem (overlay (vmem s) buf n f) s) (dentry_addr s + of_nat x) = vmem s (dentry_addr s + of_nat x)"
    and "\<forall>j<n. vmem (set_vmem (overlay (vmem s) buf n f) s) (buf + of_nat j) = f j"
proof -
  show "\<forall>j<n. vmem (set_vmem (overlay (vmem s) buf n f) s) (buf + of_nat j) = f j"
    using assms(2) by (auto simp: user_buf_def vmem_set_window overlay_inside)
  have "\<not> unat (dentry_addr s + of_nat x - buf) < n" if "x < sz" for x
    using sep_notin [of buf n "dentry_addr s" sz x] assms(2) that by (simp add: user_buf_def)
  then show "\<forall>x < sz. vmem (set_vmem (overlay (vmem s) buf n f) s) (dentry_addr s + of_nat x) = vmem s (dentry_addr s + of_nat x)"
    using assms(1) by (simp add: image_kernel_def vmem_set_kernel overlay_outside)
qed

text \<open>A read of \<open>c\<close> bytes, given what \<open>read_data\<close> copies.\<close>

lemma file_read_effect:
  assumes r: "file_ready s i node pos sz" and u: "user_buf s buf c sz"
    and d: "read_data s (vmem s) node pos buf n = (overlay (vmem s) buf c f, of_nat c)"
  defines "q \<equiv> pos + of_nat c"
  shows "\<exists>s'. sys_read env junk (int i) buf n s =
      Some (s', if q > inode_length s (vmem s) node then 0 else int c) \<and>
    file_ready s' i node (if q > inode_length s (vmem s) node then 0 else q) sz \<and>
    inode_length s' (vmem s') node = inode_length s (vmem s) node \<and>
    file_contents s' (vmem s') node = file_contents s (vmem s) node \<and>
    (\<forall>j<c. vmem s' (buf + of_nat j) = f j) \<and> (\<forall>b k z. user_buf s' b k z = user_buf s b k z) \<and>
    (\<forall>k. file_in_image s (vmem s) sz node k \<longrightarrow> file_in_image s' (vmem s') sz node k) \<and>
    (\<exists>g. s' = (set_vmem (overlay (vmem s) buf c f) s)\<lparr>pcbs := g\<rparr>)"
proof -
  let ?m = "overlay (vmem s) buf c f"
  have rf: "reads_file s i node pos" "image_kernel s sz"
    "file_in_image s (vmem s) sz node (unat (inode_length s (vmem s) node))"
    using r by (simp_all add: file_ready_def)
  note w = image_after_write [OF rf(2) u, of f]
  note c = image_cong [OF w(1) rf(3)]
  have sc: "sint (of_nat c :: u32) = int c" using u by (intro sint_of_nat32) (simp add: user_buf_def)
  have "file_size (set_vmem ?m s) (vmem (set_vmem ?m s)) node = inode_length s (vmem s) node"
    using c(1) by (simp add: file_size_def inode_length_def frame_simps)
  from sys_read_file [OF rf(1) d this, unfolded sc, folded q_def]
  obtain s' g where s': "sys_read env junk (int i) buf n s =
      Some (s', if q > inode_length s (vmem s) node then 0 else int c)" "running_ok s'"
    "running_table s' = (running_table s)(i \<mapsto> Regular node (if q > inode_length s (vmem s) node then 0 else q))"
    "vmem s' = vmem (set_vmem ?m s)" "s' = (set_vmem ?m s)\<lparr>pcbs := g\<rparr>"
    by blast
  have fields: "dentry_addr s' = dentry_addr s" "file_sys s' = file_sys s" "user_frame s' = user_frame s"
    by (simp_all add: s'(5) frame_simps user_frame_def)
  have len: "inode_length s' (vmem s') node = inode_length s (vmem s) node"
    using c(1) by (simp add: inode_length_def fields s'(4))
  have fb: "file_byte s' x node j = file_byte s x node j" for x j
    by (simp add: file_byte_def cur_pos_def data_block_index_def num_inode_def fields)
  have fi: "file_in_image s' x z nd k = file_in_image s x z nd k" for x z nd k
    by (simp add: file_in_image_def num_inode_def data_block_index_def fields)
  have "file_in_image s' (vmem s') sz node (unat (inode_length s' (vmem s') node))"
    unfolding len unfolding s'(4) fi by (rule c(3))
  moreover have "\<forall>k. file_in_image s (vmem s) sz node k \<longrightarrow> file_in_image s' (vmem s') sz node k"
    unfolding s'(4) fi using image_cong(3) [OF w(1)] by blast
  moreover have "image_kernel s' sz" using rf(2) by (simp add: image_kernel_def fields)
  moreover have "file_contents s' (vmem s') node = file_contents s (vmem s) node"
    unfolding file_contents_def len using c(2) by (simp add: fb s'(4))
  moreover have "user_buf s' b k z = user_buf s b k z" for b k z by (simp add: user_buf_def fields)
  ultimately show ?thesis
    using s'(1-4) w(2) len rf(1) exI [of "\<lambda>g. s' = (set_vmem ?m s)\<lparr>pcbs := g\<rparr>", OF s'(5)]
    by (intro exI [of _ s'] conjI) (simp_all add: file_ready_def reads_file_def)
qed

lemma file_read_window:
  assumes r: "file_ready s i node (of_nat pos) sz" and u: "user_buf s buf c sz" and c: "0 < c"
    and l: "pos + c \<le> unat (inode_length s (vmem s) node)"
  shows "\<exists>s'. sys_read env junk (int i) buf (of_nat c) s = Some (s', int c) \<and>
    file_ready s' i node (of_nat (pos + c)) sz \<and>
    inode_length s' (vmem s') node = inode_length s (vmem s) node \<and>
    file_contents s' (vmem s') node = file_contents s (vmem s) node \<and>
    bytes (vmem s') buf c = take c (drop pos (file_contents s (vmem s) node)) \<and>
    (\<forall>b k z. user_buf s' b k z = user_buf s b k z) \<and>
    (\<forall>k. file_in_image s (vmem s) sz node k \<longrightarrow> file_in_image s' (vmem s') sz node k)"
proof -
  let ?L = "inode_length s (vmem s) node"
  have small: "unat (of_nat pos :: u32) = pos" "unat (of_nat c :: u32) = c" "unat (of_nat (pos + c) :: u32) = pos + c"
    using l unat_lt32 [of ?L] by (intro unat_of_nat32; simp)+
  have img: "file_in_image s (vmem s) sz node (unat ?L)" using r by (simp add: file_ready_def)
  have d: "read_data s (vmem s) node (of_nat pos) buf (of_nat c) =
      (overlay (vmem s) buf c (\<lambda>j. file_byte s (vmem s) node (pos + j)), of_nat c)"
    using read_data_window(1) [OF img, of buf "of_nat c" "of_nat pos"] u l c small
    by (simp add: user_buf_def word_less_nat_alt)
  have q: "\<not> of_nat pos + of_nat c > ?L" using l small(3) by (simp add: word_less_nat_alt)
  from file_read_effect [OF r u d, of env junk] q
  obtain s' where s': "sys_read env junk (int i) buf (of_nat c) s = Some (s', int c)"
    "file_ready s' i node (of_nat pos + of_nat c) sz"
    "inode_length s' (vmem s') node = ?L" "file_contents s' (vmem s') node = file_contents s (vmem s) node"
    "\<forall>j<c. vmem s' (buf + of_nat j) = file_byte s (vmem s) node (pos + j)"
    "\<forall>b k z. user_buf s' b k z = user_buf s b k z"
    "\<forall>k. file_in_image s (vmem s) sz node k \<longrightarrow> file_in_image s' (vmem s') sz node k"
    by auto
  have "bytes (vmem s') buf c = map (\<lambda>j. file_byte s (vmem s) node (pos + j)) [0..<c]"
    using s'(5) by (simp add: bytes_def)
  also have "\<dots> = take c (drop pos (file_contents s (vmem s) node))"
    unfolding file_contents_def by (rule map_window [OF l])
  finally show ?thesis using s' by auto
qed

text \<open>\<open>k\<close> reads of \<open>c\<close> bytes each, with the return values and what each put into the buffer.\<close>

fun read_chunks :: "nat \<Rightarrow> int \<Rightarrow> u32 \<Rightarrow> nat \<Rightarrow> 'a kernel_scheme \<Rightarrow> ('a kernel_scheme \<times> (int \<times> u8 list) list) option" where
  "read_chunks 0 i buf c s = Some (s, [])"
| "read_chunks (Suc k) i buf c s =
    do { (s, r) \<leftarrow> sys_read [] (\<lambda>_. 0) i buf (of_nat c) s;
         (s', rs) \<leftarrow> read_chunks k i buf c s;
         Some (s', (r, bytes (vmem s) buf (nat r)) # rs) }"

lemma read_chunks_window:
  "file_ready s i node (of_nat pos) sz \<Longrightarrow> user_buf s buf c sz \<Longrightarrow> 0 < c \<Longrightarrow>
   pos + k * c \<le> unat (inode_length s (vmem s) node) \<Longrightarrow> fl = file_contents s (vmem s) node \<Longrightarrow>
   \<exists>s'. read_chunks k (int i) buf c s = Some (s', map (\<lambda>j. (int c, take c (drop (pos + j * c) fl))) [0..<k]) \<and>
     file_ready s' i node (of_nat (pos + k * c)) sz \<and> user_buf s' buf c sz \<and>
     inode_length s' (vmem s') node = inode_length s (vmem s) node \<and> file_contents s' (vmem s') node = fl"
proof (induction k arbitrary: s pos)
  case (Suc k)
  have "pos + c \<le> unat (inode_length s (vmem s) node)" using Suc.prems(4) by simp
  from file_read_window [OF Suc.prems(1-3) this, of "[]" "\<lambda>_. 0"]
  obtain s1 where s1: "sys_read [] (\<lambda>_. 0) (int i) buf (of_nat c) s = Some (s1, int c)"
    "file_ready s1 i node (of_nat (pos + c)) sz" "inode_length s1 (vmem s1) node = inode_length s (vmem s) node"
    "file_contents s1 (vmem s1) node = fl" "bytes (vmem s1) buf c = take c (drop pos fl)"
    "user_buf s1 buf c sz"
    using Suc.prems(2,5) by auto
  have "\<exists>s'. read_chunks k (int i) buf c s1 =
      Some (s', map (\<lambda>j. (int c, take c (drop (pos + c + j * c) fl))) [0..<k]) \<and>
     file_ready s' i node (of_nat (pos + c + k * c)) sz \<and> user_buf s' buf c sz \<and>
     inode_length s' (vmem s') node = inode_length s1 (vmem s1) node \<and> file_contents s' (vmem s') node = fl"
    using Suc.prems(3,4) s1 by (intro Suc.IH) (simp_all add: algebra_simps)
  then obtain s2 where s2: "read_chunks k (int i) buf c s1 =
      Some (s2, map (\<lambda>j. (int c, take c (drop (pos + c + j * c) fl))) [0..<k])"
    "file_ready s2 i node (of_nat (pos + c + k * c)) sz" "user_buf s2 buf c sz"
    "inode_length s2 (vmem s2) node = inode_length s1 (vmem s1) node" "file_contents s2 (vmem s2) node = fl"
    by blast
  have "[0..<Suc k] = 0 # map Suc [0..<k]" by (simp add: map_Suc_upt upt_conv_Cons)
  then show ?case
    using s1 s2 by (simp add: add.assoc comp_def)
qed simp

text \<open>C39: Reading an open file in pieces delivers it in order: the \<open>j\<close>-th read of \<open>c\<close> bytes returns
  \<open>c\<close> and puts bytes \<open>j c\<close> to \<open>(j + 1) c\<close> of the file into the caller's buffer, as long as the
  pieces lie inside the file.\<close>

theorem file_read_in_pieces:
  assumes "file_ready s i node 0 sz" "user_buf s buf c sz" "0 < c"
    and "k * c \<le> unat (inode_length s (vmem s) node)"
  shows "\<exists>s'. read_chunks k (int i) buf c s =
      Some (s', map (\<lambda>j. (int c, take c (drop (j * c) (file_contents s (vmem s) node)))) [0..<k]) \<and>
    running_table s' i = Some (Regular node (of_nat (k * c)))"
  using read_chunks_window [of s i node 0 sz buf c k] assms
  by (fastforce simp: file_ready_def reads_file_def)


text \<open>The state after opening the only file of the image.\<close>

lemma kernel_up_opened:
  "\<exists>s. sys_open (\<lambda>_. 0) 0x400040 kernel_up = Some (s, 2) \<and> file_ready s 2 0 0 0x3000 \<and>
    vmem s = small_image \<and> inode_length s (vmem s) 0 = 5 \<and> file_contents s (vmem s) 0 = ascii ''hello'' \<and>
    (\<forall>k. k \<le> 4096 \<longrightarrow> file_in_image s (vmem s) 0x3000 0 k) \<and> user_buf s 0x8000000 4 0x3000"
proof -
  have "free_slot (running_table kernel_up) = Some 2" by (simp add: free_slot_def kernel_up_ok)
  then obtain s where s: "sys_open (\<lambda>_. 0) 0x400040 kernel_up = Some (s, 2)" "running_ok s"
    "running_table s 2 = Some (Regular 0 0)"
    using sys_open_lowest [OF kernel_up_ok(1) kernel_up_names, of "\<lambda>_. 0"] by (auto simp: opened_def)
  obtain f where f: "s = kernel_up\<lparr>pcbs := f\<rparr>"
    using open_entry_pcbs [OF kernel_up_ok(1)] s(1) sys_open_entry [OF kernel_up_ok(1) kernel_up_names] by metis
  have v: "vmem s = small_image" by (simp add: f)
  have fields: "dentry_addr s = 0x400000" "file_sys s = 0x400000" "user_frame s = 0x800000"
    using kernel_up_simps(10) by (simp_all add: f user_frame_def)
  have same: "file_in_image s = file_in_image fs_bss" "inode_length s = inode_length fs_bss"
    "file_contents s = file_contents fs_bss"
    by (auto simp: fun_eq_iff file_in_image_def inode_length_def num_inode_def data_block_index_def fields
        file_contents_def file_byte_def cur_pos_def)
  have "image_kernel s 0x3000"
    unfolding image_kernel_def fields
  proof (intro allI impI)
    fix x :: nat assume "x < 0x3000"
    then have "unat (0x400000 + of_nat x :: u32) = 4194304 + x"
      by (simp add: unat_word_ariths unat_of_nat32)
    then show "\<not> in_user_window (0x400000 + of_nat x) \<and> \<not> in_frame 0x800000 (0x400000 + of_nat x)"
      using \<open>x < 0x3000\<close> by (simp add: in_user_window_def in_frame_def word_le_nat_alt unat_sub_if' unat_of_nat32)
  qed
  moreover have "user_buf s 0x8000000 4 0x3000"
  proof -
    have "in_user_window (0x8000000 + of_nat j)" if "j < 4" for j
      using that by (simp add: in_user_window_def word_le_nat_alt word_less_nat_alt unat_word_ariths unat_of_nat32)
    then show ?thesis by (simp add: user_buf_def sep_def fields)
  qed
  ultimately show ?thesis
    using s v small_image_file small_image_simps small_image_contents
    by (intro exI [of _ s]) (simp add: file_ready_def reads_file_def same)
qed

theorem file_read_in_pieces_witness:
  "\<exists>s s'. sys_open (\<lambda>_. 0) 0x400040 kernel_up = Some (s, 2) \<and>
    read_chunks 2 2 0x8000000 2 s = Some (s', [(2, ascii ''he''), (2, ascii ''ll'')])"
proof -
  obtain s where s: "sys_open (\<lambda>_. 0) 0x400040 kernel_up = Some (s, 2)" "file_ready s 2 0 0 0x3000"
    "vmem s = small_image" "inode_length s (vmem s) 0 = 5" "file_contents s (vmem s) 0 = ascii ''hello''"
    "user_buf s 0x8000000 4 0x3000"
    using kernel_up_opened by blast
  have "user_buf s 0x8000000 2 0x3000" using s(6) by (auto simp: user_buf_def sep_def)
  from file_read_in_pieces [OF s(2) this, of 2] s(4,5) show ?thesis
    using s(1) by (auto simp: upt_rec ascii_def)
qed


end
