(* ===== verification/Key_Handler.thy ===== *)
theory Key_Handler
  imports Descriptors
begin

text \<open>
  Switching terminals (\<open>switch_to_terminal_1\<close> to \<open>_3\<close> of \<open>terminal.c\<close>) and the keyboard's
  interrupt handler (\<open>print_keyboard\<close> of \<open>keyboard.c\<close>), which calls them.  A switch to a terminal
  that was never open starts a shell there and leaves the handler for user code; this is
  the second component of the result, the entry point and the stack of \<open>iret\<close>.
\<close>

type_synonym entered = "(u32 \<times> u32) option"

subsection \<open>Switching\<close>

definition already_msg :: "nat \<Rightarrow> cstr" where
  "already_msg n = array_str (ascii ''already in terminal '' @ [0x30 + of_nat n, 0])"

text \<open>The three copies of the code differ in one place: terminal 1 fills the line buffer last.\<close>

definition restore_terminal_1 :: "'a console_scheme \<Rightarrow> 'a console_scheme option" where
  "restore_terminal_1 s =
    do { let s = s\<lparr>current_id := 1\<rparr>;
         k \<leftarrow> cur_ix s;
         let t = terminals s ! k;
         let s = s\<lparr>terminal_buffer_index := t_buf_index t\<rparr>;
         let s = s\<lparr>current_x := sint (t_screen_x t), current_y := sint (t_screen_y t),
                   current_cursor_x := sint (t_cursor_x t), current_cursor_y := sint (t_cursor_y t)\<rparr>;
         let s = s\<lparr>phys := memcpy (phys s) screen_memeory (video_ptr t) 0x1000\<rparr>;
         let s = reset_cursor (current_cursor_x s) (current_cursor_y s) s;
         let s = reset_position (current_x s) (current_y s) s;
         copy_to_keyboard_buf (sint (t_buf_index t)) (t_buf t) s }"

definition switch_to_terminal_1 :: "mem \<Rightarrow> 'a kernel_scheme \<Rightarrow> 'a kernel_scheme option" where
  "switch_to_terminal_1 junk s =
    (if current_id s = 1 then do { (s, n) \<leftarrow> printf junk (already_msg 1) (\<lambda>_. 0) s; Some s }
     else do { s \<leftarrow> save_terminal s; restore_terminal_1 s })"

text \<open>The branch for a terminal that is not open yet, up to \<open>sti()\<close>.\<close>

definition open_screen :: "int \<Rightarrow> nat \<Rightarrow> 'a console_scheme \<Rightarrow> 'a console_scheme option" where
  "open_screen n k s =
    do { let s = upd_term k (\<lambda>t. t\<lparr>t_open := 1\<rparr>) s;
         let s = clear s;
         let s = reset_position 0 0 s;
         let s = reset_cursor 0 0 s;
         let s = s\<lparr>current_id := n\<rparr>;
         b \<leftarrow> clear_array (term_buf s) 0 128;
         let s = s\<lparr>term_buf := b\<rparr>;
         let s = s\<lparr>current_cursor_x := 0, current_cursor_y := 0, current_x := 0, current_y := 0\<rparr>;
         let s = send_eoi 1 s;
         Some (sti s) }"

definition switch_later :: "exec_env \<Rightarrow> int \<Rightarrow> 'a kernel_scheme \<Rightarrow> ('a kernel_scheme \<times> entered) option" where
  "switch_later e n s =
    (if current_id s = n then
       do { (s, c) \<leftarrow> printf (e_junk e) (already_msg (nat n)) (\<lambda>_. 0) s; Some (s, None) }
     else
       do { s \<leftarrow> save_terminal s;
            k \<leftarrow> term_ix s (n - 1);
            if t_open (terminals s ! k) = 0 then
              do { s \<leftarrow> open_screen n k s;
                   (s, r) \<leftarrow> execute e (Some shell_cmd) s;
                   Some (s, case r of Enter_user entry sp \<Rightarrow> Some (entry, sp) | Returned v \<Rightarrow> None) }
            else do { s \<leftarrow> restore_terminal n s; Some (s, None) } })"

definition switch_to_terminal_2 :: "exec_env \<Rightarrow> 'a kernel_scheme \<Rightarrow> ('a kernel_scheme \<times> entered) option" where
  "switch_to_terminal_2 e = switch_later e 2"

definition switch_to_terminal_3 :: "exec_env \<Rightarrow> 'a kernel_scheme \<Rightarrow> ('a kernel_scheme \<times> entered) option" where
  "switch_to_terminal_3 e = switch_later e 3"

subsection \<open>print_keyboard\<close>

text \<open>The flags of the modifier keys: released keys, and keys pressed.\<close>

definition released_keys :: "u8 \<Rightarrow> 'a console_scheme \<Rightarrow> 'a console_scheme" where
  "released_keys c s =
    (let s = (if c = 0xAA \<or> c = 0xB6 then s\<lparr>shift_flags := 0\<rparr> else s);
         s = (if c = 0x9D then s\<lparr>ctrl_flags := 0\<rparr> else s)
     in if c = 0xB8 then s\<lparr>alt_flags := 0\<rparr> else s)"

definition modifier_keys :: "u8 \<Rightarrow> 'a console_scheme \<Rightarrow> 'a console_scheme" where
  "modifier_keys c s =
    (let s = (if c = 0x3A then s\<lparr>caps_lock_flags := 1 - caps_lock_flags s\<rparr> else s);
         s = (if c = 0x2A \<or> c = 0x36 then s\<lparr>shift_flags := 1\<rparr> else s);
         s = (if c = 0x1D then s\<lparr>ctrl_flags := 1\<rparr> else s)
     in if c = 0x38 then s\<lparr>alt_flags := 1\<rparr> else s)"

text \<open>The Enter key.\<close>

definition enter_key :: "'a console_scheme \<Rightarrow> 'a console_scheme option" where
  "enter_key s =
    do { s \<leftarrow> prout 0x0A s;
         s \<leftarrow> copy_to_teminal (keyboardbuf s) (buf_index s) s;
         let s = check_terminal (vd_y s) s;
         let s = clearbuffuer s;
         if vd_y s \<le> 23 + 1 then
           do { let s = s\<lparr>vd_x := 0\<rparr>;
                let s = s\<lparr>vd_y := vd_y s + 1\<rparr>;
                let s = reset_cursor (vd_x s) (vd_y s) s;
                Some (s\<lparr>buf_index := 0, count := 0\<rparr>) }
         else
           do { let s = (if enter_flag s = 0 then clear_row (reset_video s) else s);
                let s = s\<lparr>vd_x := 0, vd_y := 23 + 1\<rparr>;
                let s = reset_cursor (vd_x s) (vd_y s) s;
                let s = reset_position (vd_x s) (vd_y s) s;
                Some (s\<lparr>buf_index := 0, count := 0, enter_flag := 0\<rparr>) } }"

text \<open>Ctrl-L.\<close>

definition clear_key :: "'a console_scheme \<Rightarrow> 'a console_scheme" where
  "clear_key s =
    (let s = clear s;
         s = reset_cursor 0 0 s;
         s = reset_position 0 0 s
     in s\<lparr>count := 0, buf_index := 0, vd_x := 0, vd_y := 0\<rparr>)"

text \<open>The part behind Ctrl-L: space and backspace, then the three layouts.\<close>

definition type_key :: "u8 \<Rightarrow> 'a console_scheme \<Rightarrow> 'a console_scheme option" where
  "type_key c s =
    do { s \<leftarrow> (if c = 0x39 then prout 0x20 s else Some s);
         s \<leftarrow> (if c = 0x0E then backspace s else Some s);
         if shift_flags s = 1 then type_shift c s
         else if caps_lock_flags s = 1 then type_caps c s
         else type_lower c s }"

definition print_keyboard :: "exec_env \<Rightarrow> u8 \<Rightarrow> 'a kernel_scheme \<Rightarrow> ('a kernel_scheme \<times> entered) option" where
  "print_keyboard e c s =
    (let s = send_eoi 1 s;
         s = released_keys c s
     in if c > 0x80 then Some (s, None)
        else
          let s = modifier_keys c s
          in if c = 0x1C then do { s \<leftarrow> enter_key s; Some (s, None) }
             else if alt_flags s = 1 \<and> c = 0x3C then
               do { s \<leftarrow> copy_keyboard_buf (keyboardbuf s) (buf_index s) s; switch_to_terminal_2 e s }
             else if alt_flags s = 1 \<and> c = 0x3B then
               do { s \<leftarrow> copy_keyboard_buf (keyboardbuf s) (buf_index s) s;
                    s \<leftarrow> switch_to_terminal_1 (e_junk e) s; Some (s, None) }
             else if alt_flags s = 1 \<and> c = 0x3D then
               do { s \<leftarrow> copy_keyboard_buf (keyboardbuf s) (buf_index s) s; switch_to_terminal_3 e s }
             else if ctrl_flags s = 1 \<and> c = 0x26 then Some (clear_key s, None)
             else do { s \<leftarrow> type_key c s; Some (s, None) })"

end
