(* ===== verification/Scheduler.thy ===== *)
theory Scheduler
  imports Key_Handler
begin

text \<open>
  The scheduler (\<open>schedule.c\<close>): on every tick of the timer the processor goes round the open
  terminals.  \<open>esp\<close> and \<open>ebp\<close>, the registers \<open>do_switch\<close> reads, are arguments, and the two
  values it loads are the second component of the result: the handler returns on the stack
  of the next terminal's process.
\<close>

subsection \<open>Operations\<close>

definition pit_init :: "'a kernel_scheme \<Rightarrow> 'a kernel_scheme" where
  "pit_init s =
    (let s = outb 0x36 0x43 s;
         s = outb (1193180 div 20 AND 0xFF) 0x40 s;
         s = outb (drop_bit 8 (1193180 div 20)) 0x40 s;
         s = enable_irq 0 s
     in s\<lparr>curr_terminal := 0, next_terminal := 0\<rparr>)"

text \<open>
  Only a terminal in front of the screen that runs \<open>fish\<close> is copied from its page.
  \<open>next_pid\<close> is a signed variable and the address computed from it an unsigned argument.
\<close>

definition do_switch :: "u32 \<Rightarrow> u32 \<Rightarrow> 'a kernel_scheme \<Rightarrow> ('a kernel_scheme \<times> u32 \<times> u32) option" where
  "do_switch esp ebp s =
    do { k \<leftarrow> term_ix s (uint (curr_terminal s));
         let s = upd_term k (\<lambda>t. t\<lparr>current_esp := esp, current_ebp := ebp\<rparr>) s;
         s \<leftarrow> (if uint (curr_terminal s) = get_terminal_id s - 1 \<and> fish (terminals s ! k) = 1 then
                do { g \<leftarrow> term_ix s (get_terminal_id s - 1);
                     Some (s\<lparr>phys := memcpy (phys s) screen_memeory (video_ptr (terminals s ! g)) 0x1000\<rparr>) }
              else Some s);
         let s = vur_phy (0x800000 + of_int (next_pid s) * 0x400000) 0x8000000 s;
         let s = tlb_flush s;
         let s = s\<lparr>tss_esp0 := mb8 - kb8 * (of_int (next_pid s) + 1) - 4, tss_ss0 := KERNEL_DS\<rparr>;
         let s = s\<lparr>curr_terminal := next_terminal s\<rparr>;
         n \<leftarrow> term_ix s (uint (next_terminal s));
         Some (s, current_esp (terminals s ! n), current_ebp (terminals s ! n)) }"

text \<open>The loop that looks for the next open terminal, at \<open>i\<close> with \<open>j\<close> iterations left.\<close>

fun find_next :: "nat \<Rightarrow> nat \<Rightarrow> 'a kernel_scheme \<Rightarrow> 'a kernel_scheme option" where
  "find_next i 0 s = Some s"
| "find_next i (Suc j) s =
    do { k \<leftarrow> term_ix s ((uint (curr_terminal s) + int i) mod 3);
         if t_open (terminals s ! k) \<noteq> 0 then
           Some (s\<lparr>next_terminal := of_int ((uint (curr_terminal s) + int i) mod 3)\<rparr>)
         else find_next (Suc i) j s }"

definition pit_handler :: "u32 \<Rightarrow> u32 \<Rightarrow> 'a kernel_scheme \<Rightarrow> ('a kernel_scheme \<times> u32 \<times> u32) option" where
  "pit_handler esp ebp s =
    do { let s = cli s;
         k \<leftarrow> term_ix s (uint (curr_terminal s));
         let s = s\<lparr>curr_pid := sint (current_pid (terminals s ! k))\<rparr>;
         s \<leftarrow> find_next 1 2 s;
         let s = (if next_terminal s = 1 then s\<lparr>terminal_flag := 1\<rparr> else s);
         let s = send_eoi 0 s;
         n \<leftarrow> term_ix s (uint (next_terminal s));
         let s = s\<lparr>next_pid := sint (current_pid (terminals s ! n))\<rparr>;
         (s, r) \<leftarrow> do_switch esp ebp s;
         Some (sti s, r) }"

end
