(* ===== verification/Processes.thy ===== *)
theory Processes
  imports Descriptors
begin

text \<open>
  The processes of the three terminals.  Every terminal has a chain of processes, the shell
  it was opened with and what was executed on top of it; the last one is running.
  \<open>chains s ch\<close> says that the terminals, the process array and the control blocks represent
  the chains \<open>ch\<close>.  \<open>execute\<close> is shown to push a process on the chain of the terminal that
  is shown, and \<open>halt\<close> to pop one from the chain of the running terminal.
\<close>

subsection \<open>Chains\<close>

abbreviation pcb_of :: "'a kernel_scheme \<Rightarrow> nat \<Rightarrow> pcb" where
  "pcb_of s n \<equiv> pcbs s (pcb_ptr (of_nat n))"

definition parent_link :: "'a kernel_scheme \<Rightarrow> nat \<Rightarrow> nat \<Rightarrow> bool" where
  "parent_link s a b \<longleftrightarrow> parent_pid (pcb_of s b) = of_nat a"

definition chain_of :: "'a kernel_scheme \<Rightarrow> nat \<Rightarrow> nat list \<Rightarrow> bool" where
  "chain_of s k c \<longleftrightarrow>
     first_process (terminals s ! k) = (if c = [] then 0 else 1) \<and>
     (c \<noteq> [] \<longrightarrow> hd c = k \<and> set (tl c) \<subseteq> {3, 4, 5} \<and> distinct c \<and>
        parent_pid (pcb_of s k) = -1 \<and> successively (parent_link s) c \<and>
        current_pid (terminals s ! k) = of_nat (last c) \<and>
        cur_pcb (terminals s ! k) = pcb_ptr (of_nat (last c)) \<and>
        (\<forall>n \<in> set c. pid (pcb_of s n) = of_nat n))"

definition blocks_ok :: "'a kernel_scheme \<Rightarrow> bool" where
  "blocks_ok s \<longleftrightarrow> length (terminals s) = 3 \<and> length (process_array s) = 6 \<and>
     (\<forall>n<6. length (fd (pcb_of s n)) = 8 \<and> length (pcb_arg (pcb_of s n)) = 128)"

definition chains :: "'a kernel_scheme \<Rightarrow> (nat \<Rightarrow> nat list) \<Rightarrow> bool" where
  "chains s ch \<longleftrightarrow> blocks_ok s \<and> (\<forall>k<3. chain_of s k (ch k)) \<and>
     (\<forall>k<3. \<forall>j<3. k \<noteq> j \<longrightarrow> set (ch k) \<inter> set (ch j) = {}) \<and>
     (\<forall>n<6. process_array s ! n = (if \<exists>k<3. n \<in> set (ch k) then 1 else 0))"

lemma less_3_iff: "k < 3 \<longleftrightarrow> k = 0 \<or> k = 1 \<or> k = (2 :: nat)" by auto
lemma less_6_iff: "n < 6 \<longleftrightarrow> n = 0 \<or> n = 1 \<or> n = 2 \<or> n = 3 \<or> n = 4 \<or> n = (5 :: nat)" by auto

lemma pcb_ptr_slots:
  "n < 6 \<Longrightarrow> pcb_ptr (of_nat n) \<in> set (map pcb_ptr [0, 1, 2, 3, 4, 5])"
  unfolding less_6_iff by auto

lemma pcb_ptr_inj:
  assumes "n < 6" "m < 6" "pcb_ptr (of_nat n) = pcb_ptr (of_nat m)"
  shows "n = m"
proof -
  have "kb8 * of_nat n = (kb8 * of_nat m :: u32)" using assms(3) by (simp add: pcb_ptr_def algebra_simps)
  then have "unat (kb8 * of_nat n :: u32) = unat (kb8 * of_nat m :: u32)" by simp
  then show ?thesis using assms(1,2) by (simp add: unat_word_ariths unat_of_nat32)
qed

lemma chain_members:
  assumes "chains s ch" "k < 3" "n \<in> set (ch k)"
  shows "n < 6" "n = k \<or> n \<in> {3, 4, 5}"
proof -
  have "chain_of s k (ch k)" using assms by (simp add: chains_def)
  then have "hd (ch k) = k" "set (tl (ch k)) \<subseteq> {3, 4, 5}" using assms(3) by (auto simp: chain_of_def)
  moreover have "n = hd (ch k) \<or> n \<in> set (tl (ch k))" using assms(3) by (cases "ch k") auto
  ultimately show "n < 6" "n = k \<or> n \<in> {3, 4, 5}" using assms(2) by auto
qed

text \<open>A chain depends on its terminal and on the identities of its control blocks.\<close>

definition same_ids :: "pcb \<Rightarrow> pcb \<Rightarrow> bool" where
  "same_ids b b' \<longleftrightarrow> pid b' = pid b \<and> parent_pid b' = parent_pid b"

definition same_procs :: "terminal \<Rightarrow> terminal \<Rightarrow> bool" where
  "same_procs t t' \<longleftrightarrow> first_process t' = first_process t \<and> current_pid t' = current_pid t \<and> cur_pcb t' = cur_pcb t"

lemma chain_cong:
  assumes "chain_of s k c" "same_procs (terminals s ! k) (terminals s' ! k)"
    and "\<And>n. n \<in> set c \<Longrightarrow> same_ids (pcb_of s n) (pcb_of s' n)"
  shows "chain_of s' k c"
proof -
  have t: "first_process (terminals s' ! k) = first_process (terminals s ! k)"
    "current_pid (terminals s' ! k) = current_pid (terminals s ! k)"
    "cur_pcb (terminals s' ! k) = cur_pcb (terminals s ! k)"
    using assms(2) by (simp_all add: same_procs_def)
  have b: "pid (pcb_of s' n) = pid (pcb_of s n)" "parent_pid (pcb_of s' n) = parent_pid (pcb_of s n)" if "n \<in> set c" for n
    using assms(3) [OF that] by (simp_all add: same_ids_def)
  show ?thesis
  proof (cases "c = []")
    case True
    then show ?thesis using assms(1) by (simp add: chain_of_def t)
  next
    case False
    then have c: "hd c = k" "successively (parent_link s) c"
      using assms(1) by (simp_all add: chain_of_def)
    have k: "k \<in> set c" using c(1) False hd_in_set by blast
    have "successively (parent_link s') c"
      using c(2) by (rule successively_mono) (simp add: parent_link_def b)
    then show ?thesis using assms(1) False b k by (simp add: chain_of_def t)
  qed
qed

lemma chains_cong:
  assumes "chains s ch" "process_array s' = process_array s" "pcbs s' = pcbs s"
    and "length (terminals s') = length (terminals s)"
    and "\<And>k. k < 3 \<Longrightarrow> same_procs (terminals s ! k) (terminals s' ! k)"
  shows "chains s' ch"
proof -
  have "chain_of s' k (ch k)" if "k < 3" for k
  proof (rule chain_cong [of s k "ch k"])
    show "chain_of s k (ch k)" using assms(1) that by (simp add: chains_def)
    show "same_procs (terminals s ! k) (terminals s' ! k)" using that by (rule assms(5))
  qed (simp add: same_ids_def assms(3))
  then show ?thesis using assms(1) unfolding chains_def blocks_ok_def assms(2-4) by blast
qed

text \<open>The numbers 0, 1 and 2 are used by the shell of that terminal only.\<close>

lemma root_free:
  assumes "chains s ch" "k < 3" "ch k = []" "j < 3"
  shows "k \<notin> set (ch j)"
  using chain_members(2) [OF assms(1,4), of k] assms by (cases "j = k") auto

subsection \<open>The command line\<close>

lemma exec_name_walk:
  assumes "length xs \<le> length f" "i \<le> length xs" "0 \<notin> set xs" "0x20 \<notin> set xs"
    and "\<And>j. j < length xs \<Longrightarrow> c (of_nat j) = xs ! j" "c (of_nat (length xs)) \<in> {0, 0x20}"
  shows "exec_name c (take i xs @ drop i f) i = Some (xs @ drop (length xs) f, length xs)"
  using assms(2)
proof (induction "length xs - i" arbitrary: i)
  case 0
  then have "i = length xs" by simp
  then show ?case using assms(6) by (subst exec_name.simps) auto
next
  case (Suc k)
  then have i: "i < length xs" by simp
  have ne: "c (of_nat i) \<noteq> 0" "c (of_nat i) \<noteq> 0x20"
    using assms(3-5) i by (metis nth_mem)+
  have "(take i xs @ drop i f)[i := c (of_nat i)] = take (Suc i) xs @ drop (Suc i) f"
    using i assms(1,5) by (simp add: list_update_append take_Suc_conv_app_nth Cons_nth_drop_Suc [symmetric])
  moreover have "i < length (take i xs @ drop i f)" using i assms(1) by simp
  moreover have "exec_name c (take (Suc i) xs @ drop (Suc i) f) (Suc i) = Some (xs @ drop (length xs) f, length xs)"
    using Suc i by (intro Suc.hyps) simp_all
  ultimately show ?case using ne by (subst exec_name.simps) (simp del: take_Suc_conv_app_nth)
qed

lemma exec_arg_walk:
  assumes "length ys < length f" "j \<le> length ys" "0 \<notin> set ys"
    and "\<And>j. j < length ys \<Longrightarrow> c (of_nat (b + j)) = ys ! j" "c (of_nat (b + length ys)) = 0"
  shows "exec_arg c (take j ys @ drop j f) (b + j) j = Some (ys @ 0 # drop (Suc (length ys)) f, length ys)"
  using assms(2)
proof (induction "length ys - j" arbitrary: j)
  case 0
  then have j: "j = length ys" by simp
  have "drop (length ys) f = f ! length ys # drop (Suc (length ys)) f"
    using assms(1) by (simp add: Cons_nth_drop_Suc)
  then have "(ys @ drop (length ys) f)[length ys := 0] = ys @ 0 # drop (Suc (length ys)) f"
    by (simp add: list_update_append)
  then show ?case using assms(1,5) j by (subst exec_arg.simps) simp
next
  case (Suc k)
  then have j: "j < length ys" by simp
  have ne: "c (of_nat (b + j)) \<noteq> 0" using assms(3,4) j by (metis nth_mem)
  have "(take j ys @ drop j f)[j := c (of_nat (b + j))] = take (Suc j) ys @ drop (Suc j) f"
    using j assms(1,4) by (simp add: list_update_append take_Suc_conv_app_nth Cons_nth_drop_Suc [symmetric])
  moreover have "j < length (take j ys @ drop j f)" using j assms(1) by simp
  moreover have "exec_arg c (take (Suc j) ys @ drop (Suc j) f) (b + Suc j) (Suc j) =
      Some (ys @ 0 # drop (Suc (length ys)) f, length ys)"
    using Suc j by (intro Suc.hyps) simp_all
  ultimately show ?case using ne j by (subst exec_arg.simps) (simp del: of_nat_add)
qed

definition cmd_name :: "u8 list \<Rightarrow> u8 list" where "cmd_name w = takeWhile (\<lambda>c. c \<noteq> 0x20) w"
definition cmd_args :: "u8 list \<Rightarrow> u8 list" where "cmd_args w = drop (Suc (length (cmd_name w))) w"

lemma parse_command_words:
  assumes w: "holds_str c w" "length (cmd_name w) \<le> 32" "length (cmd_args w) < 128" and a: "length arg = 128"
  shows "parse_command arg c = Some (cmd_name w @ replicate (32 - length (cmd_name w)) 0,
     cmd_args w @ 0 # drop (Suc (length (cmd_args w))) arg, length (cmd_args w))"
proof -
  let ?n = "cmd_name w" and ?y = "cmd_args w"
  have h: "0 \<notin> set w" "\<And>i. i < length w \<Longrightarrow> c (of_nat i) = w ! i" "c (of_nat (length w)) = 0"
    using w(1) by (auto simp: holds_str_def)
  have n: "0 \<notin> set ?n" "0x20 \<notin> set ?n" "length ?n \<le> length w" "take (length ?n) w = ?n"
    using h(1) by (auto simp: cmd_name_def length_takeWhile_le takeWhile_eq_take [symmetric] dest: set_takeWhileD)
  have pre: "c (of_nat j) = ?n ! j" if "j < length ?n" for j
    using that h(2) [of j] n(3,4) by (metis nth_take order_less_le_trans)
  show ?thesis
  proof (cases "length ?n < length w")
    case False
    then have e: "length ?n = length w" "?y = []" using n(3) by (simp_all add: cmd_args_def)
    have "exec_name c (replicate 32 0) 0 = Some (?n @ replicate (32 - length ?n) 0, length ?n)"
      using exec_name_walk [of ?n "replicate 32 0" 0 c] w(2) n pre h(3) e by simp
    moreover have "arg[0 := 0] = 0 # drop 1 arg" using a by (cases arg) simp_all
    ultimately show ?thesis using h(3) e by (simp add: parse_command_def)
  next
    case True
    then have sp: "w ! length ?n = 0x20" using nth_length_takeWhile [of "\<lambda>c. c \<noteq> 0x20" w] by (simp add: cmd_name_def)
    then have "c (of_nat (length ?n)) = 0x20" using h(2) True by simp
    moreover from this have "exec_name c (replicate 32 0) 0 = Some (?n @ replicate (32 - length ?n) 0, length ?n)"
      using exec_name_walk [of ?n "replicate 32 0" 0 c] w(2) n pre by simp
    moreover have "exec_arg c arg (Suc (length ?n)) 0 = Some (?y @ 0 # drop (Suc (length ?y)) arg, length ?y)"
    proof -
      have "0 \<notin> set ?y" using h(1) by (auto simp: cmd_args_def dest: in_set_dropD)
      moreover have "c (of_nat (Suc (length ?n) + j)) = ?y ! j" if "j < length ?y" for j
        using that h(2) [of "Suc (length ?n) + j"] by (simp add: cmd_args_def)
      moreover have "Suc (length ?n) + length ?y = length w" using True by (simp add: cmd_args_def)
      then have "c (of_nat (Suc (length ?n) + length ?y)) = 0" using h(3) by simp
      ultimately show ?thesis
        using exec_arg_walk [of ?y arg 0 c "Suc (length ?n)"] w(3) a by simp
    qed
    ultimately show ?thesis by (simp add: parse_command_def)
  qed
qed

lemma strcpy_array_some:
  "0 \<notin> set xs \<Longrightarrow> length xs < length d \<Longrightarrow>
    strcpy_array d (xs @ 0 # ys) = Some (xs @ 0 # drop (Suc (length xs)) d)"
proof (induction xs arbitrary: d)
  case Nil
  then show ?case by (cases d) simp_all
next
  case (Cons x xs)
  then show ?case by (cases d) auto
qed

subsection \<open>A new process\<close>

definition free_pid :: "(nat \<Rightarrow> nat list) \<Rightarrow> nat \<Rightarrow> nat option" where
  "free_pid ch k =
    (if ch k = [] then Some k else find (\<lambda>n. \<forall>j<3. n \<notin> set (ch j)) [3, 4, 5])"

lemma free_pid_fresh:
  assumes "chains s ch" "k < 3" "free_pid ch k = Some n"
  shows "n < 6" "\<And>j. j < 3 \<Longrightarrow> n \<notin> set (ch j)" "ch k = [] \<Longrightarrow> n = k" "ch k \<noteq> [] \<Longrightarrow> n \<in> {3, 4, 5}"
proof -
  have "n < 6 \<and> (\<forall>j<3. n \<notin> set (ch j)) \<and> (ch k = [] \<longrightarrow> n = k) \<and> (ch k \<noteq> [] \<longrightarrow> n \<in> {3, 4, 5})"
  proof (cases "ch k = []")
    case True
    then have "n = k" using assms(3) by (simp add: free_pid_def)
    then show ?thesis using root_free [OF assms(1,2) True] True assms(2) by simp
  next
    case False
    then show ?thesis using assms(3) by (auto simp: free_pid_def split: if_splits)
  qed
  then show "n < 6" "\<And>j. j < 3 \<Longrightarrow> n \<notin> set (ch j)" "ch k = [] \<Longrightarrow> n = k" "ch k \<noteq> [] \<Longrightarrow> n \<in> {3, 4, 5}"
    by auto
qed

lemma slot_used:
  assumes "chains s ch" "n < 6"
  shows "(process_array s ! n = 1) = (\<exists>k<3. n \<in> set (ch k))" "(process_array s ! n = 0) = (\<forall>k<3. n \<notin> set (ch k))"
  using assms by (auto simp: chains_def)

text \<open>The terminal that is shown, and its index.\<close>

definition shown :: "'a console_scheme \<Rightarrow> nat \<Rightarrow> bool" where
  "shown s k \<longleftrightarrow> k < 3 \<and> current_id s = int k + 1"

lemma shown_ix: "shown s k \<Longrightarrow> length (terminals s) = 3 \<Longrightarrow> term_ix s (get_terminal_id s - 1) = Some k"
  by (simp add: shown_def term_ix_def get_terminal_id_def)

lemma array_str_holds: "0 \<notin> set xs \<Longrightarrow> length xs < 4294967296 \<Longrightarrow> holds_str (array_str (xs @ 0 # ys)) xs"
  by (simp add: holds_str_def array_str_def unat_of_nat32 nth_append)

text \<open>A format without conversions prints itself.\<close>

lemma printf_from_literal:
  "at f i xs \<Longrightarrow> f (i + of_nat (length xs)) = 0 \<Longrightarrow> 0 \<notin> set xs \<Longrightarrow> 0x25 \<notin> set xs \<Longrightarrow>
    printf_from junk f esp i n s = Some (fold putc xs s, i + of_nat (length xs))"
proof (induction xs arbitrary: i s)
  case Nil
  then show ?case by (subst printf_from.simps) simp
next
  case (Cons x xs)
  have "printf_from junk f esp (i + 1) n (putc x s) = Some (fold putc xs (putc x s), i + 1 + of_nat (length xs))"
    using Cons.prems by (intro Cons.IH) (simp_all add: add.assoc)
  then show ?case using Cons.prems by (subst printf_from.simps) (auto simp: add.assoc)
qed

lemma printf_literal:
  assumes "holds_str f xs" "0x25 \<notin> set xs"
  shows "printf junk f esp s = Some (fold putc xs s, of_nat (length xs))"
  using printf_from_literal [of f 0 xs junk esp 0 s] assms by (simp add: printf_def holds_str_def at_def)

lemma max_msg_holds: "holds_str max_processes_msg (ascii ''Maximum Processes'' @ [0x0A])"
  using array_str_holds [of "ascii ''Maximum Processes'' @ [0x0A]" "[]"]
  by (simp add: max_processes_msg_def ascii_def)

lemma new_process_number:
  assumes ch: "chains s ch" and k: "shown s k"
  shows "case free_pid ch k of
      Some n \<Rightarrow> new_process junk s = Some (Inr (s\<lparr>process_array := (process_array s)[n := 1]\<rparr>, of_nat n))
    | None \<Rightarrow> new_process junk s = Some (Inl (fold putc (ascii ''Maximum Processes'' @ [0x0A]) s))"
proof -
  have len: "length (terminals s) = 3" "length (process_array s) = 6" "k < 3"
    using ch k by (simp_all add: chains_def blocks_ok_def shown_def)
  have ix: "term_ix s (get_terminal_id s - 1) = Some k" by (rule shown_ix [OF k len(1)])
  have fp: "first_process (terminals s ! k) = (if ch k = [] then 0 else 1)"
    using ch len(3) by (simp add: chains_def chain_of_def)
  have up: "[3..<6] = [3, 4, 5 :: nat]" by (simp add: upt_rec)
  show ?thesis
  proof (cases "ch k = []")
    case True
    have "get_terminal_id s - 1 = int k" using k by (simp add: shown_def get_terminal_id_def)
    then show ?thesis using True ix fp len by (simp add: new_process_def free_pid_def arr_set_def)
  next
    case False
    have pr: "printf junk max_processes_msg (\<lambda>_. 0) s = Some (fold putc (ascii ''Maximum Processes'' @ [0x0A]) s, m)"
      if "m = of_nat (length (ascii ''Maximum Processes'' @ [0x0A]))" for m
      unfolding that by (rule printf_literal [OF max_msg_holds]) (simp add: ascii_def)
    define f where "f n \<longleftrightarrow> (\<forall>j<3. n \<notin> set (ch j))" for n
    have u: "process_array s ! n = (if f n then 0 else 1)" if "n < 6" for n
      using ch that unfolding chains_def f_def by simp
    define out where "out = fold putc (ascii ''Maximum Processes'' @ [0x0A]) s"
    have "free_pid ch k = find f [3, 4, 5]" using False by (simp add: free_pid_def f_def)
    then show ?thesis
      unfolding out_def [symmetric]
      using False ix fp u [of 3] u [of 4] u [of 5] pr [OF refl, folded out_def]
      by (simp add: new_process_def up)
  qed
qed

text \<open>The control block and the terminal of a process that was started.\<close>

definition new_block :: "nat \<Rightarrow> u32 \<Rightarrow> u8 list \<Rightarrow> nat \<Rightarrow> u32 \<Rightarrow> u32 \<Rightarrow> pcb \<Rightarrow> pcb" where
  "new_block n par a sz esp ebp b = b\<lparr>pid := of_nat n, parent_pid := par, fd := fresh_fds (fd b), old_esp := esp,
     old_ebp := ebp, pcb_arg := a, arg_size := int sz\<rparr>"

definition started :: "'a kernel_scheme \<Rightarrow> nat \<Rightarrow> nat \<Rightarrow> pcb \<Rightarrow> 'a kernel_scheme" where
  "started s k n b = s\<lparr>current_pcb := pcb_ptr (of_nat n), pcbs := (pcbs s)(pcb_ptr (of_nat n) := b),
     terminals := (terminals s)[k := (terminals s ! k)\<lparr>cur_pcb := pcb_ptr (of_nat n), first_process := 1,
       current_pid := of_nat n\<rparr>],
     curr_terminal := of_nat k, tss_esp0 := pcb_ptr (of_nat n), tss_ss0 := KERNEL_DS\<rparr>"

lemma start_steps:
  assumes "k < length (terminals s)"
  shows "upd_pcb p f3 ((upd_term k g2 (upd_pcb p f2 (upd_term k g1 (upd_pcb p f1 (s\<lparr>current_pcb := p\<rparr>)))))\<lparr>curr_terminal := c\<rparr>)
      \<lparr>tss_esp0 := e, tss_ss0 := d\<rparr> =
    s\<lparr>current_pcb := p, pcbs := (pcbs s)(p := f3 (f2 (f1 (pcbs s p)))), terminals := (terminals s)[k := g2 (g1 (terminals s ! k))],
      curr_terminal := c, tss_esp0 := e, tss_ss0 := d\<rparr>"
  using assms by (simp add: upd_pcb_def upd_term_def)

lemma start_process_copied:
  assumes n: "n < 6" and k: "shown s k" "length (terminals s) = 3"
    and fp: "first_process (terminals s ! k) = (if root then 0 else 1)"
    and cp: "strcpy_array (pcb_arg (pcb_of s n)) arg = Some a"
  shows "start_process (of_nat n) arg sz esp ebp s =
    Some (started s k n (new_block n (if root then -1 else current_pid (terminals s ! k)) a sz esp ebp (pcb_of s n)))"
proof -
  have u: "(ucast (of_nat n :: u8) :: u32) = of_nat n" using n unfolding less_6_iff by auto
  have at: "pcb_at s (pcb_ptr (of_nat n)) = Some (pcb_of s n)"
    using pcb_ptr_slots [OF n] by (simp add: pcb_at_def)
  have at': "pcb_at (s\<lparr>current_pcb := x\<rparr>) q = pcb_at s q" for x q by (simp add: pcb_at_def)
  have ix: "term_ix s (get_terminal_id s - 1) = Some k" by (rule shown_ix [OF k])
  then have ix': "term_ix s' (get_terminal_id s' - 1) = Some k" if "terminals s' = terminals s" "current_id s' = current_id s" for s'
    using that by (simp add: term_ix_def get_terminal_id_def)
  have kk: "k < length (terminals s)" "k < 3" using k by (simp_all add: shown_def)
  have id: "(of_int (current_id s - 1) :: u8) = of_nat k" using k(1) by (simp add: shown_def)
  have sel: "terminals (upd_term k g (upd_pcb p f (s\<lparr>current_pcb := x\<rparr>))) ! k = g (terminals s ! k)"
    "get_terminal_id (upd_term k g (upd_pcb p f (s\<lparr>current_pcb := x\<rparr>))) = current_id s"
    "get_terminal_id (upd_term k g2 (upd_pcb p f2 (upd_term k g (upd_pcb p f (s\<lparr>current_pcb := x\<rparr>))))) = current_id s"
    "terminals (upd_pcb p f (s\<lparr>current_pcb := x\<rparr>)) = terminals s" "current_id (upd_pcb p f (s\<lparr>current_pcb := x\<rparr>)) = current_id s"
    for p f x g f2 g2
    using kk by (simp_all add: upd_pcb_def upd_term_def get_terminal_id_def)
  have ix2: "term_ix (upd_pcb p f (s\<lparr>current_pcb := x\<rparr>)) (get_terminal_id (upd_pcb p f (s\<lparr>current_pcb := x\<rparr>)) - 1) = Some k" for p f x
    by (rule ix') (simp_all add: sel)
  have top: "mb8 - kb8 * (of_nat n + 1) = pcb_ptr (of_nat n)" by (simp add: pcb_ptr_def)
  have id': "word_of_int (current_id s) - 1 = (of_nat k :: u8)" using id by simp
  have blk: "b\<lparr>pid := i, arg_size := z, pcb_arg := r, parent_pid := q, old_esp := esp, old_ebp := ebp, fd := fds\<rparr> =
      b\<lparr>pid := i, parent_pid := q, fd := fds, old_esp := esp, old_ebp := ebp, pcb_arg := r, arg_size := z\<rparr>"
    for b :: pcb and i z r q fds by (cases b) simp
  show ?thesis
  proof (cases root)
    case True
    then have f: "first_process (terminals s ! k) = 0" "(if root then -1 else current_pid (terminals s ! k)) = -1" using fp by simp_all
    show ?thesis
      unfolding start_process_def u pcb_ptr_def [symmetric] Let_def
      by (simp only: at' at bind.bind_lunit cp ix2 sel if_True f refl pcb.simps terminal.simps id top)
        (simp add: sel id' f start_steps [OF kk(1)] started_def new_block_def blk)
  next
    case False
    then have f: "first_process (terminals s ! k) = 1" "(1 :: int) = 0 \<longleftrightarrow> False"
      "(if root then -1 else current_pid (terminals s ! k)) = current_pid (terminals s ! k)" using fp by simp_all
    have same: "(terminals s ! k)\<lparr>cur_pcb := p, current_pid := q\<rparr> =
        (terminals s ! k)\<lparr>cur_pcb := p, first_process := 1, current_pid := q\<rparr>" for p q
      using f(1) by (cases "terminals s ! k") simp
    show ?thesis
      unfolding start_process_def u pcb_ptr_def [symmetric] Let_def
      by (simp only: at' at bind.bind_lunit cp ix2 sel if_False f pcb.simps terminal.simps id top)
        (simp add: sel id' f start_steps [OF kk(1)] started_def new_block_def blk same)
  qed
qed

lemma start_process_state:
  assumes "n < 6" "shown s k" "length (terminals s) = 3" "first_process (terminals s ! k) = (if root then 0 else 1)"
    and "length (pcb_arg (pcb_of s n)) = 128" "0 \<notin> set as" "length as < 128"
  shows "start_process (of_nat n) (as @ 0 # ys) sz esp ebp s =
    Some (started s k n (new_block n (if root then -1 else current_pid (terminals s ! k))
      (as @ 0 # drop (Suc (length as)) (pcb_arg (pcb_of s n))) sz esp ebp (pcb_of s n)))"
  by (rule start_process_copied [OF assms(1-4)]) (use assms(5-7) in \<open>intro strcpy_array_some; simp\<close>)

lemma started_chains:
  assumes ch: "chains s ch" and k: "k < 3" and f: "free_pid ch k = Some n"
    and s1: "terminals s1 = terminals s" "pcbs s1 = pcbs s" "process_array s1 = (process_array s)[n := 1]"
    and b: "b = new_block n (if ch k = [] then -1 else current_pid (terminals s ! k)) a sz esp ebp (pcb_of s n)" "length a = 128"
  shows "chains (started s1 k n b) (ch(k := ch k @ [n]))"
proof -
  let ?t = "started s1 k n b"
  note fr = free_pid_fresh [OF ch k f]
  have len: "length (terminals s) = 3" "length (process_array s) = 6" using ch by (simp_all add: chains_def blocks_ok_def)
  have blk: "pcb_of ?t m = (if m = n then b else pcb_of s m)" if "m < 6" for m
    using pcb_ptr_inj [OF that fr(1)] by (auto simp: started_def s1)
  have bn: "pid b = of_nat n" "parent_pid b = (if ch k = [] then -1 else current_pid (terminals s ! k))"
    by (simp_all add: b(1) new_block_def)
  have trm: "terminals ?t ! j = (if j = k then (terminals s ! k)\<lparr>cur_pcb := pcb_ptr (of_nat n), first_process := 1,
       current_pid := of_nat n\<rparr> else terminals s ! j)" if "j < 3" for j
    using that len k by (simp add: started_def s1)
  have old: "chain_of s j (ch j)" if "j < 3" for j using ch that by (simp add: chains_def)
  have others: "chain_of ?t j (ch j)" if "j < 3" "j \<noteq> k" for j
  proof (rule chain_cong [OF old [OF that(1)]])
    show "same_procs (terminals s ! j) (terminals ?t ! j)" using that by (simp add: trm same_procs_def)
    fix m assume m: "m \<in> set (ch j)"
    then have "m \<noteq> n" "m < 6" using fr(2) [OF that(1)] chain_members(1) [OF ch that(1)] by auto
    then show "same_ids (pcb_of s m) (pcb_of ?t m)" by (simp add: blk same_ids_def)
  qed
  have this_chain: "chain_of ?t k (ch k @ [n])"
  proof (cases "ch k = []")
    case True
    then show ?thesis using fr(3) [OF True] bn trm [OF k] blk [OF fr(1)] by (simp add: chain_of_def)
  next
    case False
    have o: "hd (ch k) = k" "set (tl (ch k)) \<subseteq> {3, 4, 5}" "distinct (ch k)" "parent_pid (pcb_of s k) = -1"
      "successively (parent_link s) (ch k)" "current_pid (terminals s ! k) = of_nat (last (ch k))"
      "\<forall>m \<in> set (ch k). pid (pcb_of s m) = of_nat m"
      using old [OF k] False by (simp_all add: chain_of_def)
    have mem: "m \<noteq> n" "m < 6" if "m \<in> set (ch k)" for m
      using that fr(2) [OF k] by blast (rule chain_members(1) [OF ch k that])
    have kn: "k \<in> set (ch k)" using hd_in_set [OF False] unfolding o(1) .
    have "successively (parent_link ?t) (ch k)"
      by (rule successively_mono [OF o(5)]) (simp add: parent_link_def blk mem)
    then have "successively (parent_link ?t) (ch k @ [n])"
    proof -
      have "parent_link ?t (last (ch k)) n"
        unfolding parent_link_def blk [OF fr(1)] using bn(2) False o(6) by simp
      then show ?thesis using \<open>successively (parent_link ?t) (ch k)\<close> by (simp add: successively_append_iff)
    qed
    moreover have "set (tl (ch k @ [n])) \<subseteq> {3, 4, 5}" using o(2) fr(4) False by simp
    moreover have "\<forall>m \<in> set (ch k @ [n]). pid (pcb_of ?t m) = of_nat m"
      using o(7) mem bn(1) fr(1) by (simp add: blk)
    moreover have "parent_pid (pcb_of ?t k) = -1" using o(4) mem [OF kn] by (simp add: blk)
    ultimately show ?thesis
      using k o(1,3) fr(2) [OF k] False by (simp add: chain_of_def trm)
  qed
  have blocks: "blocks_ok ?t"
  proof -
    have "length (fd b) = 8" "length (pcb_arg b) = 128"
      using ch fr(1) b by (simp_all add: new_block_def chains_def blocks_ok_def fresh_fds_nth)
    then show ?thesis
      using ch blk len by (auto simp: blocks_ok_def chains_def) (simp_all add: started_def s1)
  qed
  have arr: "process_array ?t ! m = (if \<exists>j<3. m \<in> set ((ch(k := ch k @ [n])) j) then 1 else 0)" if "m < 6" for m
  proof -
    have "process_array ?t ! m = (if m = n then 1 else process_array s ! m)"
      using that len by (simp add: started_def s1(3))
    moreover have "process_array s ! m = (if \<exists>j<3. m \<in> set (ch j) then 1 else 0)" using ch that by (simp add: chains_def)
    ultimately show ?thesis using k by auto
  qed
  have dis: "set ((ch(k := ch k @ [n])) i) \<inter> set ((ch(k := ch k @ [n])) j) = {}" if "i < 3" "j < 3" "i \<noteq> j" for i j
  proof -
    have "set (ch i) \<inter> set (ch j) = {}" using ch that by (simp add: chains_def)
    then show ?thesis using fr(2) [OF that(1)] fr(2) [OF that(2)] that by auto
  qed
  show ?thesis
    unfolding chains_def using blocks others this_chain arr dis by simp
qed

end
