(* ===== verification/Executing.thy ===== *)
theory Executing
  imports Processes
begin

text \<open>
  \<open>execute\<close> and \<open>halt\<close> as operations on the chains of processes.  A program of the image is
  shown to be loaded, byte for byte, at 0x08048000 of a frame of its own, and to be entered at
  the address its header names, with its argument, fresh descriptors and a kernel stack of its
  own; \<open>halt\<close> takes the running process off its chain and continues its parent, in the
  parent's frame and on the stack the parent had when it called \<open>execute\<close>.
\<close>

subsection \<open>Kernel memory and the image of a program\<close>

text \<open>
  The kernel page, from 4 to 8 megabytes, holds the file system image and the kernel stacks.
  The frames of the programs begin at 8 megabytes; before the first program runs, the
  directory entry of the user window is zero.
\<close>

definition kernel_range :: "u32 \<Rightarrow> nat \<Rightarrow> bool" where
  "kernel_range a n \<longleftrightarrow> 0x400000 \<le> unat a \<and> unat a + n \<le> 0x800000"

definition frame_ok :: "'a paging_scheme \<Rightarrow> bool" where
  "frame_ok s \<longleftrightarrow> user_frame s = 0 \<or> (\<exists>n<6. user_frame s = frame_of (of_nat n))"

lemma frame_of_unat: "n < 6 \<Longrightarrow> unat (frame_of (of_nat n)) = (n + 2) * 4194304"
  unfolding less_6_iff by (auto simp: frame_of_def)

lemma kernel_range_nth: "kernel_range a n \<Longrightarrow> j < n \<Longrightarrow> unat (a + of_nat j) = unat a + j"
  by (subst unat_add_lem [THEN iffD1]) (simp_all add: kernel_range_def unat_of_nat32)

lemma kernel_range_view:
  assumes "kernel_range a n" "frame_ok s" "j < n"
  shows "\<not> in_user_window (a + of_nat j)" "\<not> in_frame (user_frame s) (a + of_nat j)"
proof -
  have u: "unat (a + of_nat j) = unat a + j" "4194304 \<le> unat a + j" "unat a + j < 8388608"
    using kernel_range_nth [OF assms(1,3)] assms by (simp_all add: kernel_range_def)
  show "\<not> in_user_window (a + of_nat j)"
    using u by (simp add: in_user_window_def word_le_nat_alt)
  show "\<not> in_frame (user_frame s) (a + of_nat j)"
  proof (cases "user_frame s = 0")
    case True
    then show ?thesis using u by (simp add: in_frame_def)
  next
    case False
    then obtain n where n: "n < 6" "user_frame s = frame_of (of_nat n)"
      using assms(2) by (auto simp: frame_ok_def)
    define f where "f = user_frame s"
    have f: "unat f = (n + 2) * 4194304" using n frame_of_unat by (simp add: f_def)
    have "unat (a + of_nat j - f) = unat a + j + 4294967296 - (n + 2) * 4194304"
      using u f unat_sub_if' [of "a + of_nat j" f] by (simp add: word_le_nat_alt)
    then show ?thesis using n(1) u unfolding f_def by (simp add: in_frame_def)
  qed
qed

lemma kernel_range_vmem:
  assumes "kernel_range a n" "frame_ok s" "j < n"
  shows "vmem s (a + of_nat j) = phys s (a + of_nat j)"
    and "phys (set_vmem m s) (a + of_nat j) = m (a + of_nat j)"
  using kernel_range_view [OF assms] by (simp_all add: vmem_def vaddr_def set_vmem_def)

lemma frame_ok_simps [frame_simps]:
  "frame_ok (set_vmem m s) = frame_ok s" "n < 6 \<Longrightarrow> frame_ok (map_to_user_phy (of_nat n) a 0x400000 s)"
  unfolding frame_ok_def user_frame_load by (auto simp: frame_simps)

lemma ranges_sep:
  assumes "unat a + n \<le> unat b \<or> unat b + m \<le> unat a" "unat a + n < 4294967296" "unat b + m < 4294967296" "0 < n" "0 < m"
  shows "sep a n b m"
  using assms unat_sub_if' [of a b] unat_sub_if' [of b a] unfolding sep_def by (auto split: if_splits)

text \<open>A file of the image, with its contents.\<close>

definition program_at :: "'a fs_scheme \<Rightarrow> u32 \<Rightarrow> nat \<Rightarrow> u8 list \<Rightarrow> bool" where
  "program_at s node sz fl \<longleftrightarrow> kernel_range (dentry_addr s) sz \<and> frame_ok s \<and>
     file_in_image s (vmem s) sz node (length fl) \<and> file_contents s (vmem s) node = fl"

lemma program_at_length:
  "program_at s node sz fl \<Longrightarrow> length fl = unat (inode_length s (vmem s) node)"
  by (auto simp: program_at_def file_contents_def)

lemma program_at_cong:
  assumes p: "program_at s node sz fl" and s': "frame_ok s'" "dentry_addr s' = dentry_addr s" "file_sys s' = file_sys s"
    and eq: "\<And>x. x < sz \<Longrightarrow> phys s' (dentry_addr s + of_nat x) = phys s (dentry_addr s + of_nat x)"
  shows "program_at s' node sz fl"
proof -
  have k: "kernel_range (dentry_addr s) sz" "frame_ok s" "file_in_image s (vmem s) sz node (length fl)"
    "file_contents s (vmem s) node = fl" using p by (simp_all add: program_at_def)
  have "\<forall>x < sz. vmem s' (dentry_addr s + of_nat x) = vmem s (dentry_addr s + of_nat x)"
    using kernel_range_vmem(1) [OF k(1,2)] kernel_range_vmem(1) [OF k(1) s'(1)] eq by simp
  note c = image_cong [OF this k(3)]
  have f: "inode_length s' x node = inode_length s x node" "file_byte s' x node j = file_byte s x node j"
    "file_in_image s' x sz node i = file_in_image s x sz node i" for x j i
    using s' by (simp_all add: inode_length_def file_byte_def cur_pos_def data_block_index_def num_inode_def file_in_image_def)
  have "file_contents s' (vmem s') node = file_contents s (vmem s) node"
    using c(1,2) program_at_length [OF p] unfolding file_contents_def f by simp
  then show ?thesis using k c(3) s' by (simp add: program_at_def f)
qed

text \<open>Reading a part of it to a buffer apart from the image.\<close>

lemma program_read:
  assumes p: "program_at s node sz fl" and b: "sep buf (unat n) (dentry_addr s) sz" and n: "0 < n" "unat off + unat n \<le> length fl"
  shows "read_data s (vmem s) node off buf n = (overlay (vmem s) buf (unat n) (\<lambda>i. fl ! (unat off + i)), n)"
proof -
  have k: "file_in_image s (vmem s) sz node (unat (inode_length s (vmem s) node))" "file_contents s (vmem s) node = fl"
    "unat off + unat n \<le> unat (inode_length s (vmem s) node)"
    using p n(2) program_at_length [OF p] by (simp_all add: program_at_def)
  have "fl ! (unat off + i) = file_byte s (vmem s) node (unat off + i)" if "i < unat n" for i
    using that k by (auto simp: file_contents_def)
  then show ?thesis
    using read_data_window(1) [OF k(1) b k(3) n(1)] by (simp add: overlay_def fun_eq_iff)
qed

lemma program_at_write:
  assumes p: "program_at s node sz fl" and b: "sep buf n (dentry_addr s) sz"
  shows "program_at (set_vmem (overlay (vmem s) buf n f) s) node sz fl"
proof (rule program_at_cong [OF p])
  have k: "kernel_range (dentry_addr s) sz" "frame_ok s" using p by (simp_all add: program_at_def)
  show "frame_ok (set_vmem (overlay (vmem s) buf n f) s)" using k by (simp add: frame_simps)
  show "phys (set_vmem (overlay (vmem s) buf n f) s) (dentry_addr s + of_nat x) = phys s (dentry_addr s + of_nat x)" if "x < sz" for x
    using kernel_range_vmem [OF k that] sep_notin [OF b that] by (simp add: overlay_outside)
qed (simp_all add: set_vmem_def)

subsection \<open>The load\<close>

text \<open>The local \<open>buf\<close> of \<open>execute\<close>, on the kernel stack.\<close>

definition stack_buf :: "'a fs_scheme \<Rightarrow> u32 \<Rightarrow> nat \<Rightarrow> bool" where
  "stack_buf s p sz \<longleftrightarrow> kernel_range p 4 \<and> sep p 4 (dentry_addr s) sz"

lemma buf_at_written:
  assumes "kernel_range p 4" "frame_ok s"
  shows "buf_at (set_vmem (overlay (vmem s) p 4 f) s) p = map f [0..<4]"
    and "load32 (vmem (set_vmem (overlay (vmem s) p 4 f) s)) p = load32 (\<lambda>a. f (unat a)) 0"
proof -
  have e: "vmem (set_vmem (overlay (vmem s) p 4 f) s) (p + of_nat i) = f i" if "i < 4" for i
    using kernel_range_vmem [OF assms(1) _ that, of "set_vmem (overlay (vmem s) p 4 f) s"] assms(2)
      kernel_range_vmem(2) [OF assms that] that
    by (simp add: frame_simps overlay_inside)
  show "buf_at (set_vmem (overlay (vmem s) p 4 f) s) p = map f [0..<4]"
    unfolding buf_at_def by (rule map_cong) (simp_all add: e)
  show "load32 (vmem (set_vmem (overlay (vmem s) p 4 f) s)) p = load32 (\<lambda>a. f (unat a)) 0"
    using e [of 0] e [of 1] e [of 2] e [of 3] by (simp add: load32_def)
qed

lemma take_four: "4 \<le> length fl \<Longrightarrow> map (\<lambda>i. fl ! i) [0..<4] = take 4 fl"
  by (rule nth_equalityI) simp_all

text \<open>The two reads of the head of the file, up to the process number.\<close>

definition head_read :: "u32 \<Rightarrow> u8 list \<Rightarrow> nat \<Rightarrow> 'a kernel_scheme \<Rightarrow> 'a kernel_scheme" where
  "head_read p fl off s = set_vmem (overlay (vmem s) p 4 (\<lambda>i. fl ! (off + i))) s"

definition entry_of :: "u8 list \<Rightarrow> u32" where
  "entry_of fl = load32 (\<lambda>a. fl ! (24 + unat a)) 0"

lemma head_read_phys:
  assumes p: "kernel_range p 4" "frame_ok s" and pa: "\<not> unat (pa - p) < 4"
  shows "phys (head_read p fl off s) pa = phys s pa"
proof (unfold head_read_def, rule set_vmem_frame)
  assume "in_user_window (0x8000000 + (pa - user_frame s))"
  then show "overlay (vmem s) p 4 (\<lambda>i. fl ! (off + i)) (0x8000000 + (pa - user_frame s)) = vmem s (0x8000000 + (pa - user_frame s))"
    using kernel_range_view(1) [OF p, of "unat (0x8000000 + (pa - user_frame s) - p)"]
    by (intro overlay_outside) auto
next
  show "overlay (vmem s) p 4 (\<lambda>i. fl ! (off + i)) pa = vmem s pa" using pa
    by (intro overlay_outside) simp
qed

lemma load_program_head:
  assumes p: "program_at s node sz fl" and b: "stack_buf s (e_bufp e) sz" and l: "28 \<le> length fl"
  shows "load_program e node arg z s =
    (let s1 = head_read (e_bufp e) fl 0 s; s2 = head_read (e_bufp e) fl 24 s1
     in if take 4 fl \<noteq> executable then Some (s1, Returned (-1))
        else do { np \<leftarrow> new_process (e_junk e) s2;
                  (case np of
                     Inl s \<Rightarrow> Some (s, Returned (-1))
                   | Inr (s, process_num) \<Rightarrow>
                       do { let s = map_to_user_phy (ucast process_num) MAP_1 MAP_2 s;
                            let s = set_vmem (fst (read_data s (vmem s) node 0 read_buf
                                      (file_size s (vmem s) node))) s;
                            s \<leftarrow> start_process process_num arg z (e_esp e) (e_ebp e) s;
                            Some (s, Enter_user (entry_of fl) asm_hex) }) })"
    and "program_at (head_read (e_bufp e) fl off s) node sz fl"
proof -
  let ?p = "e_bufp e" and ?s1 = "head_read (e_bufp e) fl 0 s"
  have k: "kernel_range ?p 4" "sep ?p 4 (dentry_addr s) sz" "frame_ok s"
    using p b by (simp_all add: stack_buf_def program_at_def)
  show w: "program_at (head_read (e_bufp e) fl off s) node sz fl" for off
    unfolding head_read_def by (rule program_at_write [OF p k(2)])
  have k1: "frame_ok ?s1" "sep ?p 4 (dentry_addr ?s1) sz" using k by (simp_all add: head_read_def frame_simps)
  have r1: "read_data s (vmem s) node 0 ?p 4 = (overlay (vmem s) ?p 4 (\<lambda>i. fl ! (0 + i)), 4)"
    using program_read [OF p, of ?p 4 0] k l by simp
  have r2: "read_data ?s1 (vmem ?s1) node 24 ?p 4 = (overlay (vmem ?s1) ?p 4 (\<lambda>i. fl ! (24 + i)), 4)"
    using program_read [OF w [of 0], of ?p 4 24] k1 l by simp
  have m: "buf_at ?s1 ?p = take 4 fl"
    unfolding head_read_def buf_at_written(1) [OF k(1,3)] using take_four [of fl] l by simp
  have en: "load32 (vmem (head_read ?p fl 24 ?s1)) ?p = entry_of fl"
    unfolding head_read_def [of _ _ _ "head_read ?p fl 0 s"] buf_at_written(2) [OF k(1) k1(1)] entry_of_def ..
  have s1: "set_vmem (overlay (vmem s) ?p 4 (\<lambda>i. fl ! (0 + i))) s = ?s1"
    "set_vmem (overlay (vmem ?s1) ?p 4 (\<lambda>i. fl ! (24 + i))) ?s1 = head_read ?p fl 24 ?s1"
    by (simp_all add: head_read_def)
  show "load_program e node arg z s =
    (let s1 = head_read (e_bufp e) fl 0 s; s2 = head_read (e_bufp e) fl 24 s1
     in if take 4 fl \<noteq> executable then Some (s1, Returned (-1))
        else do { np \<leftarrow> new_process (e_junk e) s2;
                  (case np of
                     Inl s \<Rightarrow> Some (s, Returned (-1))
                   | Inr (s, process_num) \<Rightarrow>
                       do { let s = map_to_user_phy (ucast process_num) MAP_1 MAP_2 s;
                            let s = set_vmem (fst (read_data s (vmem s) node 0 read_buf
                                      (file_size s (vmem s) node))) s;
                            s \<leftarrow> start_process process_num arg z (e_esp e) (e_ebp e) s;
                            Some (s, Enter_user (entry_of fl) asm_hex) }) })"
    unfolding load_program_def r1 prod.case Let_def s1 m r2 fst_conv en by simp
qed

text \<open>The program in its frame, seen through the user window.\<close>

definition loaded :: "nat \<Rightarrow> u8 list \<Rightarrow> 'a kernel_scheme \<Rightarrow> 'a kernel_scheme" where
  "loaded n fl s =
    (let s = map_to_user_phy (of_nat n) MAP_1 MAP_2 (s\<lparr>process_array := (process_array s)[n := 1]\<rparr>)
     in set_vmem (overlay (vmem s) read_buf (length fl) (\<lambda>i. fl ! i)) s)"

lemma phys_map_to_user [frame_simps]: "phys (map_to_user_phy n a z s) = phys s"
  by (simp add: map_to_user_phy_def Let_def tlb_flush_def load_cr3_def)

lemma process_array_frame [frame_simps]:
  "user_frame (s\<lparr>process_array := x\<rparr>) = user_frame s" "vmem (s\<lparr>process_array := x\<rparr>) = vmem s"
  "frame_ok (s\<lparr>process_array := x\<rparr>) = frame_ok s"
  by (simp_all add: user_frame_def vmem_def vaddr_def fun_eq_iff frame_ok_def)

lemma ucast_pid: "n < 6 \<Longrightarrow> (ucast (of_nat n :: u8) :: u32) = of_nat n"
  unfolding less_6_iff by auto

lemma window_bytes: "j < n \<Longrightarrow> n \<le> 0x3B8000 \<Longrightarrow> in_user_window (read_buf + of_nat j)"
  by (simp add: in_user_window_offset unat_of_nat32 unat_word_ariths)

lemma loaded_step:
  assumes p: "program_at s node sz fl" and n: "n < 6" and l: "0 < length fl" "length fl \<le> 0x3B8000"
  defines "s4 \<equiv> map_to_user_phy (of_nat n) MAP_1 MAP_2 (s\<lparr>process_array := (process_array s)[n := 1]\<rparr>)"
  shows "set_vmem (fst (read_data s4 (vmem s4) node 0 read_buf (file_size s4 (vmem s4) node))) s4 = loaded n fl s"
    and "bytes (vmem (loaded n fl s)) read_buf (length fl) = fl"
    and "user_frame (loaded n fl s) = frame_of (of_nat n)"
    and "program_at (loaded n fl s) node sz fl"
proof -
  have p4: "program_at s4 node sz fl"
    by (rule program_at_cong [OF p]) (use n in \<open>simp_all add: s4_def frame_simps\<close>)
  then have k: "kernel_range (dentry_addr s4) sz" "frame_ok s4" "file_in_image s4 (vmem s4) sz node (length fl)"
    by (simp_all add: program_at_def)
  have fs: "file_size s4 (vmem s4) node = of_nat (length fl)" "unat (of_nat (length fl) :: u32) = length fl"
    unfolding program_at_length [OF p4] by (simp_all add: file_size_def inode_length_def)
  have "0 < sz" using k(3) by (auto simp: file_in_image_def)
  then have sp: "sep read_buf (length fl) (dentry_addr s4) sz"
    using k(1) l by (intro ranges_sep) (simp_all add: kernel_range_def)
  have ld: "loaded n fl s = set_vmem (overlay (vmem s4) read_buf (length fl) (\<lambda>i. fl ! i)) s4"
    by (simp add: loaded_def Let_def s4_def)
  have "0 < (of_nat (length fl) :: u32)" using fs(2) l by (simp add: word_less_nat_alt)
  then show "set_vmem (fst (read_data s4 (vmem s4) node 0 read_buf (file_size s4 (vmem s4) node))) s4 = loaded n fl s"
    using program_read [OF p4, of read_buf "of_nat (length fl)" 0] sp unfolding fs ld by simp
  show "program_at (loaded n fl s) node sz fl"
    unfolding ld by (rule program_at_write [OF p4 sp])
  show "user_frame (loaded n fl s) = frame_of (of_nat n)"
    unfolding ld set_vmem_more s4_def by (rule user_frame_load)
  have "vmem (loaded n fl s) (read_buf + of_nat j) = fl ! j" if "j < length fl" for j
    using window_bytes [OF that l(2)] that l(2) by (simp add: ld vmem_set_window overlay_inside)
  then show "bytes (vmem (loaded n fl s)) read_buf (length fl) = fl"
    by (intro nth_equalityI) (simp_all add: bytes_def)
qed

text \<open>Everything the load keeps.\<close>

lemma loaded_frame:
  "terminals (loaded n fl s) = terminals s" "pcbs (loaded n fl s) = pcbs s" "current_id (loaded n fl s) = current_id s"
  "process_array (loaded n fl s) = (process_array s)[n := 1]" "op_tables (loaded n fl s) = op_tables s"
  "terminals (head_read p fl off s) = terminals s" "pcbs (head_read p fl off s) = pcbs s"
  "current_id (head_read p fl off s) = current_id s" "process_array (head_read p fl off s) = process_array s"
  "op_tables (head_read p fl off s) = op_tables s" "screen_x (head_read p fl off s) = screen_x s"
  "screen_y (head_read p fl off s) = screen_y s" "user_frame (head_read p fl off s) = user_frame s"
  "dentry_addr (head_read p fl off s) = dentry_addr s"
  by (simp_all add: loaded_def head_read_def Let_def frame_simps) (simp_all add: set_vmem_def map_to_user_kernel)

lemma started_frame:
  "vmem (started s k n b) = vmem s" "user_frame (started s k n b) = user_frame s" "phys (started s k n b) = phys s"
  "op_tables (started s k n b) = op_tables s" "current_id (started s k n b) = current_id s"
  by (simp_all add: started_def vmem_def vaddr_def user_frame_def fun_eq_iff)

lemma shown_cong: "current_id s' = current_id s \<Longrightarrow> shown s' k = shown s k"
  by (simp add: shown_def)

text \<open>What \<open>execute\<close> leaves for the program: its control block, its argument, its terminal, its stack.\<close>

definition runs :: "'a kernel_scheme \<Rightarrow> nat \<Rightarrow> nat \<Rightarrow> u8 list \<Rightarrow> u8 list \<Rightarrow> u32 \<Rightarrow> u32 \<Rightarrow> bool" where
  "runs s k n fl as esp ebp \<longleftrightarrow>
     bytes (vmem s) read_buf (length fl) = fl \<and> user_frame s = frame_of (of_nat n) \<and>
     current_pcb s = pcb_ptr (of_nat n) \<and> curr_terminal s = of_nat k \<and>
     running_pcb s = Some (pcb_ptr (of_nat n)) \<and> tss_esp0 s = pcb_ptr (of_nat n) \<and> tss_ss0 s = KERNEL_DS \<and>
     (\<exists>r. pcb_arg (pcb_of s n) = as @ 0 # r) \<and> arg_size (pcb_of s n) = int (length as) \<and>
     old_esp (pcb_of s n) = esp \<and> old_ebp (pcb_of s n) = ebp \<and>
     running_table s = [0 \<mapsto> Stream_in, 1 \<mapsto> Stream_out]"

lemma started_runs:
  assumes len: "length (terminals s) = 3" "length (fd (pcb_of s n)) = 8" and k: "k < 3" and n: "n < 6"
    and w: "bytes (vmem s) read_buf (length fl) = fl" "user_frame s = frame_of (of_nat n)"
  shows "runs (started s k n (new_block n par (as @ 0 # r) (length as) esp ebp (pcb_of s n))) k n fl as esp ebp"
proof -
  let ?b = "new_block n par (as @ 0 # r) (length as) esp ebp (pcb_of s n)"
  let ?t = "started s k n ?b"
  have b: "pcb_of ?t n = ?b" by (simp add: started_def)
  have k3: "k = 0 \<or> k = 1 \<or> k = 2" using k by auto
  have rp: "running_pcb ?t = Some (pcb_ptr (of_nat n))"
    using k3 len by (auto simp: running_pcb_def started_def term_ix_def)
  have "fd (pcbs ?t (pcb_ptr (of_nat n))) = fresh_fds (fd (pcb_of s n))" unfolding b by (simp add: new_block_def)
  then have "running_table ?t = [0 \<mapsto> Stream_in, 1 \<mapsto> Stream_out]"
    by (simp add: running_table_def rp fresh_table [OF len(2)])
  moreover have "pcb_arg ?b = as @ 0 # r \<and> arg_size ?b = int (length as) \<and> old_esp ?b = esp \<and> old_ebp ?b = ebp"
    by (simp add: new_block_def)
  moreover have "current_pcb ?t = pcb_ptr (of_nat n)" "curr_terminal ?t = of_nat k" "tss_esp0 ?t = pcb_ptr (of_nat n)" "tss_ss0 ?t = KERNEL_DS"
    by (simp_all add: started_def)
  ultimately show ?thesis unfolding runs_def b started_frame using w rp by simp
qed

text \<open>The frames of the other programs.\<close>

definition same_frame :: "'a kernel_scheme \<Rightarrow> 'a kernel_scheme \<Rightarrow> nat \<Rightarrow> bool" where
  "same_frame s s' m \<longleftrightarrow> (\<forall>j<4194304. phys s' (frame_of (of_nat m) + of_nat j) = phys s (frame_of (of_nat m) + of_nat j))"

lemma frames_apart:
  assumes "m < 6" "n < 6" "m \<noteq> n" "j < 4194304"
  shows "\<not> in_frame (frame_of (of_nat n)) (frame_of (of_nat m) + of_nat j)" "0x800000 \<le> unat (frame_of (of_nat m) + of_nat j)"
proof -
  have f: "unat (frame_of (of_nat m)) = (m + 2) * 4194304" "unat (frame_of (of_nat n)) = (n + 2) * 4194304"
    using frame_of_unat assms(1,2) by simp_all
  have a: "unat (frame_of (of_nat m) + of_nat j) = (m + 2) * 4194304 + j"
    using f(1) assms(1,4) by (subst unat_add_lem [THEN iffD1]) (simp_all add: unat_of_nat32)
  show "0x800000 \<le> unat (frame_of (of_nat m) + of_nat j)" unfolding a by simp
  show "\<not> in_frame (frame_of (of_nat n)) (frame_of (of_nat m) + of_nat j)"
  proof (cases "m < n")
    case True
    then have "(m + 1) * 4194304 \<le> n * 4194304" by simp
    then show ?thesis
      using assms(2,4) a f(2) unat_sub_if' [of "frame_of (of_nat m) + of_nat j" "frame_of (of_nat n)"]
      by (simp add: in_frame_def word_le_nat_alt)
  next
    case False
    then have "(n + 1) * 4194304 \<le> m * 4194304" using assms(3) by simp
    then show ?thesis
      using a f(2) unat_sub_if' [of "frame_of (of_nat m) + of_nat j" "frame_of (of_nat n)"]
      by (simp add: in_frame_def word_le_nat_alt)
  qed
qed

text \<open>The state in which the program starts, in terms of the steps.\<close>

definition launched :: "exec_env \<Rightarrow> nat \<Rightarrow> nat \<Rightarrow> u32 \<Rightarrow> u8 list \<Rightarrow> u8 list \<Rightarrow> 'a kernel_scheme \<Rightarrow> 'a kernel_scheme" where
  "launched e k n par fl as s =
    (let s5 = loaded n fl (head_read (e_bufp e) fl 24 (head_read (e_bufp e) fl 0 s))
     in started s5 k n (new_block n par (as @ 0 # drop (Suc (length as)) (pcb_arg (pcb_of s5 n))) (length as)
          (e_esp e) (e_ebp e) (pcb_of s5 n)))"

lemma load_program_launched:
  assumes p: "program_at s node sz fl" and b: "stack_buf s (e_bufp e) sz"
    and l: "28 \<le> length fl" "length fl \<le> 0x3B8000" "take 4 fl = executable"
    and ch: "chains s ch" and k: "shown s k" and f: "free_pid ch k = Some n"
    and a: "0 \<notin> set as" "length as < 128"
  shows "load_program e node (as @ 0 # ys) (length as) s =
    Some (launched e k n (if ch k = [] then - 1 else current_pid (terminals s ! k)) fl as s, Enter_user (entry_of fl) asm_hex)"
proof -
  let ?p = "e_bufp e"
  define s2 where "s2 = head_read ?p fl 24 (head_read ?p fl 0 s)"
  note h = load_program_head [OF p b l(1)]
  have p2: "program_at s2 node sz fl"
    unfolding s2_def by (rule load_program_head(2) [OF h(2) _ l(1)]) (use b in \<open>simp add: stack_buf_def loaded_frame\<close>)
  have k3: "k < 3" using k by (simp add: shown_def)
  note fr = free_pid_fresh [OF ch k3 f]
  have ch2: "chains s2 ch"
    by (rule chains_cong [OF ch]) (simp_all add: s2_def loaded_frame same_procs_def)
  have k2: "shown s2 k" using k by (simp add: s2_def shown_def loaded_frame)
  note np = new_process_number [OF ch2 k2, of "e_junk e", unfolded f option.case]
  note ld = loaded_step [OF p2 fr(1), of, OF _ l(2)]
  define s5 where "s5 = loaded n fl s2"
  have s5: "terminals s5 = terminals s" "pcbs s5 = pcbs s2" "current_id s5 = current_id s2"
    by (simp_all add: s5_def s2_def loaded_frame)
  have ok5: "length (terminals s5) = 3" "first_process (terminals s5 ! k) = (if ch k = [] then 0 else 1)"
    "length (pcb_arg (pcb_of s5 n)) = 128"
    using ch2 k3 fr(1) by (simp_all add: s5 chains_def chain_of_def blocks_ok_def) (simp_all add: s2_def loaded_frame)
  have k5: "shown s5 k" using k2 by (simp add: shown_def s5)
  have pos: "0 < length fl" using l(1) by linarith
  have "start_process (of_nat n) (as @ 0 # ys) (length as) (e_esp e) (e_ebp e) s5 =
      Some (launched e k n (if ch k = [] then - 1 else current_pid (terminals s ! k)) fl as s)"
    unfolding launched_def Let_def s2_def [symmetric] s5_def [symmetric] s5(1) [symmetric]
    by (rule start_process_state [OF fr(1) k5 ok5 a])
  then show ?thesis
    unfolding h(1) Let_def s2_def [symmetric] np
    using l(3) ld(1) [OF pos] by (simp add: ucast_pid [OF fr(1)] s5_def)
qed

lemma load_program_runs:
  assumes p: "program_at s node sz fl" and b: "stack_buf s (e_bufp e) sz"
    and l: "28 \<le> length fl" "length fl \<le> 0x3B8000" "take 4 fl = executable"
    and ch: "chains s ch" and k: "shown s k" and f: "free_pid ch k = Some n"
    and a: "0 \<notin> set as" "length as < 128"
  shows "\<exists>s'. load_program e node (as @ 0 # ys) (length as) s = Some (s', Enter_user (entry_of fl) asm_hex) \<and>
    chains s' (ch(k := ch k @ [n])) \<and> runs s' k n fl as (e_esp e) (e_ebp e) \<and> program_at s' node sz fl \<and>
    (\<forall>m<6. m \<noteq> n \<longrightarrow> pcb_of s' m = pcb_of s m \<and> same_frame s s' m)"
proof -
  let ?p = "e_bufp e"
  define s2 where "s2 = head_read ?p fl 24 (head_read ?p fl 0 s)"
  note h = load_program_head [OF p b l(1)]
  have p2: "program_at s2 node sz fl"
    unfolding s2_def by (rule load_program_head(2) [OF h(2) _ l(1)]) (use b in \<open>simp add: stack_buf_def loaded_frame\<close>)
  have k3: "k < 3" using k by (simp add: shown_def)
  note fr = free_pid_fresh [OF ch k3 f]
  have ch2: "chains s2 ch"
    by (rule chains_cong [OF ch]) (simp_all add: s2_def loaded_frame same_procs_def)
  note ld = loaded_step [OF p2 fr(1), of, OF _ l(2)]
  define s5 where "s5 = loaded n fl s2"
  have s5: "terminals s5 = terminals s2" "pcbs s5 = pcbs s2" "process_array s5 = (process_array s2)[n := 1]"
    "current_id s5 = current_id s2" "terminals s2 = terminals s"
    by (simp_all add: s5_def s2_def loaded_frame)
  have ok5: "length (terminals s5) = 3" "length (pcb_arg (pcb_of s5 n)) = 128" "length (fd (pcb_of s5 n)) = 8"
    using ch2 k3 fr(1) by (simp_all add: s5(1,2) chains_def blocks_ok_def)
  define blk where "blk = new_block n (if ch k = [] then - 1 else current_pid (terminals s ! k))
    (as @ 0 # drop (Suc (length as)) (pcb_arg (pcb_of s5 n))) (length as) (e_esp e) (e_ebp e) (pcb_of s5 n)"
  define s' where "s' = started s5 k n blk"
  have pos: "0 < length fl" using l(1) by linarith
  have call: "load_program e node (as @ 0 # ys) (length as) s = Some (s', Enter_user (entry_of fl) asm_hex)"
    unfolding load_program_launched [OF assms] by (simp add: launched_def Let_def s'_def blk_def s5_def s2_def)
  have s'ch: "chains s' (ch(k := ch k @ [n]))"
    unfolding s'_def
    by (rule started_chains [OF ch2 k3 f, where a = "as @ 0 # drop (Suc (length as)) (pcb_arg (pcb_of s5 n))"
        and sz = "length as" and esp = "e_esp e" and ebp = "e_ebp e"]) (use a ok5 in \<open>simp_all add: s5 blk_def\<close>)
  have ch5: "length (terminals s5) = 3" "length (fd (pcb_of s5 n)) = 8" using ok5 by simp_all
  have run: "runs s' k n fl as (e_esp e) (e_ebp e)"
    unfolding s'_def blk_def
    by (rule started_runs [OF ch5 k3 fr(1)]) (use ld(2,3) [OF pos] in \<open>simp_all add: s5_def\<close>)
  have keep: "phys s' pa = phys s pa"
    if "\<not> in_frame (frame_of (of_nat n)) pa" "0x800000 \<le> unat pa" for pa
  proof -
    have fk: "frame_ok s" "kernel_range ?p 4" using p b by (simp_all add: program_at_def stack_buf_def)
    have "\<not> unat (pa - ?p) < 4"
    proof
      assume "unat (pa - ?p) < 4"
      from kernel_range_nth [OF fk(2) this] show False using that(2) fk(2) \<open>unat (pa - ?p) < 4\<close> by (simp add: kernel_range_def)
    qed
    note h = head_read_phys [OF fk(2) _ this]
    have "phys s5 pa = phys s2 pa"
      unfolding s5_def loaded_def Let_def
      by (subst set_vmem_block) (use window_bytes l(2) that(1) in \<open>simp_all add: user_frame_load frame_simps\<close>)
    then show ?thesis using h [of s fl 0] h [of "head_read ?p fl 0 s" fl 24] fk(1)
      by (simp add: s'_def started_frame s2_def head_read_def frame_simps)
  qed
  have "same_frame s s' m \<and> pcb_of s' m = pcb_of s m" if "m < 6" "m \<noteq> n" for m
  proof
    show "same_frame s s' m"
      using frames_apart [OF that(1) fr(1) that(2)] by (auto simp: same_frame_def intro!: keep)
    show "pcb_of s' m = pcb_of s m"
      using pcb_ptr_inj [OF that(1) fr(1)] that(2) by (auto simp: s'_def started_def s5 s2_def loaded_frame)
  qed
  moreover
  have "program_at s' node sz fl"
    using ld(4) [OF pos] unfolding s5_def [symmetric]
    by (rule program_at_cong) (use ld(4) [OF pos] in \<open>simp_all add: s'_def started_frame frame_ok_def program_at_def s5_def [symmetric]\<close>, simp_all add: started_def)
  ultimately show ?thesis using call s'ch run by (intro exI [of _ s']) simp
qed

subsection \<open>The whole of \<open>execute\<close>\<close>

text \<open>A command that fits in the local arrays and does not start a fish program.\<close>

definition command_ok :: "exec_env \<Rightarrow> cstr \<Rightarrow> u8 list \<Rightarrow> bool" where
  "command_ok e c w \<longleftrightarrow> holds_str c w \<and> length (cmd_name w) \<le> 32 \<and> length (cmd_args w) < 128 \<and>
     length (e_arg e) = 128 \<and> take 4 (cmd_name w) \<noteq> ascii ''fish''"

text \<open>The index node of the first directory entry with a name.\<close>

definition entry_node :: "'a fs_scheme \<Rightarrow> mem \<Rightarrow> u8 list \<Rightarrow> u32 option" where
  "entry_node s m nm = map_option (\<lambda>j. load32 m (dentry_ptr s (of_nat j) + 36)) (find (\<lambda>j. entry_name s m j = nm) [0..<63])"

lemma chars_array: "0 \<notin> set xs \<Longrightarrow> i + length xs + k < 4294967296 \<Longrightarrow>
    (\<And>j. j < length xs \<Longrightarrow> f (of_nat (i + j)) = xs ! j) \<Longrightarrow> (k \<noteq> 0 \<Longrightarrow> f (of_nat (i + length xs)) = 0) \<Longrightarrow>
    chars f (of_nat i) (length xs + k) = xs"
proof (induction xs arbitrary: i)
  case Nil
  then show ?case by (cases k) simp_all
next
  case (Cons x xs)
  have x: "f (of_nat i) = x" "x \<noteq> 0" using Cons.prems(1) Cons.prems(3) [of 0] by auto
  have s: "f (of_nat (Suc i + j)) = xs ! j" if "j < length xs" for j using Cons.prems(3) [of "Suc j"] that by simp
  have "chars f (of_nat (Suc i)) (length xs + k) = xs"
    using Cons.prems(1,2,4) s by (intro Cons.IH) simp_all
  then show ?case using x by (simp add: add.commute)
qed

lemma file_name_chars:
  "0 \<notin> set xs \<Longrightarrow> length xs \<le> 32 \<Longrightarrow> chars (array_str (xs @ replicate (32 - length xs) 0)) 0 32 = xs"
  using chars_array [of xs 0 "32 - length xs" "array_str (xs @ replicate (32 - length xs) 0)"]
  by (simp add: array_str_def unat_of_nat32 nth_append del: chars.simps)

lemma file_name_fish:
  assumes "take 4 xs \<noteq> ascii ''fish''"
  shows "take 4 (xs @ replicate n 0) \<noteq> ascii ''fish''"
proof
  assume *: "take 4 (xs @ replicate n 0) = ascii ''fish''"
  have "4 \<le> length xs"
  proof (rule ccontr)
    assume "\<not> 4 \<le> length xs"
    moreover have "length (take 4 (xs @ replicate n 0 :: u8 list)) = 4" unfolding * by (simp add: ascii_def)
    ultimately have "0 \<in> set (take 4 (xs @ replicate n 0 :: u8 list))"
      by (cases "4 - length xs") (auto simp: take_replicate min_def split: if_splits)
    then show False unfolding * by (simp add: ascii_def)
  qed
  then show False using * assms by simp
qed

lemma cli_frame [frame_simps]:
  "vmem (cli s) = vmem s" "entry_name (cli s) = entry_name s" "dentry_ptr (cli s) = dentry_ptr s" "phys (cli s) = phys s"
  "program_at (cli s) node sz fl = program_at s node sz fl" "stack_buf (cli s) p sz = stack_buf s p sz"
  "entry_node (cli s) = entry_node s" "chains (cli s) ch = chains s ch" "shown (cli s) k = shown s k"
proof -
  show v: "vmem (cli s) = vmem s" by (simp add: vmem_def vaddr_def user_frame_def cli_def fun_eq_iff)
  show n: "entry_name (cli s) = entry_name s" and d: "dentry_ptr (cli s) = dentry_ptr s"
    by (simp_all add: entry_name_def dentry_ptr_def cli_def fun_eq_iff)
  show "entry_node (cli s) = entry_node s" unfolding entry_node_def fun_eq_iff n d by simp
  have f: "file_in_image (cli s) = file_in_image s" "inode_length (cli s) = inode_length s" "file_byte (cli s) = file_byte s"
    by (simp_all add: fun_eq_iff file_in_image_def num_inode_def data_block_index_def inode_length_def file_byte_def cur_pos_def cli_def)
  have g: "user_frame (cli s) = user_frame s" "dentry_addr (cli s) = dentry_addr s" by (simp_all add: user_frame_def cli_def)
  show "program_at (cli s) node sz fl = program_at s node sz fl"
    unfolding program_at_def file_contents_def frame_ok_def v f g ..
  show "chains (cli s) ch = chains s ch"
    by (simp add: chains_def blocks_ok_def chain_of_def parent_link_def cli_def)
qed (simp_all add: stack_buf_def shown_def cli_def)

lemma execute_words:
  assumes "command_ok e c w"
  shows "execute e (Some c) s =
    (case entry_node s (vmem s) (cmd_name w) of
       None \<Rightarrow> Some (cli s, Returned (-1))
     | Some node \<Rightarrow> load_program e node (cmd_args w @ 0 # drop (Suc (length (cmd_args w))) (e_arg e)) (length (cmd_args w)) (cli s))"
proof -
  let ?f = "cmd_name w @ replicate (32 - length (cmd_name w)) 0"
  have w: "holds_str c w" "length (cmd_name w) \<le> 32" "length (cmd_args w) < 128" "length (e_arg e) = 128"
    "take 4 (cmd_name w) \<noteq> ascii ''fish''"
    using assms by (simp_all add: command_ok_def)
  have "0 \<notin> set (cmd_name w)" using w(1) by (auto simp: holds_str_def cmd_name_def dest: set_takeWhileD)
  then have n: "chars (array_str ?f) 0 32 = cmd_name w" by (rule file_name_chars [OF _ w(2)])
  have "start_fish ?f t = Some t" for t :: "'a kernel_scheme"
    using file_name_fish [OF w(5)] by (simp add: start_fish_def del: take_append)
  then show ?thesis
    unfolding execute_def Let_def option.case parse_command_words [OF w(1-4)] bind.bind_lunit prod.case
      read_dentry_by_name_find n entry_node_def
    by (auto simp: frame_simps copy_dentry_bytes split: option.splits)
qed

text \<open>When no number is free, or the file is not executable.\<close>

lemma fold_putc_user_frame: "user_frame (fold putc xs s) = user_frame s"
  by (induction xs arbitrary: s) (simp_all add: user_frame_def frame_simps)

definition same_programs :: "'a kernel_scheme \<Rightarrow> 'a kernel_scheme \<Rightarrow> bool" where
  "same_programs s s' \<longleftrightarrow> terminals s' = terminals s \<and> process_array s' = process_array s \<and> pcbs s' = pcbs s \<and>
     user_frame s' = user_frame s \<and> curr_terminal s' = curr_terminal s"

lemma load_program_refuses:
  assumes p: "program_at s node sz fl" and b: "stack_buf s (e_bufp e) sz" and l: "28 \<le> length fl"
    and ch: "chains s ch" and k: "shown s k"
    and bad: "take 4 fl \<noteq> executable \<or> free_pid ch k = None"
  shows "\<exists>s'. load_program e node arg z s = Some (s', Returned (-1)) \<and> same_programs s s'"
proof -
  let ?p = "e_bufp e"
  let ?s1 = "head_read ?p fl 0 s"
  define s2 where "s2 = head_read ?p fl 24 ?s1"
  note h = load_program_head [OF p b l]
  have same: "same_programs s ?s1" "same_programs s s2"
    by (simp_all add: same_programs_def s2_def loaded_frame) (simp_all add: head_read_def set_vmem_def)
  show ?thesis
  proof (cases "take 4 fl = executable")
    case False
    then show ?thesis unfolding h(1) Let_def using same(1) by simp
  next
    case True
    have ch2: "chains s2 ch"
      by (rule chains_cong [OF ch]) (simp_all add: s2_def loaded_frame same_procs_def)
    have k2: "shown s2 k" using k by (simp add: s2_def shown_def loaded_frame)
    define s3 where "s3 = fold putc (ascii ''Maximum Processes'' @ [0x0A]) s2"
    have m: "console.more s3 = console.more s2" "terminals s3 = terminals s2" "curr_terminal s3 = curr_terminal s2"
      "user_frame s3 = user_frame s2"
      unfolding s3_def by (simp_all only: fold_putc_frame fold_putc_user_frame)
    have "process_array s3 = process_array s2 \<and> pcbs s3 = pcbs s2"
      using m(1) by (cases s3, cases s2) simp
    then have "same_programs s s3" using m same(2) by (simp add: same_programs_def)
    then show ?thesis
      unfolding h(1) Let_def s2_def [symmetric] s3_def
      using new_process_number [OF ch2 k2, of "e_junk e"] True bad by simp
  qed
qed

subsection \<open>\<open>halt\<close>\<close>

text \<open>A process leaves its chain.\<close>

lemma chains_pop:
  assumes ch: "chains s ch" and k: "k < 3" and c: "ch k = c @ [n]"
    and arr: "process_array s' = (process_array s)[n := 0]"
    and blk: "pcbs s' = (pcbs s)(pcb_ptr (of_nat n) := b)" "same_ids (pcb_of s n) b" "length (fd b) = 8" "length (pcb_arg b) = 128"
    and len: "length (terminals s') = 3"
    and others: "\<And>j. j < 3 \<Longrightarrow> j \<noteq> k \<Longrightarrow> same_procs (terminals s ! j) (terminals s' ! j)"
    and me: "first_process (terminals s' ! k) = (if c = [] then 0 else 1)"
      "c \<noteq> [] \<Longrightarrow> current_pid (terminals s' ! k) = of_nat (last c) \<and> cur_pcb (terminals s' ! k) = pcb_ptr (of_nat (last c))"
  shows "chains s' (ch(k := c))"
proof -
  have n: "n < 6" using chain_members(1) [OF ch k, of n] c by simp
  have old: "chain_of s j (ch j)" if "j < 3" for j using ch that by (simp add: chains_def)
  have dis: "set (ch i) \<inter> set (ch j) = {}" if "i < 3" "j < 3" "i \<noteq> j" for i j using ch that by (simp add: chains_def)
  have pc: "pcb_of s' m = (if m = n then b else pcb_of s m)" if "m < 6" for m
    using pcb_ptr_inj [OF that n] by (auto simp: blk(1))
  have ids: "same_ids (pcb_of s m) (pcb_of s' m)" if "m < 6" for m
    using blk(2) pc [OF that] by (simp add: same_ids_def)
  have rest: "chain_of s' j (ch j)" if "j < 3" "j \<noteq> k" for j
    by (rule chain_cong [OF old [OF that(1)] others [OF that]]) (rule ids, rule chain_members(1) [OF ch that(1)])
  have here: "chain_of s' k c"
  proof (cases "c = []")
    case True
    then show ?thesis using me(1) by (simp add: chain_of_def)
  next
    case False
    have o: "hd c = k" "set (tl c) \<subseteq> {3, 4, 5}" "distinct c" "parent_pid (pcb_of s k) = -1"
      "successively (parent_link s) c" "\<forall>m \<in> set c. pid (pcb_of s m) = of_nat m"
      using old [OF k] False unfolding c chain_of_def by (simp_all add: successively_append_iff)
    have mem: "m < 6" if "m \<in> set c" for m using chain_members(1) [OF ch k, of m] that by (simp add: c)
    have kc: "k \<in> set c" using hd_in_set [OF False] unfolding o(1) .
    have "successively (parent_link s') c"
      by (rule successively_mono [OF o(5)]) (use ids mem in \<open>simp add: parent_link_def same_ids_def\<close>)
    moreover have "parent_pid (pcb_of s' k) = -1" using ids [OF mem [OF kc]] o(4) by (simp add: same_ids_def)
    moreover have "\<forall>m \<in> set c. pid (pcb_of s' m) = of_nat m" using ids mem o(6) by (simp add: same_ids_def)
    ultimately show ?thesis using me(1) me(2) [OF False] False o by (simp add: chain_of_def)
  qed
  have fre: "process_array s' ! m = (if \<exists>j<3. m \<in> set ((ch(k := c)) j) then 1 else 0)" if "m < 6" for m
  proof -
    have l: "length (process_array s) = 6" using ch by (simp add: chains_def blocks_ok_def)
    have a: "process_array s ! m = (if \<exists>j<3. m \<in> set (ch j) then 1 else 0)" using ch that by (simp add: chains_def)
    have nin: "n \<notin> set c" using old [OF k] by (simp add: c chain_of_def)
    have "(\<exists>j<3. m \<in> set ((ch(k := c)) j)) \<longleftrightarrow> m \<noteq> n \<and> (\<exists>j<3. m \<in> set (ch j))"
    proof
      assume "\<exists>j<3. m \<in> set ((ch(k := c)) j)"
      then obtain j where j: "j < 3" "m \<in> set ((ch(k := c)) j)" by blast
      have "m \<noteq> n" using j nin dis [OF k j(1)] by (cases "j = k") (auto simp: c)
      moreover have "m \<in> set (ch j)" using j(2) by (cases "j = k") (simp_all add: c)
      ultimately show "m \<noteq> n \<and> (\<exists>j<3. m \<in> set (ch j))" using j(1) by blast
    next
      assume "m \<noteq> n \<and> (\<exists>j<3. m \<in> set (ch j))"
      then obtain j where j: "j < 3" "m \<in> set (ch j)" "m \<noteq> n" by blast
      have "m \<in> set ((ch(k := c)) j)" using j(2,3) by (cases "j = k") (simp_all add: c)
      then show "\<exists>j<3. m \<in> set ((ch(k := c)) j)" using j(1) by blast
    qed
    then show ?thesis using that a l n by (simp add: arr nth_list_update)
  qed
  have blks: "length (fd (pcb_of s' m)) = 8 \<and> length (pcb_arg (pcb_of s' m)) = 128" if "m < 6" for m
    using ch that blk(3,4) by (simp add: pc [OF that] chains_def blocks_ok_def)
  have dis': "set ((ch(k := c)) i) \<inter> set ((ch(k := c)) j) = {}" if "i < 3" "j < 3" "i \<noteq> j" for i j
    using dis [OF that] that by (auto simp: c)
  have "length (process_array s') = 6" using ch by (simp add: arr chains_def blocks_ok_def)
  then show ?thesis
    using here rest fre blks dis' len by (simp add: chains_def blocks_ok_def)
qed

text \<open>The first part of \<open>halt\<close>, up to the question of the parent.\<close>

definition closed :: "file_descriptor list \<Rightarrow> file_descriptor list" where
  "closed = map (\<lambda>d. d\<lparr>op_table := No_op_table, flags := 0\<rparr>)"

definition halted :: "nat \<Rightarrow> nat \<Rightarrow> 'a kernel_scheme \<Rightarrow> 'a kernel_scheme" where
  "halted k n s = s\<lparr>intr := False,
     terminals := (if fish (terminals s ! k) = 1 then (terminals s)[k := (terminals s ! k)\<lparr>fish := 0\<rparr>] else terminals s),
     current_pcb := pcb_ptr (of_nat n), process_array := (process_array s)[n := 0],
     pcbs := (pcbs s)(pcb_ptr (of_nat n) := (pcb_of s n)\<lparr>fd := closed (fd (pcb_of s n))\<rparr>)\<rparr>"

lemma running_ix: "k < 3 \<Longrightarrow> curr_terminal s = of_nat k \<Longrightarrow> length (terminals s) = 3 \<Longrightarrow>
    term_ix s (uint (curr_terminal s)) = Some k"
  by (auto simp: term_ix_def less_3_iff)

lemma halted_frame:
  "length (terminals (halted k n s)) = length (terminals s)" "process_array (halted k n s) = (process_array s)[n := 0]"
  "pcbs (halted k n s) = (pcbs s)(pcb_ptr (of_nat n) := (pcb_of s n)\<lparr>fd := closed (fd (pcb_of s n))\<rparr>)"
  "same_procs (terminals s ! j) (terminals (halted k n s) ! j)" "curr_terminal (halted k n s) = curr_terminal s"
  "current_pcb (halted k n s) = pcb_ptr (of_nat n)" "current_id (halted k n s) = current_id s"
  "op_tables (halted k n s) = op_tables s" "phys (halted k n s) = phys s" "user_frame (halted k n s) = user_frame s"
  "dentry_addr (halted k n s) = dentry_addr s" "file_sys (halted k n s) = file_sys s" "vmem (halted k n s) = vmem s"
  "first_process (terminals (halted k n s) ! j) = first_process (terminals s ! j)"
proof -
  show "same_procs (terminals s ! j) (terminals (halted k n s) ! j)"
    by (cases "j = k"; cases "k < length (terminals s)") (simp_all add: halted_def same_procs_def list_update_beyond)
  then show "first_process (terminals (halted k n s) ! j) = first_process (terminals s ! j)" by (simp add: same_procs_def)
qed (simp_all add: halted_def user_frame_def vmem_def vaddr_def fun_eq_iff)

lemma halt_state:
  assumes ch: "chains s ch" and k: "k < 3" "curr_terminal s = of_nat k" and c: "ch k = c @ [n]"
  defines "t \<equiv> halted k n s" and "blk \<equiv> pcb_of s n"
  shows "halt e status s =
    do { (s, started) \<leftarrow>
           (if parent_pid blk = -1 then
              do { (s, r) \<leftarrow> execute e (Some shell_cmd) (upd_term k (\<lambda>t. t\<lparr>first_process := 0\<rparr>) t);
                   Some (s, case r of Enter_user entry esp \<Rightarrow> Some (entry, esp) | Returned v \<Rightarrow> None) }
            else Some (t, None));
         (case started of
            Some (entry, sp) \<Rightarrow> Some (s, Fresh_shell entry sp)
          | None \<Rightarrow>
              do { b \<leftarrow> pcb_at s (current_pcb s);
                   let s = map_to_user_phy (parent_pid b) MAP_1 MAP_2 s;
                   let s = s\<lparr>tss_ss0 := KERNEL_DS, tss_esp0 := mb8 - (parent_pid b + 1) * kb8\<rparr>;
                   k \<leftarrow> term_ix s (uint (curr_terminal s));
                   let s = upd_term k (\<lambda>t. t\<lparr>cur_pcb := mb8 - (parent_pid blk + 1) * kb8, current_pid := parent_pid blk\<rparr>) s;
                   Some (s, Resume (old_esp blk) (old_ebp blk) (uint status)) }) }"
proof -
  have n: "n < 6" using chain_members(1) [OF ch k(1), of n] c by simp
  have o: "cur_pcb (terminals s ! k) = pcb_ptr (of_nat n)" "pid (pcb_of s n) = of_nat n" "length (terminals s) = 3"
    "length (process_array s) = 6"
    using ch k(1) c by (auto simp: chains_def chain_of_def blocks_ok_def)
  note ix = running_ix [OF k o(3)]
  have pidn: "uint (pid (pcb_of s n)) = int n" unfolding o(2) using n unfolding less_6_iff by auto
  define s1 where "s1 = (if fish (terminals (cli s) ! k) = 1 then upd_term k (\<lambda>t. t\<lparr>fish := 0\<rparr>) (cli s) else cli s)"
  have s1: "cur_pcb (terminals s1 ! k) = pcb_ptr (of_nat n)" "pcbs s1 = pcbs s" "process_array s1 = process_array s"
    using o(1,3) k(1) by (simp_all add: s1_def upd_term_def cli_def)
  have t: "upd_pcb (pcb_ptr (of_nat n)) (\<lambda>b. b\<lparr>fd := map (\<lambda>d. d\<lparr>op_table := No_op_table, flags := 0\<rparr>) (fd b)\<rparr>)
      (s1\<lparr>current_pcb := pcb_ptr (of_nat n), process_array := (process_array s)[n := 0]\<rparr>) = t"
    by (simp add: s1_def t_def halted_def upd_pcb_def upd_term_def closed_def cli_def)
  have at: "pcb_at (s1\<lparr>current_pcb := x\<rparr>) (pcb_ptr (of_nat n)) = Some (pcb_of s n)" for x
    using pcb_ptr_slots [OF n] by (simp add: pcb_at_def s1)
  have set: "arr_set (process_array s) (int n) 0 = Some ((process_array s)[n := 0])"
    using n o(4) by (simp add: arr_set_def)
  have arr: "arr_set (process_array (s1\<lparr>current_pcb := x\<rparr>)) (uint (pid (pcb_of s n))) 0 = Some ((process_array s)[n := 0])" for x
    unfolding pidn using set by (simp add: s1)
  have ixc: "term_ix (cli s) (uint (curr_terminal (cli s))) = Some k"
    using ix by (simp add: term_ix_def cli_def)
  show ?thesis
    unfolding halt_def Let_def ixc bind.bind_lunit s1_def [symmetric] s1(1) at arr blk_def t ..
qed


lemma halt_pops:
  assumes ch: "chains s ch" and k: "k < 3" "curr_terminal s = of_nat k" and c: "ch k = c @ [p, n]"
  shows "\<exists>s'. halt e status s = Some (s', Resume (old_esp (pcb_of s n)) (old_ebp (pcb_of s n)) (uint status)) \<and>
    chains s' (ch(k := c @ [p])) \<and> user_frame s' = frame_of (of_nat p) \<and> tss_esp0 s' = pcb_ptr (of_nat p) \<and>
    phys s' = phys s \<and> running_pcb s' = Some (pcb_ptr (of_nat p)) \<and> (\<forall>m<6. m \<noteq> n \<longrightarrow> pcb_of s' m = pcb_of s m) \<and>
    (\<forall>d \<in> set (fd (pcb_of s' n)). flags d = 0) \<and> curr_terminal s' = of_nat k"
proof -
  have cn: "ch k = (c @ [p]) @ [n]" using c by simp
  have mem: "n < 6" "p < 6" using chain_members(1) [OF ch k(1), of n] chain_members(1) [OF ch k(1), of p] c by simp_all
  have o: "length (terminals s) = 3" "chain_of s k (ch k)" "length (fd (pcb_of s n)) = 8" "length (pcb_arg (pcb_of s n)) = 128"
    using ch k(1) mem by (simp_all add: chains_def blocks_ok_def)
  have par: "parent_pid (pcb_of s n) = of_nat p"
    using o(2) unfolding chain_of_def c by (simp add: successively_append_iff parent_link_def)
  then have npar: "parent_pid (pcb_of s n) \<noteq> -1" using mem(2) unfolding less_6_iff by auto
  define t where "t = halted k n s"
  define s' where "s' = upd_term k (\<lambda>t. t\<lparr>cur_pcb := pcb_ptr (of_nat p), current_pid := of_nat p\<rparr>)
    ((map_to_user_phy (of_nat p) MAP_1 MAP_2 t)\<lparr>tss_ss0 := KERNEL_DS, tss_esp0 := pcb_ptr (of_nat p)\<rparr>)"
  have at: "pcb_at t (pcb_ptr (of_nat n)) = Some ((pcb_of s n)\<lparr>fd := closed (fd (pcb_of s n))\<rparr>)"
    using pcb_ptr_slots [OF mem(1)] by (simp add: pcb_at_def t_def halted_frame)
  have ix: "term_ix ((map_to_user_phy q MAP_1 MAP_2 t)\<lparr>tss_ss0 := x, tss_esp0 := y\<rparr>)
      (uint (curr_terminal ((map_to_user_phy q MAP_1 MAP_2 t)\<lparr>tss_ss0 := x, tss_esp0 := y\<rparr>))) = Some k" for q x y
    by (rule running_ix [OF k(1)]) (use k o in \<open>simp_all add: t_def halted_frame frame_simps\<close>)
  have par': "parent_pid ((pcb_of s n)\<lparr>fd := x\<rparr>) = of_nat p" for x using par by simp
  have ptr: "mb8 - (of_nat p + 1) * kb8 = pcb_ptr (of_nat p)" by (simp add: pcb_ptr_def)
  have call: "halt e status s = Some (s', Resume (old_esp (pcb_of s n)) (old_ebp (pcb_of s n)) (uint status))"
    unfolding halt_state [OF ch k cn] t_def [symmetric]
    by (simp only: npar [unfolded par] if_False bind.bind_lunit prod.case option.case halted_frame(6) [of k n s, folded t_def] at Let_def
        par' par ptr ix s'_def)
  have tm: "length (terminals s') = 3" "same_procs (terminals s ! j) (terminals s' ! j)" if "j \<noteq> k" for j
    using that o(1) halted_frame(4) [of s j k n] by (simp_all add: s'_def t_def upd_term_def frame_simps halted_frame)
  have tk: "first_process (terminals s' ! k) = 1" "current_pid (terminals s' ! k) = of_nat p"
    "cur_pcb (terminals s' ! k) = pcb_ptr (of_nat p)"
    using o k(1) c by (simp_all add: s'_def t_def upd_term_def frame_simps halted_frame chain_of_def)
  have pr: "process_array s' = (process_array s)[n := 0]"
    "pcbs s' = (pcbs s)(pcb_ptr (of_nat n) := (pcb_of s n)\<lparr>fd := closed (fd (pcb_of s n))\<rparr>)"
    by (simp_all add: s'_def t_def upd_term_def frame_simps halted_frame)
  have "length (terminals s') = 3" using o(1) by (simp add: s'_def t_def upd_term_def frame_simps halted_frame)
  then have "chains s' (ch(k := c @ [p]))"
    by (intro chains_pop [OF ch k(1) cn pr]) (use tm tk o in \<open>simp_all add: same_ids_def closed_def\<close>)
  moreover have "user_frame s' = frame_of (of_nat p)"
    unfolding user_frame_load [of "of_nat p" MAP_1 t, symmetric] by (simp add: s'_def upd_term_def user_frame_def)
  moreover have "tss_esp0 s' = pcb_ptr (of_nat p)" "phys s' = phys s"
    by (simp_all add: s'_def upd_term_def frame_simps t_def halted_frame)
  moreover have ct: "curr_terminal s' = of_nat k" using k(2) by (simp add: s'_def upd_term_def frame_simps t_def halted_frame)
  moreover have "running_pcb s' = Some (pcb_ptr (of_nat p))"
    using running_ix [OF k(1) ct \<open>length (terminals s') = 3\<close>] tk(3) by (simp add: running_pcb_def)
  moreover have "pcb_of s' m = pcb_of s m" if "m < 6" "m \<noteq> n" for m
    using pcb_ptr_inj [OF that(1) mem(1)] that(2) by (auto simp: pr(2))
  moreover have "\<forall>d \<in> set (fd (pcb_of s' n)). flags d = 0" by (simp add: pr(2) closed_def)
  ultimately show ?thesis using call by (intro exI [of _ s']) simp
qed

lemma shell_cmd_ok: "length (e_arg e) = 128 \<Longrightarrow> command_ok e shell_cmd (ascii ''shell'')"
  using array_str_holds [of "ascii ''shell''" "[0]"]
  by (simp add: command_ok_def shell_cmd_def ascii_def cmd_name_def cmd_args_def)

text \<open>A shell that has no parent is taken off its terminal before \<open>execute\<close> is called.\<close>

lemma halted_chains:
  assumes ch: "chains s ch" and k: "k < 3" and c: "ch k = [k]"
  shows "chains (upd_term k (\<lambda>t. t\<lparr>first_process := 0\<rparr>) (halted k k s)) (ch(k := []))"
proof -
  have cn: "ch k = [] @ [k]" using c by simp
  have o: "length (terminals s) = 3" "length (fd (pcb_of s k)) = 8" "length (pcb_arg (pcb_of s k)) = 128"
    using ch k by (simp_all add: chains_def blocks_ok_def)
  define t where "t = upd_term k (\<lambda>t. t\<lparr>first_process := 0\<rparr>) (halted k k s)"
  have tf: "pcbs t = pcbs (halted k k s)" "process_array t = process_array (halted k k s)" "length (terminals t) = 3"
    using o(1) by (simp_all add: t_def upd_term_def halted_frame)
  have tm: "same_procs (terminals s ! i) (terminals t ! i)" if "i \<noteq> k" for i
    using that o(1) halted_frame(4) [of s i k k] by (simp_all add: t_def upd_term_def)
  have tk: "first_process (terminals t ! k) = 0" using k o(1) by (simp add: t_def upd_term_def halted_frame)
  show ?thesis
    unfolding t_def [symmetric]
    by (rule chains_pop [OF ch k cn, where b = "(pcb_of s k)\<lparr>fd := closed (fd (pcb_of s k))\<rparr>"])
      (use tf tm tk o in \<open>simp_all add: halted_frame same_ids_def closed_def\<close>)
qed

lemma halt_shell:
  assumes ch: "chains s ch" and k: "k < 3" "curr_terminal s = of_nat k" and c: "ch k = [k]"
    and j: "shown s j" "free_pid (ch(k := [])) j = Some n"
    and p: "entry_node s (vmem s) (ascii ''shell'') = Some node" "program_at s node sz fl" "stack_buf s (e_bufp e) sz"
    and l: "28 \<le> length fl" "length fl \<le> 0x3B8000" "take 4 fl = executable" and a: "length (e_arg e) = 128"
  shows "\<exists>s'. halt e status s = Some (s', Fresh_shell (entry_of fl) asm_hex) \<and>
    chains s' ((ch(k := []))(j := (ch(k := [])) j @ [n])) \<and> runs s' j n fl [] (e_esp e) (e_ebp e)"
proof -
  have cn: "ch k = [] @ [k]" using c by simp
  have o: "length (terminals s) = 3" "chain_of s k (ch k)" "length (fd (pcb_of s k)) = 8" "length (pcb_arg (pcb_of s k)) = 128"
    using ch k(1) by (simp_all add: chains_def blocks_ok_def)
  have par: "parent_pid (pcb_of s k) = -1" using o(2) unfolding chain_of_def c by simp
  define t where "t = upd_term k (\<lambda>t. t\<lparr>first_process := 0\<rparr>) (halted k k s)"
  have tf: "phys t = phys s" "user_frame t = user_frame s" "dentry_addr t = dentry_addr s" "file_sys t = file_sys s"
    "vmem t = vmem s" "current_id t = current_id s" "pcbs t = pcbs (halted k k s)"
    "process_array t = process_array (halted k k s)" "length (terminals t) = 3"
    using o(1) by (simp_all add: t_def upd_term_def halted_frame vmem_def vaddr_def user_frame_def fun_eq_iff)
      (simp_all add: halted_def)
  have "chains t (ch(k := []))" unfolding t_def by (rule halted_chains [OF ch k(1) c])
  then have ct: "chains (cli t) (ch(k := []))" by (simp add: frame_simps)
  have pt: "program_at (cli t) node sz fl"
    unfolding cli_frame by (rule program_at_cong [OF p(2)]) (use p(2) tf in \<open>simp_all add: frame_ok_def program_at_def\<close>)
  have bt: "stack_buf (cli t) (e_bufp e) sz" unfolding cli_frame using p(3) by (simp add: stack_buf_def tf)
  have jt: "shown (cli t) j" unfolding cli_frame using j(1) by (simp add: shown_def tf)
  have nt: "entry_node t (vmem t) (ascii ''shell'') = Some node"
    using p(1) by (simp add: entry_node_def entry_name_def dentry_ptr_def tf)
  have w: "cmd_name (ascii ''shell'') = ascii ''shell''" "cmd_args (ascii ''shell'') = []"
    by (simp_all add: cmd_name_def cmd_args_def ascii_def)
  have "0 \<notin> set ([] :: u8 list)" "length ([] :: u8 list) < 128" by simp_all
  from load_program_runs [OF pt bt l ct jt j(2) this, of "drop 1 (e_arg e)"]
  obtain s' where s': "load_program e node (0 # drop 1 (e_arg e)) 0 (cli t) = Some (s', Enter_user (entry_of fl) asm_hex)"
    "chains s' ((ch(k := []))(j := (ch(k := [])) j @ [n]))" "runs s' j n fl [] (e_esp e) (e_ebp e)"
    by auto
  have "execute e (Some shell_cmd) t = Some (s', Enter_user (entry_of fl) asm_hex)"
    unfolding execute_words [OF shell_cmd_ok [OF a]] w nt using s'(1) by simp
  then have "halt e status s = Some (s', Fresh_shell (entry_of fl) asm_hex)"
    unfolding halt_state [OF ch k cn] t_def [symmetric] using par by simp
  then show ?thesis using s'(2,3) by blast
qed


text \<open>The file that a command names: it is in the image, executable, and fits the user page.\<close>

definition command_file :: "exec_env \<Rightarrow> u8 list \<Rightarrow> 'a kernel_scheme \<Rightarrow> nat \<Rightarrow> u8 list \<Rightarrow> bool" where
  "command_file e w s sz fl \<longleftrightarrow> stack_buf s (e_bufp e) sz \<and> 28 \<le> length fl \<and> length fl \<le> 0x3B8000 \<and>
     (\<exists>node. entry_node s (vmem s) (cmd_name w) = Some node \<and> program_at s node sz fl)"

lemma execute_loads:
  assumes c: "command_ok e c w" and f: "command_file e w s sz fl" "take 4 fl = executable"
    and ch: "chains s ch" "shown s k" and n: "free_pid ch k = Some n"
  shows "\<exists>s'. execute e (Some c) s = Some (s', Enter_user (entry_of fl) asm_hex) \<and>
    chains s' (ch(k := ch k @ [n])) \<and> runs s' k n fl (cmd_args w) (e_esp e) (e_ebp e) \<and>
    (\<forall>m<6. m \<noteq> n \<longrightarrow> pcb_of s' m = pcb_of s m \<and> same_frame s s' m)"
proof -
  obtain node where d: "entry_node s (vmem s) (cmd_name w) = Some node" "program_at (cli s) node sz fl"
    using f(1) by (auto simp: command_file_def frame_simps)
  have a: "0 \<notin> set (cmd_args w)" "length (cmd_args w) < 128"
    using c by (auto simp: command_ok_def holds_str_def cmd_args_def dest: in_set_dropD)
  have s: "stack_buf (cli s) (e_bufp e) sz" "28 \<le> length fl" "length fl \<le> 0x3B8000"
    "chains (cli s) ch" "shown (cli s) k"
    using f(1) ch by (simp_all add: command_file_def frame_simps)
  have k: "pcbs (cli s) = pcbs s" "same_frame (cli s) = same_frame s"
    by (simp_all add: cli_def same_frame_def fun_eq_iff)
  show ?thesis
    unfolding execute_words [OF c] d(1) option.case
    using load_program_runs [OF d(2) s(1-3) f(2) s(4,5) n a] unfolding k by blast
qed

lemma execute_refused:
  assumes c: "command_ok e c w" and f: "command_file e w s sz fl"
    and ch: "chains s ch" "shown s k" and bad: "take 4 fl \<noteq> executable \<or> free_pid ch k = None"
  shows "\<exists>s'. execute e (Some c) s = Some (s', Returned (-1)) \<and> same_programs s s'"
proof -
  obtain node where d: "entry_node s (vmem s) (cmd_name w) = Some node" "program_at (cli s) node sz fl"
    using f by (auto simp: command_file_def frame_simps)
  have s: "stack_buf (cli s) (e_bufp e) sz" "28 \<le> length fl" "chains (cli s) ch" "shown (cli s) k"
    using f ch by (simp_all add: command_file_def frame_simps)
  have k: "same_programs (cli s) = same_programs s"
    by (simp add: cli_def same_programs_def fun_eq_iff user_frame_def)
  show ?thesis
    unfolding execute_words [OF c] d(1) option.case
    using load_program_refuses [OF d(2) s bad, of "cmd_args w @ 0 # drop (Suc (length (cmd_args w))) (e_arg e)" "length (cmd_args w)"]
    unfolding k .
qed

subsection \<open>States for the witnesses\<close>

text \<open>An image with one program, \<open>shell\<close>, of 28 bytes; its entry point is 0x08048018.\<close>

definition shell_image :: mem where
  "shell_image = (\<lambda>_. 0)(0x400000 := 1, 0x400004 := 1, 0x400008 := 1,
    0x400040 := 0x73, 0x400041 := 0x68, 0x400042 := 0x65, 0x400043 := 0x6C, 0x400044 := 0x6C, 0x400060 := 2,
    0x401000 := 28, 0x402000 := 0x7F, 0x402001 := 0x45, 0x402002 := 0x4C, 0x402003 := 0x46,
    0x402018 := 0x18, 0x402019 := 0x80, 0x40201A := 0x04, 0x40201B := 0x08)"

definition shell_file :: "u8 list" where
  "shell_file = [0x7F, 0x45, 0x4C, 0x46] @ [0, 0, 0, 0, 0, 0, 0, 0, 0, 0, 0, 0, 0, 0, 0, 0, 0, 0, 0, 0] @ [0x18, 0x80, 0x04, 0x08]"

definition kernel_shell :: kernel where
  "kernel_shell = kernel_up\<lparr>phys := shell_image\<rparr>"

definition wit_env :: exec_env where
  "wit_env = \<lparr>e_junk = (\<lambda>_. 0), e_arg = replicate 128 0, e_bufp = 0x7FD000, e_esp = 0x7FDF00, e_ebp = 0x7FDF40\<rparr>"

lemma kernel_shell_simps [simp]:
  "phys kernel_shell = shell_image" "user_frame kernel_shell = 0x800000" "dentry_addr kernel_shell = 0x400000"
  "file_sys kernel_shell = 0x400000" "current_id kernel_shell = 1" "curr_terminal kernel_shell = 0"
  "terminals kernel_shell = terminals kernel_up" "pcbs kernel_shell = pcbs kernel_up"
  "process_array kernel_shell = [1, 0, 0, 0, 0, 0]"
  by (simp_all add: kernel_shell_def user_frame_def) (simp_all add: user_frame_def [symmetric])

lemma shell_image_high: "0x500000 \<le> a \<Longrightarrow> shell_image a = 0"
  by (auto simp: shell_image_def)

lemma vmem_image:
  assumes "phys s = im" "user_frame s = 0x800000" and high: "\<And>a. 0x500000 \<le> a \<Longrightarrow> im a = 0"
  shows "vmem s = im"
proof
  fix va
  have "im (0x800000 + (va - 0x8000000)) = im va" if "in_user_window va"
  proof -
    have "unat (va - 0x8000000) < 4194304" using that by (simp add: in_user_window_offset)
    then have "unat (0x800000 + (va - 0x8000000)) = 8388608 + unat (va - 0x8000000)"
      using unat_add_lem [of "0x800000 :: u32" "va - 0x8000000"] by simp
    then have "0x500000 \<le> 0x800000 + (va - 0x8000000)" by (simp add: word_le_nat_alt)
    moreover have "0x500000 \<le> va" using that by (simp add: in_user_window_def word_le_nat_alt)
    ultimately show ?thesis by (simp add: high)
  qed
  then show "vmem s va = im va" using assms(1,2) by (simp add: vmem_def vaddr_def)
qed

lemma vmem_kernel_shell [simp]: "vmem kernel_shell = shell_image"
  by (rule vmem_image) (simp_all add: shell_image_high)

lemma shell_image_words:
  "num_inode kernel_shell shell_image = 1" "inode_length kernel_shell shell_image 0 = 28"
  "data_block_index kernel_shell shell_image 0 0 = 0"
  by (simp_all add: num_inode_def inode_length_def data_block_index_def load32_def shell_image_def)

lemma shell_contents: "file_contents kernel_shell shell_image 0 = shell_file"
proof -
  have u: "[0..<28] = [0, 1, 2, 3, 4, 5, 6, 7, 8, 9, 10, 11, 12, 13, 14, 15, 16, 17, 18, 19, 20, 21, 22, 23, 24, 25, 26, 27 :: nat]"
    by (simp add: upt_rec)
  have "file_contents kernel_shell shell_image 0 = map (\<lambda>i. shell_image (0x402000 + of_nat i)) [0..<28]"
    unfolding file_contents_def shell_image_words
    by (rule map_cong) (auto simp: shell_image_words file_byte_def cur_pos_def)
  also have "\<dots> = shell_file"
    unfolding u shell_file_def by (simp add: shell_image_def)
  finally show ?thesis .
qed

lemma shell_named: "entry_node kernel_shell shell_image (ascii ''shell'') = Some 0"
proof -
  have "entry_name kernel_shell shell_image 0 = ascii ''shell''"
    by (simp add: entry_name_def numeral_eq_Suc dentry_ptr_def ascii_def) (simp add: shell_image_def)
  then have "find (\<lambda>j. entry_name kernel_shell shell_image j = ascii ''shell'') [0..<63] = Some 0"
    using upt_conv_Cons [of 0 63] by (simp del: upt_rec_numeral)
  moreover have "load32 shell_image (dentry_ptr kernel_shell (of_nat 0) + 36) = 0"
    by (simp add: load32_def shell_image_def dentry_ptr_def)
  ultimately show ?thesis by (simp add: entry_node_def)
qed

lemma shell_program: "program_at kernel_shell 0 0x3000 shell_file"
proof -
  have "length shell_file = 28" by (simp add: shell_file_def)
  then have "file_in_image kernel_shell shell_image 0x3000 0 (length shell_file)"
    by (simp add: file_in_image_def shell_image_words)
  moreover have "frame_ok kernel_shell" by (simp add: frame_ok_def frame_of_def) (rule exI [of _ 0], simp)
  ultimately show ?thesis by (simp add: program_at_def kernel_range_def shell_contents)
qed

lemma wit_command:
  "cmd_name w = ascii ''shell'' \<Longrightarrow> command_file wit_env w kernel_shell 0x3000 shell_file"
  using shell_named shell_program
  by (simp add: command_file_def stack_buf_def wit_env_def kernel_range_def sep_def shell_file_def)

lemma kernel_shell_chains: "chains kernel_shell ((\<lambda>_. [])(0 := [0]))"
proof -
  have t: "terminals kernel_up = [(terminals con_up ! 0)\<lparr>cur_pcb := pcb_ptr 0, first_process := 1\<rparr>, terminals con_up ! 1, terminals con_up ! 2]"
    by (simp add: list_update_code)
  show ?thesis
    by (auto simp: chains_def blocks_ok_def chain_of_def less_3_iff less_6_iff t fresh_fds_nth pcb_bss_def terminal_bss_def terminal.defs)
qed


subsection \<open>Properties\<close>

text \<open>C7: \<open>execute\<close> of a command whose name is an executable file of the image: the program is
  pushed on the chain of the terminal that is shown, under the number of that terminal when it
  is its first process and the first free one of 3, 4 and 5 otherwise.  All its bytes are at
  0x08048000 in the frame of that number, the machine enters it at the address in bytes 24 to
  27 of the file, and it has the words behind the first space as its argument, open standard
  streams only, and its own kernel stack.  The control blocks and the memory of all other
  processes are unchanged.\<close>

theorem execute_runs_program:
  assumes "command_ok e c w" and "command_file e w s sz fl" "take 4 fl = executable"
    and "chains s ch" "shown s k" and "free_pid ch k = Some n"
  shows "\<exists>s'. execute e (Some c) s = Some (s', Enter_user (entry_of fl) asm_hex) \<and>
    chains s' (ch(k := ch k @ [n])) \<and> runs s' k n fl (cmd_args w) (e_esp e) (e_ebp e) \<and>
    (\<forall>m<6. m \<noteq> n \<longrightarrow> pcb_of s' m = pcb_of s m \<and> same_frame s s' m)"
  by (rule execute_loads [OF assms])

text \<open>The shell starts a second shell, with the argument \<open>x\<close>, as process 3.\<close>

abbreviation wit_line :: "u8 list" where "wit_line \<equiv> ascii ''shell x''"

lemma wit_line_words: "cmd_name wit_line = ascii ''shell''" "cmd_args wit_line = ascii ''x''"
  by (simp_all add: cmd_name_def cmd_args_def ascii_def)

lemma wit_line_ok: "command_ok wit_env (array_str (wit_line @ [0])) wit_line"
  using array_str_holds [of wit_line "[]"] wit_line_words
  by (simp add: command_ok_def ascii_def wit_env_def)

lemma wit_shown: "shown kernel_shell 0" "free_pid ((\<lambda>_. [])(0 := [0])) 0 = Some 3"
    "take 4 shell_file = executable" "entry_of shell_file = 0x8048018"
  by (simp_all add: shown_def free_pid_def shell_file_def executable_def entry_of_def load32_def)

theorem execute_runs_program_witness:
  "\<exists>s'. execute wit_env (Some (array_str (wit_line @ [0]))) kernel_shell = Some (s', Enter_user 0x8048018 asm_hex) \<and>
    chains s' ((\<lambda>_. [])(0 := [0, 3])) \<and> runs s' 0 3 shell_file (ascii ''x'') 0x7FDF00 0x7FDF40"
  using execute_runs_program [OF wit_line_ok wit_command [OF wit_line_words(1)] wit_shown(3) kernel_shell_chains wit_shown(1,2)]
  by (auto simp: wit_shown(4) wit_line_words wit_env_def)

text \<open>C11: \<open>execute\<close> returns -1 when the file does not begin with the four magic bytes and when the
  numbers 3, 4 and 5 are all taken; terminals, process array, control blocks, the mapped frame
  and the running terminal are then what they were.\<close>

theorem execute_refuses:
  assumes "command_ok e c w" and "command_file e w s sz fl"
    and "chains s ch" "shown s k" and "take 4 fl \<noteq> executable \<or> free_pid ch k = None"
  shows "\<exists>s'. execute e (Some c) s = Some (s', Returned (-1)) \<and> same_programs s s'"
  by (rule execute_refused [OF assms])

text \<open>Terminal 1 with three programs on top of its shell.\<close>

definition kernel_full :: kernel where
  "kernel_full = kernel_shell\<lparr>process_array := [1, 0, 0, 1, 1, 1],
     pcbs := (\<lambda>p. if p = pcb_ptr 0 then (pcbs kernel_up p)
        else if p = pcb_ptr 3 then (pcbs kernel_up p)\<lparr>pid := 3, parent_pid := 0, old_esp := 0x7FDF00, old_ebp := 0x7FDF40\<rparr>
        else if p = pcb_ptr 4 then (pcbs kernel_up p)\<lparr>pid := 4, parent_pid := 3\<rparr>
        else (pcbs kernel_up p)\<lparr>pid := 5, parent_pid := 4\<rparr>),
     terminals := [(terminals kernel_up ! 0)\<lparr>cur_pcb := pcb_ptr 5, current_pid := 5\<rparr>, terminals kernel_up ! 1, terminals kernel_up ! 2]\<rparr>"

lemma kernel_up_terminals: "terminals kernel_up =
    [(terminals con_up ! 0)\<lparr>cur_pcb := pcb_ptr 0, first_process := 1\<rparr>, terminals con_up ! 1, terminals con_up ! 2]"
  by (simp add: list_update_code)

lemma kernel_full_chains: "chains kernel_full ((\<lambda>_. [])(0 := [0, 3, 4, 5]))"
  by (auto simp: kernel_full_def chains_def blocks_ok_def chain_of_def less_3_iff less_6_iff kernel_up_terminals fresh_fds_nth
      pcb_bss_def terminal_bss_def terminal.defs parent_link_def pcb_ptr_def)

lemma kernel_full_file:
  assumes "cmd_name w = ascii ''shell''"
  shows "command_file wit_env w kernel_full 0x3000 shell_file"
proof -
  have f: "dentry_addr kernel_full = dentry_addr kernel_shell" "file_sys kernel_full = file_sys kernel_shell"
    "phys kernel_full = phys kernel_shell" "user_frame kernel_full = user_frame kernel_shell"
    by (simp_all add: kernel_full_def user_frame_def)
  have v: "vmem kernel_full = vmem kernel_shell" unfolding fun_eq_iff vmem_def vaddr_def f by simp
  have n: "entry_node kernel_full = entry_node kernel_shell"
    by (simp add: fun_eq_iff entry_node_def entry_name_def dentry_ptr_def f)
  have p: "program_at kernel_full node sz fl = program_at kernel_shell node sz fl" for node sz fl
    by (auto intro: program_at_cong simp: program_at_def frame_ok_def f)
      (auto simp: file_in_image_def num_inode_def data_block_index_def file_contents_def inode_length_def file_byte_def cur_pos_def f v)
  show ?thesis using wit_command [OF assms] unfolding command_file_def stack_buf_def f v n p .
qed

theorem execute_refuses_witness:
  "\<exists>s'. execute wit_env (Some (array_str (wit_line @ [0]))) kernel_full = Some (s', Returned (-1)) \<and> same_programs kernel_full s'"
proof -
  have "shown kernel_full 0" "free_pid ((\<lambda>_. [])(0 := [0, 3, 4, 5])) 0 = None"
    by (auto simp: kernel_full_def shown_def free_pid_def kernel_shell_def)
  then show ?thesis
    using execute_refuses [OF wit_line_ok kernel_full_file [OF wit_line_words(1)] kernel_full_chains] by blast
qed






text \<open>C10: when the last process of a terminal, its shell, halts, a shell is loaded and entered again,
  but on the terminal \<open>j\<close> that is shown.  On the same terminal the chains are what they were;
  when another terminal is shown, that one gets the new shell on top of its chain and the
  terminal of the halted shell is left without a process.\<close>

theorem halt_restarts_shell:
  assumes "chains s ch" and "k < 3" "curr_terminal s = of_nat k" and "ch k = [k]"
    and "shown s j" "free_pid (ch(k := [])) j = Some n"
    and "command_file e (ascii ''shell'') s sz fl" and "take 4 fl = executable" and "length (e_arg e) = 128"
  shows "\<exists>s'. halt e status s = Some (s', Fresh_shell (entry_of fl) asm_hex) \<and>
    chains s' ((ch(k := []))(j := (ch(k := [])) j @ [n])) \<and> runs s' j n fl [] (e_esp e) (e_ebp e) \<and>
    (j = k \<longrightarrow> (ch(k := []))(j := (ch(k := [])) j @ [n]) = ch)"
proof -
  have n: "cmd_name (ascii ''shell'') = ascii ''shell''" by (simp add: cmd_name_def ascii_def)
  obtain node where d: "entry_node s (vmem s) (ascii ''shell'') = Some node" "program_at s node sz fl"
    "stack_buf s (e_bufp e) sz" "28 \<le> length fl" "length fl \<le> 0x3B8000"
    using assms(7) unfolding command_file_def n by blast
  have "(ch(k := []))(j := (ch(k := [])) j @ [n]) = ch" if "j = k"
    using that assms(4,6) by (auto simp: free_pid_def)
  then show ?thesis
    using halt_shell [OF assms(1-6) d(1-5) assms(8,9), of status] by blast
qed

theorem halt_restarts_shell_witness:
  "\<exists>s'. halt wit_env 0 kernel_shell = Some (s', Fresh_shell 0x8048018 asm_hex) \<and> chains s' ((\<lambda>_. [])(0 := [0]))"
proof -
  have c: "cmd_name (ascii ''shell'') = ascii ''shell''" "((\<lambda>_. [])(0 := [0])) 0 = [0 :: nat]" "curr_terminal kernel_shell = of_nat 0"
    "free_pid (((\<lambda>_. [])(0 := [0]))(0 := [])) 0 = Some 0" "length (e_arg wit_env) = 128"
    by (simp_all add: cmd_name_def ascii_def free_pid_def wit_env_def)
  show ?thesis
    using halt_restarts_shell [OF kernel_shell_chains _ c(3,2) wit_shown(1) c(4) wit_command [OF c(1)] wit_shown(3) c(5), of 0]
    by (auto simp: wit_shown(4))
qed

end
