(* ===== verification/Scheduling.thy ===== *)
theory Scheduling
  imports Scheduler Executing
begin

text \<open>
  The timer tick as an operation on the chains: the processor goes to the last process of the
  next open terminal, whose frame is put into the user window, and as many ticks as there are
  open terminals return to the interrupted process with its registers.
\<close>

subsection \<open>One tick\<close>

text \<open>The next open terminal behind terminal \<open>k\<close>, and where the loop finds it.\<close>

definition next_open :: "'a console_scheme \<Rightarrow> nat \<Rightarrow> nat option" where
  "next_open s k = find (\<lambda>j. t_open (terminals s ! j) \<noteq> 0) [(k + 1) mod 3, (k + 2) mod 3]"

lemma term_ix_mod: "length (terminals s) = 3 \<Longrightarrow> term_ix s (int j mod 3) = Some (j mod 3)"
  by (simp add: term_ix_def zmod_int [symmetric] nat_mod_distrib)

lemma find_next_open:
  assumes "k < 3" "curr_terminal s = of_nat k" "length (terminals s) = 3"
  shows "find_next 1 2 s =
    Some (case next_open s k of None \<Rightarrow> s | Some n \<Rightarrow> s\<lparr>next_terminal := of_nat n\<rparr>)"
proof -
  have u: "uint (curr_terminal s) = int k" using assms(1,2) unfolding less_3_iff by auto
  have ix: "term_ix s ((uint (curr_terminal s) + int i) mod 3) = Some ((k + i) mod 3)" for i
    unfolding u using term_ix_mod [OF assms(3), of "k + i"] by simp
  have w: "of_int ((uint (curr_terminal s) + int i) mod 3) = (of_nat ((k + i) mod 3) :: u8)" for i
    unfolding u by (metis of_int_of_nat_eq of_nat_add zmod_int of_nat_numeral)
  have two: "(2 :: nat) = Suc (Suc 0)" by simp
  show ?thesis
    unfolding two find_next.simps ix w bind.bind_lunit
    by (simp add: next_open_def two del: of_nat_mod)
qed

lemma next_open_some:
  assumes "next_open s k = Some n" "k < 3"
  shows "n < 3" "n \<noteq> k" "t_open (terminals s ! n) \<noteq> 0"
  using assms unfolding less_3_iff by (auto simp: next_open_def numeral_2_eq_2 [symmetric] split: if_splits)

text \<open>What a tick does to the state, from terminal \<open>k\<close> to terminal \<open>n\<close> with process number \<open>m\<close>.\<close>

definition switched :: "nat \<Rightarrow> nat \<Rightarrow> nat \<Rightarrow> u32 \<Rightarrow> u32 \<Rightarrow> 'a kernel_scheme \<Rightarrow> 'a kernel_scheme \<Rightarrow> bool" where
  "switched k n m esp ebp s s' \<longleftrightarrow>
     curr_terminal s' = of_nat n \<and> next_terminal s' = of_nat n \<and> user_frame s' = frame_of (of_nat m) \<and>
     tss_esp0 s' = pcb_ptr (of_nat m) - 4 \<and> tss_ss0 s' = KERNEL_DS \<and>
     terminals s' = (terminals s)[k := (terminals s ! k)\<lparr>current_esp := esp, current_ebp := ebp\<rparr>] \<and>
     phys s' = (if current_id s = int k + 1 \<and> fish (terminals s ! k) = 1
       then memcpy (phys s) screen_memeory (video_ptr (terminals s ! k)) 0x1000 else phys s) \<and>
     process_array s' = process_array s \<and> pcbs s' = pcbs s \<and> current_pcb s' = current_pcb s \<and>
     current_id s' = current_id s \<and> op_tables s' = op_tables s \<and> dentry_addr s' = dentry_addr s \<and>
     file_sys s' = file_sys s \<and> screen_x s' = screen_x s \<and> screen_y s' = screen_y s"

lemma switched_cong:
  assumes "switched k n m esp ebp t s'"
    and "terminals t = terminals s" "current_id t = current_id s" "phys t = phys s" "process_array t = process_array s"
    "pcbs t = pcbs s" "current_pcb t = current_pcb s" "op_tables t = op_tables s" "dentry_addr t = dentry_addr s"
    "file_sys t = file_sys s" "screen_x t = screen_x s" "screen_y t = screen_y s"
  shows "switched k n m esp ebp s s'"
  using assms unfolding switched_def by simp

lemma do_switch_state:
  assumes k: "k < 3" "curr_terminal s = of_nat k" "length (terminals s) = 3"
    and n: "n < 3" "next_terminal s = of_nat n" "next_pid s = int m"
  shows "\<exists>s'. do_switch esp ebp s = Some (s', if n = k then (esp, ebp) else (current_esp (terminals s ! n), current_ebp (terminals s ! n))) \<and>
    switched k n m esp ebp s s'"
proof -
  define s1 where "s1 = upd_term k (\<lambda>t. t\<lparr>current_esp := esp, current_ebp := ebp\<rparr>) s"
  define s2 where "s2 = (if current_id s = int k + 1 \<and> fish (terminals s ! k) = 1
    then s1\<lparr>phys := memcpy (phys s) screen_memeory (video_ptr (terminals s ! k)) 0x1000\<rparr> else s1)"
  define s3 where "s3 = map_to_user_phy (of_nat m) 0x8000000 0x400000 s2"
  define s' where "s' = s3\<lparr>tss_esp0 := pcb_ptr (of_nat m) - 4, tss_ss0 := KERNEL_DS, curr_terminal := of_nat n\<rparr>"
  have u: "uint (curr_terminal s) = int k" using k(1,2) unfolding less_3_iff by auto
  have s1: "terminals s1 = (terminals s)[k := (terminals s ! k)\<lparr>current_esp := esp, current_ebp := ebp\<rparr>]"
    "curr_terminal s1 = curr_terminal s" "next_pid s1 = int m" "current_id s1 = current_id s" "phys s1 = phys s"
    "next_terminal s1 = of_nat n"
    using n by (simp_all add: s1_def upd_term_def)
  have tk: "terminals s1 ! k = (terminals s ! k)\<lparr>current_esp := esp, current_ebp := ebp\<rparr>" using k by (simp add: s1)
  have ix1: "term_ix s (uint (curr_terminal s)) = Some k" by (rule running_ix [OF k])
  have ixg: "term_ix s1 (get_terminal_id s1 - 1) = Some k" if "current_id s = int k + 1"
    using that k s1 by (simp add: term_ix_def get_terminal_id_def)
  have copy: "(if uint (curr_terminal s1) = get_terminal_id s1 - 1 \<and> fish (terminals s1 ! k) = 1 then
      do { g \<leftarrow> term_ix s1 (get_terminal_id s1 - 1);
           Some (s1\<lparr>phys := memcpy (phys s1) screen_memeory (video_ptr (terminals s1 ! g)) 0x1000\<rparr>) }
    else Some s1) = Some s2"
    using ixg k(1,3) by (auto simp: s2_def s1 u get_terminal_id_def)
  have s2: "next_pid s2 = int m" "terminals s2 = terminals s1" "next_terminal s2 = of_nat n"
    "phys s2 = (if current_id s = int k + 1 \<and> fish (terminals s ! k) = 1
       then memcpy (phys s) screen_memeory (video_ptr (terminals s ! k)) 0x1000 else phys s)"
    by (simp_all add: s2_def s1)
  have s3: "tlb_flush (vur_phy (0x800000 + of_int (next_pid s2) * 0x400000) 0x8000000 s2) = s3"
    unfolding s3_def s2 vur_phy_user by simp
  have p3: "next_pid s3 = int m" "terminals s3 = terminals s1" "next_terminal s3 = of_nat n"
    by (simp_all add: s3_def map_to_user_phy_def Let_def tlb_flush_def load_cr3_def s2)
  have ptr: "mb8 - kb8 * (of_int (int m) + 1) - 4 = pcb_ptr (of_nat m) - 4" by (simp add: pcb_ptr_def)
  have ix3: "term_ix (s3\<lparr>tss_esp0 := x, tss_ss0 := y, curr_terminal := z\<rparr>)
      (uint (next_terminal (s3\<lparr>tss_esp0 := x, tss_ss0 := y, curr_terminal := z\<rparr>))) = Some n" for x y z
    using n(1) k p3 s1 unfolding less_3_iff by (auto simp: term_ix_def)
  have call: "do_switch esp ebp s = Some (s', current_esp (terminals s1 ! n), current_ebp (terminals s1 ! n))"
    unfolding do_switch_def Let_def ix1 bind.bind_lunit s1_def [symmetric] copy s3
    using p3 ptr ix3 by (simp add: s'_def)
  have "user_frame s' = frame_of (of_nat m)"
    unfolding user_frame_load [of "of_nat m" "0x8000000" s2, symmetric] by (simp add: s'_def s3_def user_frame_def)
  moreover have "process_array s2 = process_array s" "pcbs s2 = pcbs s" "current_pcb s2 = current_pcb s" "current_id s2 = current_id s"
    "op_tables s2 = op_tables s" "dentry_addr s2 = dentry_addr s" "file_sys s2 = file_sys s" "screen_x s2 = screen_x s" "screen_y s2 = screen_y s"
    by (simp_all add: s2_def s1_def upd_term_def)
  ultimately have "switched k n m esp ebp s s'"
    using p3 s1(1) unfolding switched_def
    by (simp add: s'_def s2(4)) (simp add: s3_def frame_simps s2(4))
  then show ?thesis
    using call n(1) k by (intro exI [of _ s']) (auto simp: s1)
qed

lemma pit_tick:
  assumes k: "k < 3" "curr_terminal s = of_nat k" "length (terminals s) = 3"
    and n: "n < 3" "next_open s k = Some n \<or> next_open s k = None \<and> next_terminal s = of_nat n"
    and m: "current_pid (terminals s ! n) = of_nat m" "m < 6"
  shows "\<exists>s'. pit_handler esp ebp s = Some (s', if n = k then (esp, ebp) else (current_esp (terminals s ! n), current_ebp (terminals s ! n))) \<and>
    switched k n m esp ebp s s' \<and> intr s'"
proof -
  define s1 where "s1 = (cli s)\<lparr>curr_pid := sint (current_pid (terminals s ! k))\<rparr>"
  define s2 where "s2 = s1\<lparr>next_terminal := of_nat n\<rparr>"
  define s3 where "s3 = (if next_terminal s2 = 1 then s2\<lparr>terminal_flag := 1\<rparr> else s2)"
  define s4 where "s4 = (send_eoi 0 s3)\<lparr>next_pid := int m\<rparr>"
  have f1: "terminals (cli s) = terminals s" "curr_terminal (cli s) = curr_terminal s" by (simp_all add: cli_def)
  have ix: "term_ix (cli s) (uint (curr_terminal (cli s))) = Some k" by (rule running_ix) (simp_all add: k f1)
  have "next_open s1 k = next_open s k" "next_terminal s1 = next_terminal s" "terminals s1 = terminals s" "curr_terminal s1 = curr_terminal s"
    by (simp_all add: next_open_def s1_def cli_def)
  then have fn: "find_next 1 2 s1 = Some s2"
    using find_next_open [of k s1] k n(2) by (auto simp: s2_def)
  have s3: "terminals s3 = terminals s" "curr_terminal s3 = of_nat k" "next_terminal s3 = of_nat n"
    by (simp_all add: s3_def s2_def s1_def cli_def k(2))
  have s4: "terminals s4 = terminals s" "curr_terminal s4 = of_nat k" "next_terminal s4 = of_nat n" "next_pid s4 = int m"
    "current_id s4 = current_id s" "phys s4 = phys s" "process_array s4 = process_array s"
    "pcbs s4 = pcbs s" "current_pcb s4 = current_pcb s" "op_tables s4 = op_tables s" "dentry_addr s4 = dentry_addr s"
    "file_sys s4 = file_sys s" "screen_x s4 = screen_x s" "screen_y s4 = screen_y s"
    by (simp_all add: s4_def send_eoi_def outb_def s3) (simp_all add: s3_def s2_def s1_def cli_def)
  have ix5: "term_ix (send_eoi 0 s3) (uint (next_terminal (send_eoi 0 s3))) = Some n" "terminals (send_eoi 0 s3) = terminals s"
    using n(1) k(3) s3 unfolding less_3_iff by (auto simp: term_ix_def send_eoi_def outb_def)
  have sm: "sint (current_pid (terminals s ! n)) = int m" unfolding m(1) using m(2) unfolding less_6_iff by auto
  from do_switch_state [of k s4 n m esp ebp] obtain s5 where s5:
    "do_switch esp ebp s4 = Some (s5, if n = k then (esp, ebp) else (current_esp (terminals s ! n), current_ebp (terminals s ! n)))"
    "switched k n m esp ebp s4 s5" using k n(1) s4 by auto
  have sw: "switched k n m esp ebp s s5" by (rule switched_cong [OF s5(2) s4(1,5-)])
  then have "switched k n m esp ebp s (sti s5)" by (simp add: switched_def sti_def user_frame_def)
  moreover have "pit_handler esp ebp s = Some (sti s5, if n = k then (esp, ebp) else (current_esp (terminals s ! n), current_ebp (terminals s ! n)))"
    unfolding pit_handler_def Let_def ix bind.bind_lunit f1(1) s1_def [symmetric] fn s3_def [symmetric] ix5 sm s4_def [symmetric] s5(1)
    by simp
  ultimately show ?thesis by (intro exI [of _ "sti s5"]) (simp add: sti_def)
qed

subsection \<open>The state between two events\<close>

text \<open>
  \<open>steady s ch\<close>: the chains are represented, the terminal that is shown and the terminals of the
  scheduler are open, the open terminals are terminal 1 and all that have a process, and the last process of the running
  terminal is the one whose frame the user window maps and whose kernel stack the next
  interrupt uses.
\<close>

definition on_cpu :: "'a kernel_scheme \<Rightarrow> nat \<Rightarrow> nat \<Rightarrow> bool" where
  "on_cpu s k m \<longleftrightarrow> curr_terminal s = of_nat k \<and> user_frame s = frame_of (of_nat m) \<and>
     (tss_esp0 s = pcb_ptr (of_nat m) \<or> tss_esp0 s = pcb_ptr (of_nat m) - 4)"

definition opened_term :: "'a console_scheme \<Rightarrow> nat \<Rightarrow> bool" where
  "opened_term s k \<longleftrightarrow> k < 3 \<and> t_open (terminals s ! k) \<noteq> 0"

definition steady :: "'a kernel_scheme \<Rightarrow> (nat \<Rightarrow> nat list) \<Rightarrow> bool" where
  "steady s ch \<longleftrightarrow> chains s ch \<and> (\<forall>k<3. opened_term s k \<longleftrightarrow> ch k \<noteq> []) \<and> opened_term s 0 \<and>
     (\<exists>k. shown s k \<and> opened_term s k) \<and>
     (\<exists>k. opened_term s k \<and> on_cpu s k (last (ch k))) \<and>
     (\<exists>n. next_terminal s = of_nat n \<and> opened_term s n)"

lemma steady_chain:
  assumes "steady s ch" "opened_term s k"
  shows "current_pid (terminals s ! k) = of_nat (last (ch k))" "cur_pcb (terminals s ! k) = pcb_ptr (of_nat (last (ch k)))"
    "last (ch k) < 6" "length (terminals s) = 3"
proof -
  have k: "k < 3" "ch k \<noteq> []" "chains s ch" using assms by (auto simp: steady_def opened_term_def)
  then show "current_pid (terminals s ! k) = of_nat (last (ch k))" "cur_pcb (terminals s ! k) = pcb_ptr (of_nat (last (ch k)))"
    "length (terminals s) = 3"
    by (simp_all add: chains_def chain_of_def blocks_ok_def)
  show "last (ch k) < 6" using chain_members(1) [OF k(3,1)] k(2) by simp
qed

lemma of_nat_u8_inj: "k < 3 \<Longrightarrow> j < 3 \<Longrightarrow> (of_nat k :: u8) = of_nat j \<Longrightarrow> k = j"
  unfolding less_3_iff by auto

text \<open>A tick keeps everything but the registers of the terminal that is left.\<close>

definition target :: "'a kernel_scheme \<Rightarrow> nat \<Rightarrow> nat" where
  "target s k = (case next_open s k of Some n \<Rightarrow> n | None \<Rightarrow> unat (next_terminal s))"

lemma steady_target:
  assumes "steady s ch" "k < 3"
  shows "opened_term s (target s k)"
    and "next_open s k = Some (target s k) \<or> next_open s k = None \<and> next_terminal s = of_nat (target s k)"
proof -
  obtain n where n: "next_terminal s = of_nat n" "opened_term s n" using assms(1) by (auto simp: steady_def)
  have u: "unat (next_terminal s) = n" using n unfolding opened_term_def less_3_iff by auto
  show "opened_term s (target s k)"
    using n u next_open_some [of s k] assms(2) by (auto simp: target_def opened_term_def split: option.splits)
  show "next_open s k = Some (target s k) \<or> next_open s k = None \<and> next_terminal s = of_nat (target s k)"
    using n u by (auto simp: target_def split: option.splits)
qed

lemma steady_tick:
  assumes st: "steady s ch" and k: "k < 3" "curr_terminal s = of_nat k"
  defines "n \<equiv> target s k"
  shows "\<exists>s'. pit_handler esp ebp s =
      Some (s', if n = k then (esp, ebp) else (current_esp (terminals s ! n), current_ebp (terminals s ! n))) \<and>
    steady s' ch \<and> switched k n (last (ch n)) esp ebp s s' \<and> intr s'"
proof -
  note t = steady_target [OF st k(1), folded n_def]
  have n3: "n < 3" using t(1) by (simp add: opened_term_def)
  note c = steady_chain [OF st t(1)]
  from pit_tick [OF k c(4) n3 t(2) c(1,3), of esp ebp]
  obtain s' where s': "pit_handler esp ebp s =
      Some (s', if n = k then (esp, ebp) else (current_esp (terminals s ! n), current_ebp (terminals s ! n)))"
    "switched k n (last (ch n)) esp ebp s s'" "intr s'" by blast
  have f: "terminals s' = (terminals s)[k := (terminals s ! k)\<lparr>current_esp := esp, current_ebp := ebp\<rparr>]"
    "process_array s' = process_array s" "pcbs s' = pcbs s" "current_id s' = current_id s"
    "curr_terminal s' = of_nat n" "next_terminal s' = of_nat n" "user_frame s' = frame_of (of_nat (last (ch n)))"
    "tss_esp0 s' = pcb_ptr (of_nat (last (ch n))) - 4"
    using s'(2) by (simp_all add: switched_def)
  have tm: "t_open (terminals s' ! j) = t_open (terminals s ! j)" "same_procs (terminals s ! j) (terminals s' ! j)" for j
    by (cases "j = k"; cases "k < length (terminals s)"; simp add: f same_procs_def list_update_beyond)+
  have o: "opened_term s' j = opened_term s j" for j by (simp add: opened_term_def tm)
  have "chains s ch" using st by (simp add: steady_def)
  then have "chains s' ch"
    by (rule chains_cong) (simp_all add: f(2,3) tm, simp add: f(1))
  moreover have "shown s' j = shown s j" for j by (rule shown_cong) (rule f(4))
  ultimately have "steady s' ch"
    using st t(1) f unfolding steady_def o on_cpu_def by blast
  then show ?thesis using s' by blast
qed

text \<open>Ticks one after the other, with the registers each finds and the ones it loads.\<close>

fun ticks :: "(u32 \<times> u32) list \<Rightarrow> 'a kernel_scheme \<Rightarrow> ('a kernel_scheme \<times> (u32 \<times> u32) list) option" where
  "ticks [] s = Some (s, [])"
| "ticks ((esp, ebp) # es) s =
    do { (s, r) \<leftarrow> pit_handler esp ebp s;
         (s, rs) \<leftarrow> ticks es s;
         Some (s, r # rs) }"

lemma opened_switched: "switched k n m esp ebp s s' \<Longrightarrow> opened_term s' j = opened_term s j"
  by (cases "j = k"; cases "k < length (terminals s)") (simp_all add: switched_def opened_term_def list_update_beyond)

lemma switched_regs:
  assumes "switched k n m esp ebp s s'" "length (terminals s) = 3" "j < 3"
  shows "(current_esp (terminals s' ! j), current_ebp (terminals s' ! j)) =
    (if j = k then (esp, ebp) else (current_esp (terminals s ! j), current_ebp (terminals s ! j)))"
  using assms by (simp add: switched_def)

lemma target_next: "k < 3 \<Longrightarrow> opened_term s ((k + 1) mod 3) \<Longrightarrow> target s k = (k + 1) mod 3"
  by (simp add: target_def next_open_def opened_term_def)

lemma target_skip:
  "k < 3 \<Longrightarrow> \<not> opened_term s ((k + 1) mod 3) \<Longrightarrow> opened_term s ((k + 2) mod 3) \<Longrightarrow> target s k = (k + 2) mod 3"
  by (simp add: target_def next_open_def opened_term_def)

lemma steady_step:
  assumes "steady s ch" "k < 3" "curr_terminal s = of_nat k" "target s k = n"
  obtains s' where "pit_handler esp ebp s =
      Some (s', if n = k then (esp, ebp) else (current_esp (terminals s ! n), current_ebp (terminals s ! n)))"
    "steady s' ch" "curr_terminal s' = of_nat n" "\<And>j. opened_term s' j = opened_term s j"
    "\<And>j. j < 3 \<Longrightarrow> (current_esp (terminals s' ! j), current_ebp (terminals s' ! j)) =
      (if j = k then (esp, ebp) else (current_esp (terminals s ! j), current_ebp (terminals s ! j)))"
proof -
  obtain s' where s': "pit_handler esp ebp s =
      Some (s', if n = k then (esp, ebp) else (current_esp (terminals s ! n), current_ebp (terminals s ! n)))"
    "steady s' ch" "switched k n (last (ch n)) esp ebp s s'"
    using steady_tick [OF assms(1-3), of esp ebp] assms(4) by blast
  have "length (terminals s) = 3" using assms(1) by (simp add: steady_def chains_def blocks_ok_def)
  then show thesis
    using that [OF s'(1,2)] opened_switched [OF s'(3)] switched_regs [OF s'(3)] s'(3)
    by (simp add: switched_def)
qed

lemma other_terms:
  assumes "k < (3 :: nat)"
  shows "j < 3 \<longleftrightarrow> j = k \<or> j = (k + 1) mod 3 \<or> j = (k + 2) mod 3"
    "(k + 1) mod 3 \<noteq> k" "(k + 2) mod 3 \<noteq> k" "(k + 1) mod 3 \<noteq> (k + 2) mod 3"
    "((k + 1) mod 3 + 1) mod 3 = (k + 2) mod 3" "((k + 1) mod 3 + 2) mod 3 = k"
    "((k + 2) mod 3 + 1) mod 3 = k" "((k + 2) mod 3 + 2) mod 3 = (k + 1) mod 3"
    "(k + 1) mod 3 < 3" "(k + 2) mod 3 < 3"
  using assms unfolding less_3_iff by (auto simp: numeral_2_eq_2 [symmetric])

lemma round_robin_three:
  assumes st: "steady s ch" and k: "k < 3" "curr_terminal s = of_nat k"
    and o: "opened_term s ((k + 1) mod 3)" "opened_term s ((k + 2) mod 3)" "opened_term s k"
  shows "\<exists>s'. ticks [a, b, c] s = Some (s',
      [(current_esp (terminals s ! ((k + 1) mod 3)), current_ebp (terminals s ! ((k + 1) mod 3))),
       (current_esp (terminals s ! ((k + 2) mod 3)), current_ebp (terminals s ! ((k + 2) mod 3))), a]) \<and>
    steady s' ch \<and> curr_terminal s' = of_nat k"
proof -
  note m = other_terms [OF k(1)]
  obtain ae ab be bb ce cb where abc: "a = (ae, ab)" "b = (be, bb)" "c = (ce, cb)" by (cases a, cases b, cases c)
  define k1 k2 where "k1 = (k + 1) mod 3" and "k2 = (k + 2) mod 3"
  note m' = m [folded k1_def k2_def]
  have t: "target s k = k1" unfolding k1_def by (rule target_next [OF k(1) o(1)])
  obtain s1 where s1: "pit_handler ae ab s = Some (s1, (current_esp (terminals s ! k1), current_ebp (terminals s ! k1)))"
    "steady s1 ch" "curr_terminal s1 = of_nat k1" "\<And>j. opened_term s1 j = opened_term s j"
    "\<And>j. j < 3 \<Longrightarrow> (current_esp (terminals s1 ! j), current_ebp (terminals s1 ! j)) =
      (if j = k then a else (current_esp (terminals s ! j), current_ebp (terminals s ! j)))"
    by (rule steady_step [OF st k t, of ae ab]) (use m'(2) abc(1) in \<open>auto intro: that\<close>)
  have t1: "target s1 k1 = k2"
    using target_next [OF m'(9), of s1, unfolded m'(5)] o(2) s1(4) unfolding k2_def [symmetric] by blast
  obtain s2 where s2: "pit_handler be bb s1 = Some (s2, (current_esp (terminals s1 ! k2), current_ebp (terminals s1 ! k2)))"
    "steady s2 ch" "curr_terminal s2 = of_nat k2" "\<And>j. opened_term s2 j = opened_term s j"
    "\<And>j. j < 3 \<Longrightarrow> (current_esp (terminals s2 ! j), current_ebp (terminals s2 ! j)) =
      (if j = k1 then b else (current_esp (terminals s1 ! j), current_ebp (terminals s1 ! j)))"
    by (rule steady_step [OF s1(2) m'(9) s1(3) t1, of be bb]) (use m'(4) abc(2) s1(4) in \<open>auto intro: that\<close>)
  have t2: "target s2 k2 = k"
    using target_next [OF m'(10), of s2, unfolded m'(7)] o(3) s2(4) by blast
  obtain s3 where s3: "pit_handler ce cb s2 = Some (s3, (current_esp (terminals s2 ! k), current_ebp (terminals s2 ! k)))"
    "steady s3 ch" "curr_terminal s3 = of_nat k"
    by (rule steady_step [OF s2(2) m'(10) s2(3) t2, of ce cb]) (use m'(3) in \<open>auto intro: that\<close>)
  have r: "(current_esp (terminals s1 ! k2), current_ebp (terminals s1 ! k2)) = (current_esp (terminals s ! k2), current_ebp (terminals s ! k2))"
    "(current_esp (terminals s2 ! k), current_ebp (terminals s2 ! k)) = a"
    using s1(5) [OF m'(10)] s2(5) [OF k(1)] s1(5) [OF k(1)] m'(2,3) by simp_all
  show ?thesis
    unfolding abc ticks.simps s1(1) bind.bind_lunit prod.case s2(1) s3(1) r
    unfolding k1_def [symmetric] k2_def [symmetric] abc using s3(2,3) r abc by simp
qed

lemma round_robin_two:
  assumes st: "steady s ch" and k: "k < 3" "curr_terminal s = of_nat k" and j: "j < 3" "j \<noteq> k"
    and o: "opened_term s k" "\<And>i. opened_term s i \<Longrightarrow> i = k \<or> i = j" "opened_term s j"
  shows "\<exists>s'. ticks [a, b] s = Some (s', [(current_esp (terminals s ! j), current_ebp (terminals s ! j)), a]) \<and>
    steady s' ch \<and> curr_terminal s' = of_nat k"
proof -
  obtain ae ab be bb where ab: "a = (ae, ab)" "b = (be, bb)" by (cases a, cases b)
  have tgt: "target t i = i'" if "i < 3" "i' < 3" "i \<noteq> i'" "opened_term t i'" "\<And>x. opened_term t x \<Longrightarrow> x = i \<or> x = i'" for t i i'
  proof (cases "i' = (i + 1) mod 3")
    case True
    then show ?thesis using target_next [OF that(1)] that(4) by simp
  next
    case False
    then have "i' = (i + 2) mod 3" using other_terms(1) [OF that(1), of i'] that by blast
    then show ?thesis
      using target_skip [OF that(1), of t] that(4) that(5) [of "(i + 1) mod 3"] False other_terms [OF that(1)] by metis
  qed
  have t: "target s k = j" using k(1) j o by (intro tgt) auto
  obtain s1 where s1: "pit_handler ae ab s = Some (s1, (current_esp (terminals s ! j), current_ebp (terminals s ! j)))"
    "steady s1 ch" "curr_terminal s1 = of_nat j" "\<And>i. opened_term s1 i = opened_term s i"
    "\<And>i. i < 3 \<Longrightarrow> (current_esp (terminals s1 ! i), current_ebp (terminals s1 ! i)) =
      (if i = k then a else (current_esp (terminals s ! i), current_ebp (terminals s ! i)))"
    by (rule steady_step [OF st k t, of ae ab]) (use j(2) ab(1) k(1) in \<open>auto intro: that\<close>)
  have t1: "target s1 j = k" using k(1) j o s1(4) by (intro tgt) auto
  obtain s2 where s2: "pit_handler be bb s1 = Some (s2, a)" "steady s2 ch" "curr_terminal s2 = of_nat k"
    by (rule steady_step [OF s1(2) j(1) s1(3) t1, of be bb]) (use j(2) s1(5) [OF k(1)] in \<open>auto intro: that\<close>)
  show ?thesis
    unfolding ab ticks.simps s1(1) bind.bind_lunit prod.case s2(1) using s2 ab by simp
qed

lemma round_robin_one:
  assumes st: "steady s ch" and k: "k < 3" "curr_terminal s = of_nat k" and o: "\<And>i. opened_term s i \<Longrightarrow> i = k"
  shows "\<exists>s'. ticks [a] s = Some (s', [a]) \<and> steady s' ch \<and> curr_terminal s' = of_nat k"
proof -
  have t: "target s k = k" using steady_target(1) [OF st k(1)] by (rule o)
  obtain ae ab where a: "a = (ae, ab)" by (cases a)
  obtain s1 where "pit_handler ae ab s = Some (s1, (ae, ab))" "steady s1 ch" "curr_terminal s1 = of_nat k"
    by (rule steady_step [OF st k t, of ae ab]) (auto intro: that)
  then show ?thesis by (simp add: a)
qed

lemma opened_set:
  assumes "k < 3" "opened_term s k"
  shows "{j. opened_term s j} = {k} \<union> (if opened_term s ((k + 1) mod 3) then {(k + 1) mod 3} else {}) \<union>
      (if opened_term s ((k + 2) mod 3) then {(k + 2) mod 3} else {})"
proof -
  have three: "j = k \<or> j = (k + 1) mod 3 \<or> j = (k + 2) mod 3" if "opened_term s j" for j
    using that other_terms(1) [OF assms(1), of j] by (simp add: opened_term_def)
  have "opened_term s j \<longleftrightarrow> j = k \<or> opened_term s j \<and> j = (k + 1) mod 3 \<or> opened_term s j \<and> j = (k + 2) mod 3" for j
    using three [of j] assms(2) by blast
  then have e: "{j. opened_term s j} = {j. j = k \<or> opened_term s j \<and> j = (k + 1) mod 3 \<or> opened_term s j \<and> j = (k + 2) mod 3}"
    by (intro Collect_cong) blast
  show ?thesis by (subst e) auto
qed

subsection \<open>A state for the witnesses\<close>

text \<open>Two shells, on the terminals 1 and 2; the first one is running and shown.\<close>

definition kernel_two :: kernel where
  "kernel_two = kernel_shell\<lparr>process_array := [1, 1, 0, 0, 0, 0], tss_esp0 := pcb_ptr 0, next_terminal := 0,
     pcbs := (pcbs kernel_up)(pcb_ptr 1 := (pcbs kernel_up (pcb_ptr 1))\<lparr>pid := 1\<rparr>),
     terminals := [(terminals kernel_up ! 0)\<lparr>t_open := 1\<rparr>,
       (terminals con_up ! 1)\<lparr>t_open := 1, cur_pcb := pcb_ptr 1, first_process := 1, current_pid := 1,
          current_esp := 0x7FBE00, current_ebp := 0x7FBE40\<rparr>, terminals con_up ! 2]\<rparr>"

lemma kernel_two_opened: "opened_term kernel_two j \<longleftrightarrow> j = 0 \<or> j = 1"
  by (auto simp: opened_term_def kernel_two_def less_3_iff kernel_up_terminals terminal_bss_def terminal.defs)

lemma kernel_two_chains: "chains kernel_two ((\<lambda>_. [])(0 := [0], 1 := [1]))"
  by (auto simp: kernel_two_def chains_def blocks_ok_def chain_of_def less_3_iff less_6_iff kernel_up_terminals fresh_fds_nth
      pcb_bss_def terminal_bss_def terminal.defs parent_link_def pcb_ptr_def)

lemma kernel_two_steady: "steady kernel_two ((\<lambda>_. [])(0 := [0], 1 := [1]))"
proof -
  have "shown kernel_two 0" "next_terminal kernel_two = of_nat 0"
    "on_cpu kernel_two 0 0"
  proof -
    have "user_frame kernel_two = user_frame kernel_shell" by (simp add: kernel_two_def user_frame_def)
    then show "on_cpu kernel_two 0 0" by (simp add: on_cpu_def frame_of_def) (simp add: kernel_two_def)
  qed (simp_all add: shown_def kernel_two_def kernel_shell_def)
  then show ?thesis
    unfolding steady_def kernel_two_opened using kernel_two_chains by (auto intro: exI [of _ 0])
qed

subsection \<open>Properties\<close>



end
