(* ===== verification/Quiet_Calls.thy ===== *)
theory Quiet_Calls
  imports Scheduling
begin

text \<open>
  Changes of the state that leave the processes alone.  \<open>calm\<close> and \<open>here\<close> are about the
  console (the processes of the terminals, which of them are open, which one runs and which one
  is shown), \<open>tame\<close> and \<open>tame_here\<close> about the whole kernel.  Every routine of the screen and
  the keyboard and every system call besides \<open>execute\<close> and \<open>halt\<close> is one of the two, and
  \<open>steady\<close> is kept by all of them.
\<close>

subsection \<open>Changes that leave the processes alone\<close>

definition calm_term :: "terminal \<Rightarrow> terminal \<Rightarrow> bool" where
  "calm_term t t' \<longleftrightarrow> same_procs t t' \<and> t_open t' = t_open t"

definition calm :: "'a console_scheme \<Rightarrow> 'a console_scheme \<Rightarrow> bool" where
  "calm s s' \<longleftrightarrow> length (terminals s') = length (terminals s) \<and>
     (\<forall>k. calm_term (terminals s ! k) (terminals s' ! k)) \<and>
     curr_terminal s' = curr_terminal s \<and> next_terminal s' = next_terminal s \<and>
     page_directory s' = page_directory s \<and> console.more s' = console.more s"

lemma calm_term_refl [simp]: "calm_term t t"
  by (simp add: calm_term_def same_procs_def)

lemma calm_refl [simp]: "calm s s"
  by (simp add: calm_def)

lemma calm_trans [trans]: "calm s s' \<Longrightarrow> calm s' s'' \<Longrightarrow> calm s s''"
  by (simp add: calm_def calm_term_def same_procs_def)

lemma calm_same:
  "terminals s' = terminals s \<Longrightarrow> curr_terminal s' = curr_terminal s \<Longrightarrow> next_terminal s' = next_terminal s \<Longrightarrow>
    page_directory s' = page_directory s \<Longrightarrow> console.more s' = console.more s \<Longrightarrow> calm s s'"
  by (simp add: calm_def)

lemma calm_upd:
  assumes "\<And>t. calm_term t (f t)"
  shows "calm s (upd_term k f s)"
proof -
  have "calm_term (terminals s ! j) (terminals (upd_term k f s) ! j)" for j
    using assms by (cases "j = k"; cases "k < length (terminals s)") (simp_all add: upd_term_def list_update_beyond)
  then show ?thesis by (simp add: calm_def) (simp add: upd_term_def)
qed

text \<open>Every routine of the console is calm; \<open>here\<close> adds that the same terminal stays shown.\<close>

definition here :: "'a console_scheme \<Rightarrow> 'a console_scheme \<Rightarrow> bool" where
  "here s s' \<longleftrightarrow> calm s s' \<and> current_id s' = current_id s"

named_theorems calm_intros

lemma here_refl [simp]: "here s s" by (simp add: here_def)
lemma here_trans [trans]: "here s s' \<Longrightarrow> here s' s'' \<Longrightarrow> here s s''"
  by (auto simp: here_def intro: calm_trans)

lemma here_same:
  "terminals s' = terminals s \<Longrightarrow> curr_terminal s' = curr_terminal s \<Longrightarrow> next_terminal s' = next_terminal s \<Longrightarrow>
    page_directory s' = page_directory s \<Longrightarrow> console.more s' = console.more s \<Longrightarrow> current_id s' = current_id s \<Longrightarrow> here s s'"
  by (simp add: here_def calm_same)

lemma here_upd: "(\<And>t. calm_term t (f t)) \<Longrightarrow> here s (upd_term k f s)"
  by (simp add: here_def calm_upd) (simp add: upd_term_def)

lemma here_console [calm_intros]:
  "here s (putc c s)" "here s (clear s)" "here s (reset_video s)" "here s (clear_row s)"
  "here s (reset_position x y s)" "here s (reset_cursor x y s)" "here s (put_backspace s)" "here s (put_upbackspace s)"
  "here s (clearbuffuer s)" "here s (clearbufferindex s)" "here s (cli s)" "here s (sti s)" "here s (send_eoi n s)"
  "here s (check_terminal y s)" "here s (released_keys c s)" "here s (modifier_keys c s)" "here s (set_vmem m s)"
  by (rule here_same; simp add: frame_simps console_defs clear_def clearbuffuer_def clearbufferindex_def cli_def sti_def
      send_eoi_def outb_def check_terminal_def terminal_test_def released_keys_def modifier_keys_def Let_def set_vmem_def)+

lemma here_fold_putc [calm_intros]: "here s (fold putc xs s)"
  by (induction xs arbitrary: s) (auto intro: here_trans here_console)

lemma here_prout [calm_intros]: "prout c s = Some s' \<Longrightarrow> here s s'"
  by (auto simp: prout_def bind_eq_Some_conv Let_def frame_simps console_defs outb_def split: if_splits intro!: here_same)

lemma here_drop_key: "drop_key s = Some s' \<Longrightarrow> here s s'"
  by (auto simp: drop_key_def bind_eq_Some_conv split: if_splits intro!: here_same)

lemma here_backspace [calm_intros]: "backspace s = Some s' \<Longrightarrow> here s s'"
proof -
  have step: "drop_key t = Some s' \<Longrightarrow> here s t \<Longrightarrow> here s s'" for t
    by (rule here_trans [OF _ here_drop_key])
  have upd: "here s (reset_cursor a b (reset_position c d (t\<lparr>vd_x := e, vd_y := f\<rparr>)))"
    "here s (reset_cursor a b (reset_position c d (t\<lparr>vd_x := e\<rparr>)))" if "here s t" for t a b c d e f
    using that by (auto intro!: here_trans [OF that] here_same simp: console_defs Let_def outb_def)
  show "backspace s = Some s' \<Longrightarrow> here s s'"
    unfolding backspace_def Let_def by (auto split: if_splits intro: step upd here_console(7,8))
qed

lemma here_type_from: "type_from t c i k s = Some s' \<Longrightarrow> here s s'"
  by (induction k arbitrary: i) (auto split: if_splits intro: here_prout)

lemma here_type [calm_intros]:
  "type_shift c s = Some s' \<Longrightarrow> here s s'" "type_caps c s = Some s' \<Longrightarrow> here s s'" "type_lower c s = Some s' \<Longrightarrow> here s s'"
  by (auto simp: type_shift_def type_caps_def type_lower_def bind_eq_Some_conv split: option.splits
      intro: here_prout here_type_from here_trans)

lemma here_type_key [calm_intros]: "type_key c s = Some s' \<Longrightarrow> here s s'"
  by (auto simp: type_key_def bind_eq_Some_conv split: if_splits intro: calm_intros here_trans)

lemma here_copy [calm_intros]:
  "copy_to_teminal kb n s = Some s' \<Longrightarrow> here s s'" "copy_keyboard_buf kb n s = Some s' \<Longrightarrow> here s s'"
  "copy_to_keyboard_buf n kb s = Some s' \<Longrightarrow> here s s'" "clear_buf s = Some s' \<Longrightarrow> here s s'"
proof -
  have u: "here s (upd_term k (\<lambda>t. t\<lparr>read_flag := f\<rparr>) s)" "here s (upd_term k (\<lambda>t. t\<lparr>t_buf := b, t_buf_index := g t\<rparr>) s)"
    for s :: "'a console_scheme" and k f b g
    by (rule here_upd; simp add: calm_term_def same_procs_def)+
  show "copy_to_teminal kb n s = Some s' \<Longrightarrow> here s s'"
    by (auto simp: copy_to_teminal_def Let_def bind_eq_Some_conv intro: here_trans [OF u(1) u(2)])
  show "clear_buf s = Some s' \<Longrightarrow> here s s'"
    by (auto simp: clear_buf_def Let_def bind_eq_Some_conv intro: u(2))
qed (auto simp: copy_keyboard_buf_def copy_to_keyboard_buf_def bind_eq_Some_conv intro!: here_same)

lemma here_enter [calm_intros]: "enter_key s = Some s' \<Longrightarrow> here s s'"
proof -
  assume e: "enter_key s = Some s'"
  from e obtain s1 where s1: "prout 0x0A s = Some s1" unfolding enter_key_def by (cases "prout 0x0A s") simp_all
  with e obtain s2 where s2: "copy_to_teminal (keyboardbuf s1) (buf_index s1) s1 = Some s2"
    unfolding enter_key_def by (cases "copy_to_teminal (keyboardbuf s1) (buf_index s1) s1") simp_all
  define s3 where "s3 = clearbuffuer (check_terminal (vd_y s2) s2)"
  have "here s s3" unfolding s3_def by (intro here_trans [OF here_prout [OF s1]] here_trans [OF here_copy(1) [OF s2]] here_trans [OF here_console(14) here_console(9)])
  moreover have "here s3 s'"
    using e by (auto simp: enter_key_def s1 s2 s3_def Let_def console_defs outb_def clearbuffuer_def check_terminal_def
        terminal_test_def split: if_splits intro!: here_same)
  ultimately show "here s s'" by (rule here_trans)
qed

lemma here_clear_key [calm_intros]: "here s (clear_key s)"
  by (rule here_same; simp add: clear_key_def clear_def console_defs outb_def Let_def)

lemma here_literal:
  assumes "0 \<notin> set xs" "0x25 \<notin> set xs" "length xs < 4294967296" "printf junk (array_str (xs @ 0 # ys)) esp s = Some (s', n)"
  shows "here s s'"
proof -
  have "printf junk (array_str (xs @ 0 # ys)) esp s = Some (fold putc xs s, of_nat (length xs))"
    by (rule printf_literal [OF array_str_holds [OF assms(1,3)] assms(2)])
  then show ?thesis using assms(4) here_fold_putc by auto
qed

lemma here_already: "n = 1 \<or> n = 2 \<or> n = 3 \<Longrightarrow> printf junk (already_msg n) esp s = Some (s', m) \<Longrightarrow> here s s'"
proof -
  assume n: "n = 1 \<or> n = 2 \<or> n = 3" and p: "printf junk (already_msg n) esp s = Some (s', m)"
  have "(0x30 + of_nat n :: u8) \<noteq> 0" "(0x30 + of_nat n :: u8) \<noteq> 0x25" using n by auto
  then show "here s s'"
    using here_literal [of "ascii ''already in terminal '' @ [0x30 + of_nat n]" junk "[]" esp s s' m] p
    by (auto simp: already_msg_def ascii_def)
qed

text \<open>Saving the terminal in front, and bringing another one there.\<close>

lemma here_save [calm_intros]: "save_terminal s = Some s' \<Longrightarrow> here s s'"
proof -
  have u: "here s t \<Longrightarrow> here s (upd_term k (\<lambda>t. t\<lparr>t_buf_index := i\<rparr>) t)"
    "here s t \<Longrightarrow> here s (upd_term k (\<lambda>t. t\<lparr>t_screen_x := a, t_screen_y := b, t_cursor_x := c, t_cursor_y := d\<rparr>) t)"
    "here s t \<Longrightarrow> here s (upd_term k (\<lambda>t. t\<lparr>t_buf := bf\<rparr>) t)" for s t :: "'a console_scheme" and k i a b c d bf
    by (erule here_trans; rule here_upd; simp add: calm_term_def same_procs_def)+
  have f: "here s t \<Longrightarrow> here s (t\<lparr>terminal_buffer_index := i\<rparr>)" "here s t \<Longrightarrow> here s (t\<lparr>current_x := x\<rparr>)"
    "here s t \<Longrightarrow> here s (t\<lparr>current_y := x\<rparr>)" "here s t \<Longrightarrow> here s (t\<lparr>current_cursor_x := x\<rparr>)"
    "here s t \<Longrightarrow> here s (t\<lparr>current_cursor_y := x\<rparr>)" "here s t \<Longrightarrow> here s (t\<lparr>phys := m\<rparr>)" for s t :: "'a console_scheme" and i x m
    by (erule here_trans; rule here_same; simp)+
  have g: "here s t \<Longrightarrow> here s (clearbufferindex (clearbuffuer t))" for s t :: "'a console_scheme"
    by (erule here_trans) (intro here_trans [OF here_console(9) here_console(10)])
  show "save_terminal s = Some s' \<Longrightarrow> here s s'"
    by (auto simp: save_terminal_def Let_def bind_eq_Some_conv intro!: f u g)
qed

lemma calm_restore:
  "restore_terminal n s = Some s' \<Longrightarrow> calm s s' \<and> current_id s' = n"
  "restore_terminal_1 s = Some s' \<Longrightarrow> calm s s' \<and> current_id s' = 1"
  by (auto simp: restore_terminal_def restore_terminal_1_def copy_to_keyboard_buf_def Let_def bind_eq_Some_conv
      console_defs outb_def intro!: calm_same)

text \<open>The screen of a terminal that is opened.\<close>

lemma open_screen_state:
  "open_screen n k s = Some s' \<Longrightarrow> calm (upd_term k (\<lambda>t. t\<lparr>t_open := 1\<rparr>) s) s' \<and> current_id s' = n"
  by (auto simp: open_screen_def Let_def bind_eq_Some_conv console_defs outb_def clear_def send_eoi_def sti_def intro!: calm_same)

text \<open>On the kernel: descriptors and memory may change too.\<close>

definition same_block :: "pcb \<Rightarrow> pcb \<Rightarrow> bool" where
  "same_block b b' \<longleftrightarrow> same_ids b b' \<and> length (fd b') = length (fd b) \<and> length (pcb_arg b') = length (pcb_arg b) \<and>
     old_esp b' = old_esp b \<and> old_ebp b' = old_ebp b"

definition tame :: "'a kernel_scheme \<Rightarrow> 'a kernel_scheme \<Rightarrow> bool" where
  "tame s s' \<longleftrightarrow> length (terminals s') = length (terminals s) \<and>
     (\<forall>k. calm_term (terminals s ! k) (terminals s' ! k)) \<and>
     curr_terminal s' = curr_terminal s \<and> next_terminal s' = next_terminal s \<and>
     user_frame s' = user_frame s \<and> process_array s' = process_array s \<and> tss_esp0 s' = tss_esp0 s \<and>
     (\<forall>p. same_block (pcbs s p) (pcbs s' p))"

lemma same_block_refl [simp]: "same_block b b"
  by (simp add: same_block_def same_ids_def)

lemma tame_refl [simp]: "tame s s"
  by (simp add: tame_def)

lemma tame_trans [trans]: "tame s s' \<Longrightarrow> tame s' s'' \<Longrightarrow> tame s s''"
  by (simp add: tame_def calm_term_def same_procs_def same_block_def same_ids_def)

lemma calm_tame: "calm s s' \<Longrightarrow> tame s (s' :: 'a kernel_scheme)"
proof -
  assume c: "calm s s'"
  then have "process_array s' = process_array s \<and> pcbs s' = pcbs s \<and> tss_esp0 s' = tss_esp0 s"
    by (cases s, cases s') (simp add: calm_def)
  moreover have "user_frame s' = user_frame s" using c by (simp add: calm_def user_frame_def)
  ultimately show "tame s s'" using c by (simp add: calm_def tame_def)
qed

lemma tame_opened: "tame s s' \<Longrightarrow> opened_term s' k = opened_term s k"
  by (simp add: tame_def opened_term_def calm_term_def)

lemma tame_chains: "chains s ch \<Longrightarrow> tame s s' \<Longrightarrow> chains s' ch"
proof -
  assume ch: "chains s ch" and t: "tame s s'"
  have "chain_of s' k (ch k)" if "k < 3" for k
    using ch that t by (intro chain_cong [of s k "ch k" s']) (simp_all add: chains_def tame_def calm_term_def same_block_def)
  moreover have len: "length (terminals s') = length (terminals s)" and arr: "process_array s' = process_array s"
    using t by (simp_all add: tame_def)
  moreover have blk: "length (fd (pcbs s' p)) = length (fd (pcbs s p))" "length (pcb_arg (pcbs s' p)) = length (pcb_arg (pcbs s p))" for p
    using t by (simp_all add: tame_def same_block_def)
  ultimately show "chains s' ch"
    using ch unfolding chains_def blocks_ok_def len arr blk by blast
qed

text \<open>The state stays steady, also when another open terminal comes to the front.\<close>

lemma steady_front:
  assumes "steady s ch" "tame s s'" "shown s' k" "opened_term s k"
  shows "steady s' ch"
proof -
  have o: "opened_term s' j = opened_term s j" for j by (rule tame_opened [OF assms(2)])
  have c: "on_cpu s' j m = on_cpu s j m" for j m using assms(2) by (simp add: on_cpu_def tame_def)
  have n: "next_terminal s' = next_terminal s" using assms(2) by (simp add: tame_def)
  have "chains s' ch" using assms(1,2) by (auto simp: steady_def intro: tame_chains)
  then show ?thesis using assms(1,3,4) unfolding steady_def o c n by blast
qed

lemma steady_tame: "steady s ch \<Longrightarrow> tame s s' \<Longrightarrow> current_id s' = current_id s \<Longrightarrow> steady s' ch"
proof -
  assume a: "steady s ch" "tame s s'" "current_id s' = current_id s"
  obtain k where "shown s k" "opened_term s k" using a(1) by (auto simp: steady_def)
  then show "steady s' ch" using a by (intro steady_front [OF a(1,2), of k]) (simp_all add: shown_def)
qed

lemma steady_here: "steady s ch \<Longrightarrow> here s s' \<Longrightarrow> steady s' ch"
  by (auto simp: here_def intro: steady_tame calm_tame)

text \<open>The system calls.\<close>

definition tame_here :: "'a kernel_scheme \<Rightarrow> 'a kernel_scheme \<Rightarrow> bool" where
  "tame_here s s' \<longleftrightarrow> tame s s' \<and> current_id s' = current_id s"

lemma tame_here_refl [simp]: "tame_here s s" by (simp add: tame_here_def)
lemma tame_here_trans [trans]: "tame_here s s' \<Longrightarrow> tame_here s' s'' \<Longrightarrow> tame_here s s''"
  by (auto simp: tame_here_def intro: tame_trans)
lemma here_tame: "here s s' \<Longrightarrow> tame_here s s'"
  by (simp add: here_def tame_here_def calm_tame)

lemma steady_call: "steady s ch \<Longrightarrow> tame_here s s' \<Longrightarrow> steady s' ch"
  by (auto simp: tame_here_def intro: steady_tame)

lemma tame_upd_fd: "tame_here s (upd_fd p i f s)"
  by (simp add: tame_here_def tame_def upd_fd_def upd_pcb_def user_frame_def same_block_def same_ids_def)

lemma tame_open_loop: "open_loop k i p ty node s = Some (s', r) \<Longrightarrow> tame_here s s'"
proof (induction k arbitrary: i)
  case (Suc k)
  show ?case
  proof (cases "fd_at s p i")
    case (Some d)
    then show ?thesis
      using Suc by (auto simp: Let_def split: if_splits intro: tame_here_trans [OF tame_upd_fd tame_upd_fd])
  qed (use Suc.prems in simp)
qed simp

lemma tame_open: "sys_open junk nm s = Some (s', r) \<Longrightarrow> tame_here s s'"
  by (auto simp: sys_open_def bind_eq_Some_conv split: if_splits prod.splits option.splits intro: tame_open_loop)

lemma tame_call_close: "call_close f s = Some (s', r) \<Longrightarrow> tame_here s s'"
  by (cases f) (auto simp: call_close_def rtc_close_def dir_close_def file_close_def terminal_close_def unvalid_operation_def)

lemma tame_close: "sys_close i s = Some (s', r) \<Longrightarrow> tame_here s s'"
  by (auto simp: sys_close_def bind_eq_Some_conv Let_def split: if_splits intro: tame_here_trans [OF tame_upd_fd tame_call_close])

lemma tame_set_vmem: "tame_here s (set_vmem m s)"
  by (rule here_tame) (rule here_console)

lemma tame_vmem_fd: "tame_here s (upd_fd p i f (set_vmem m s))"
  by (rule tame_here_trans [OF tame_set_vmem tame_upd_fd])

lemma tame_file_read: "file_read i buf n s = Some (s', r) \<Longrightarrow> tame_here s s'"
proof -
  assume f: "file_read i buf n s = Some (s', r)"
  then obtain p d where p: "running_pcb s = Some p" "fd_at s p i = Some d" by (auto simp: file_read_def bind_eq_Some_conv)
  obtain m c where m: "read_data s (vmem s) (inode d) (file_position d) buf n = (m, c)" by (cases "read_data s (vmem s) (inode d) (file_position d) buf n")
  show ?thesis
    using f unfolding file_read_def p bind.bind_lunit Let_def m prod.case
    by (auto simp: bind_eq_Some_conv split: if_splits intro: tame_vmem_fd tame_here_trans [OF tame_vmem_fd tame_upd_fd])
qed

lemma here_terminal_read:
  assumes "terminal_read [] buf s = Some (s', r)"
  shows "here s s'"
proof -
  have w: "\<not> read_waits (sti s)" using assms by (auto simp: terminal_read_def Let_def split: if_splits)
  define s1 where "s1 = cli (sti s)"
  have sp: "spin_while read_waits [] (sti s) = Some (sti s)" using w by simp
  obtain k where k: "cur_ix s1 = Some k"
    using assms unfolding terminal_read_def Let_def sp bind.bind_lunit s1_def [symmetric] by (cases "cur_ix s1") simp_all
  obtain z where z: "line_size (t_buf (terminals s1 ! k)) 0 = Some z"
    using assms unfolding terminal_read_def Let_def sp bind.bind_lunit s1_def [symmetric] k
    by (cases "line_size (t_buf (terminals s1 ! k)) 0") simp_all
  define s2 where "s2 = set_vmem (copy_line (vmem s1) buf (t_buf (terminals s1 ! k)) 0 z) s1"
  obtain s3 where s3: "clear_buf s2 = Some s3"
    using assms unfolding terminal_read_def Let_def sp bind.bind_lunit s1_def [symmetric] k z s2_def [symmetric]
    by (cases "clear_buf s2") simp_all
  obtain j where j: "cur_ix s3 = Some j"
    using assms unfolding terminal_read_def Let_def sp bind.bind_lunit s1_def [symmetric] k z s2_def [symmetric] s3
    by (cases "cur_ix s3") simp_all
  have "Some (upd_term j (\<lambda>t. t\<lparr>read_flag := 0\<rparr>) s3, int z) = Some (s', r)"
    using assms unfolding terminal_read_def Let_def sp bind.bind_lunit s1_def [symmetric] k z s2_def [symmetric] s3 j .
  then have s': "s' = upd_term j (\<lambda>t. t\<lparr>read_flag := 0\<rparr>) s3" by blast
  have "here s (sti s)" by (rule here_console)
  also have "here (sti s) s1" unfolding s1_def by (rule here_console)
  also have "here s1 s2" unfolding s2_def by (rule here_console)
  also have "here s2 s3" by (rule here_copy(4) [OF s3])
  also have "here s3 s'" unfolding s' by (rule here_upd) (simp add: calm_term_def same_procs_def)
  finally show ?thesis .
qed

lemma here_putm: "putm c s = Some s' \<Longrightarrow> here s s'"
proof -
  have u: "here s (upd_term k (\<lambda>t. t\<lparr>t_screen_x := a t, t_screen_y := b t\<rparr>) t)" if "here s t" for s t :: "'a console_scheme" and k a b
    by (rule here_trans [OF that here_upd]) (simp add: calm_term_def same_procs_def)
  have v: "here s (upd_term k (\<lambda>t. t\<lparr>t_screen_y := b t, t_screen_x := a t\<rparr>) t)" if "here s t" for s t :: "'a console_scheme" and k a b
    by (rule here_trans [OF that here_upd]) (simp add: calm_term_def same_procs_def)
  have p: "here s ((t :: 'a console_scheme)\<lparr>phys := m\<rparr>)" if "here s t" for s t m
    by (rule here_trans [OF that here_same]) simp_all
  have kw: "here s (keyboard_write s)" for s :: "'a console_scheme" by (rule here_same) (simp_all add: keyboard_write_def)
  show "here s s'" if m: "putm c s = Some s'"
  proof -
    from m obtain pg k where o: "printscreen s = Some pg" "term_ix s (uint (curr_terminal s)) = Some k"
      by (auto simp: putm_def bind_eq_Some_conv)
    show "here s s'"
      using m unfolding putm_def o bind.bind_lunit Let_def
      by (cases "c = 0x0A \<or> c = 0x0D"; cases "t_screen_y (terminals s ! k) = 24") (auto intro!: u v p kw)
  qed
qed

lemma here_terminal_write: "terminal_write buf n s = Some (s', r) \<Longrightarrow> here s s'"
proof -
  have c: "here s (write_putc buf i k s)" for i k and s :: "'a console_scheme"
    by (induction k arbitrary: i s) (auto intro: here_trans [OF here_console(1)])
  have m: "write_putm buf i k s = Some s' \<Longrightarrow> here s s'" for i k and s s' :: "'a console_scheme"
    by (induction k arbitrary: i s) (auto simp: bind_eq_Some_conv intro: here_trans here_putm)
  show "terminal_write buf n s = Some (s', r) \<Longrightarrow> here s s'"
    by (auto simp: terminal_write_def bind_eq_Some_conv split: if_splits intro: c m)
qed

lemma here_dir_call:
  "(do { (s, m, n) \<leftarrow> dir_read junk buf s (vmem s); Some (set_vmem m s, sint n) }) = Some (s', r) \<Longrightarrow> here s s'"
proof -
  assume d: "(do { (s, m, n) \<leftarrow> dir_read junk buf s (vmem s); Some (set_vmem m s, sint n) }) = Some (s', r)"
  then obtain t m c where t: "dir_read junk buf s (vmem s) = Some (t, m, c)" "s' = set_vmem m t"
    by (auto simp: bind_eq_Some_conv)
  obtain x q where x: "read_dentry_by_index s (vmem s) (of_int (dir_read_loc s)) junk = (x, q)"
    by (cases "read_dentry_by_index s (vmem s) (of_int (dir_read_loc s)) junk")
  have "t = s\<lparr>dir_read_loc := 0\<rparr> \<or> t = s\<lparr>dir_read_loc := dir_read_loc s + 1\<rparr>"
    using t(1) unfolding dir_read_def x Let_def prod.case
    by (cases "strlen (d_name x)"; cases "q = 0") simp_all
  then have "here s t" by (elim disjE) (rule here_same; simp)+
  then show ?thesis unfolding t(2) by (intro here_trans [OF _ here_console(17)])
qed

lemma tame_read: "sys_read [] junk i buf n s = Some (s', r) \<Longrightarrow> tame_here s s'"
proof -
  have "rtc_read [] s = Some (s', r) \<Longrightarrow> tame_here s s'" by (auto simp: rtc_read_def Let_def)
  then have "call_read f [] junk j buf n s = Some (s', r) \<Longrightarrow> tame_here s s'" for f j
    using here_tame [OF here_dir_call [of junk buf s s' r]]
    by (cases f) (auto simp: call_read_def unvalid_operation_def intro: tame_file_read here_tame here_terminal_read)
  then show "sys_read [] junk i buf n s = Some (s', r) \<Longrightarrow> tame_here s s'"
    by (auto simp: sys_read_def bind_eq_Some_conv split: if_splits)
qed

lemma here_write: "sys_write prev i buf n s = Some (s', r) \<Longrightarrow> here s s'"
proof -
  have rtc: "here s (fst (rtc_write f prev s))" for f
    by (auto simp: rtc_write_def Let_def sti_def cli_def outb_def split: option.splits intro!: here_same)
  have "rtc_write f prev s = (s', r) \<Longrightarrow> here s s'" for f using rtc [of f] by simp
  then have "call_write f prev buf n s = Some (s', r) \<Longrightarrow> here s s'" for f
    by (cases f) (auto simp: call_write_def dir_write_def file_write_def unvalid_operation_def intro: here_terminal_write)
  then show "sys_write prev i buf n s = Some (s', r) \<Longrightarrow> here s s'"
    by (auto simp: sys_write_def bind_eq_Some_conv split: if_splits)
qed

lemma here_getargs: "getargs buf n s = Some (s', r) \<Longrightarrow> here s s'"
  by (auto simp: getargs_def bind_eq_Some_conv split: if_splits intro: here_console(17))

lemmas tame_write = here_tame [OF here_write]
lemmas tame_getargs = here_tame [OF here_getargs]

lemma tame_vidmap: "tame_here s (fst (vidmap start s))"
proof -
  have m: "tame_here s (map_to_vid v p t)" "tame_here s (tlb_flush t)" if "tame_here s t" for s t :: "'a kernel_scheme" and v p
    using that by (simp_all add: tame_here_def tame_def map_to_vid_def tlb_flush_def load_cr3_def Let_def user_frame_def)
  show ?thesis
    by (auto simp: vidmap_def Let_def intro!: m tame_set_vmem)
qed

end
