(* ===== verification/Start_Stop.thy ===== *)
theory Start_Stop
  imports Quiet_Calls
begin

text \<open>
  \<open>execute\<close> and \<open>halt\<close> on any command, file and state: the program that is entered is the last
  process of the shown terminal, an \<open>execute\<close> that returns has changed nothing, and the state stays
  \<open>steady\<close>.  The locale \<open>exec_steps\<close> lifts a fact from the steps of the loader to all of \<open>execute\<close>.
\<close>

subsection \<open>Starting and ending a process\<close>

text \<open>\<open>execute\<close> and \<open>halt\<close> neither open nor show a terminal, and do not touch the scheduler's choice.\<close>

definition kept :: "'a console_scheme \<Rightarrow> 'a console_scheme \<Rightarrow> bool" where
  "kept s s' \<longleftrightarrow> (\<forall>j. t_open (terminals s' ! j) = t_open (terminals s ! j)) \<and>
     current_id s' = current_id s \<and> next_terminal s' = next_terminal s"

lemma kept_refl [simp]: "kept s s" by (simp add: kept_def)

lemma kept_trans [trans]: "kept s s' \<Longrightarrow> kept s' s'' \<Longrightarrow> kept s s''"
  by (simp add: kept_def)

lemma here_kept: "here s s' \<Longrightarrow> kept s s'"
  by (simp add: here_def calm_def calm_term_def kept_def)

lemma kept_upd:
  assumes "\<And>t. t_open (f t) = t_open t"
  shows "kept s (upd_term k f s)"
proof -
  have "t_open (terminals (upd_term k f s) ! j) = t_open (terminals s ! j)" for j
    using assms by (cases "j = k"; cases "k < length (terminals s)") (simp_all add: upd_term_def list_update_beyond)
  then show ?thesis by (simp add: kept_def) (simp add: upd_term_def)
qed

lemma kept_same:
  "terminals s' = terminals s \<Longrightarrow> current_id s' = current_id s \<Longrightarrow> next_terminal s' = next_terminal s \<Longrightarrow> kept s s'"
  by (simp add: kept_def)

lemma kept_opened: "kept s s' \<Longrightarrow> opened_term s' j = opened_term s j"
  by (simp add: kept_def opened_term_def)

lemma kept_start_process: "start_process p a z esp ebp s = Some s' \<Longrightarrow> kept s s'"
proof -
  have u: "kept s (upd_term k f t)" if "kept s t" "\<And>t. t_open (f t) = t_open t" for s t :: "'a kernel_scheme" and k f
    using that by (blast intro: kept_trans kept_upd)
  have p: "kept s (upd_pcb q g t)" if "kept s t" for s t :: "'a kernel_scheme" and q g
    using that by (simp add: kept_def upd_pcb_def)
  have f: "kept s (t\<lparr>current_pcb := q\<rparr>)" "kept s (t\<lparr>curr_terminal := c\<rparr>)" "kept s (t\<lparr>tss_esp0 := q, tss_ss0 := w\<rparr>)"
    if "kept s t" for s t :: "'a kernel_scheme" and q c w
    using that by (simp_all add: kept_def)
  show "start_process p a z esp ebp s = Some s' \<Longrightarrow> kept s s'"
    by (auto simp: start_process_def Let_def bind_eq_Some_conv intro!: u p f)
qed

text \<open>
  What \<open>execute\<close> does, step by step, as an interface: a relation that contains the calm steps, the
  steps of the loader and their compositions contains every run of \<open>execute\<close>.
\<close>

lemma here_fish: "start_fish nm s = Some s' \<Longrightarrow> here s s'"
proof -
  have u: "here s (upd_term k (\<lambda>t. t\<lparr>fish := 1\<rparr>) (s\<lparr>phys := m\<rparr>))" for k m
    by (rule here_trans [OF here_same here_upd]) (simp_all add: calm_term_def same_procs_def)
  show "start_fish nm s = Some s' \<Longrightarrow> here s s'"
    by (auto simp: start_fish_def bind_eq_Some_conv Let_def split: if_splits intro!: u)
qed

lemma new_process_cases:
  assumes "new_process junk s = Some np"
  obtains (none) t where "np = Inl t" "here s t" | (slot) a p where "np = Inr (s\<lparr>process_array := a\<rparr>, p)"
proof -
  have pr: "here s s'" if "printf junk max_processes_msg (\<lambda>_. 0) s = Some (s', n)" for s' n
    by (rule here_literal [of "ascii ''Maximum Processes'' @ [0x0A]" junk "[]"]) (use that in \<open>simp_all add: max_processes_msg_def ascii_def\<close>)
  from assms obtain k where ix: "term_ix s (get_terminal_id s - 1) = Some k" by (auto simp: new_process_def bind_eq_Some_conv)
  show thesis
    using assms none slot pr unfolding new_process_def ix bind.bind_lunit
    by (cases "arr_set (process_array s) (get_terminal_id s - 1) 1";
        cases "List.find (\<lambda>i. process_array s ! i = 0) [3..<max_processes]"; cases "printf junk max_processes_msg (\<lambda>_. 0) s")
      (auto simp del: upt_rec_numeral split: if_splits prod.splits)
qed

locale exec_steps =
  fixes R :: "'a kernel_scheme \<Rightarrow> 'a kernel_scheme \<Rightarrow> bool"
  assumes calm_step: "here s s' \<Longrightarrow> R s s'"
    and then_step: "R s t \<Longrightarrow> R t u \<Longrightarrow> R s u"
    and slot_step: "R s (s\<lparr>process_array := a\<rparr>)"
    and map_step: "R s (map_to_user_phy n v z s)"
    and start_step: "start_process p a w esp ebp s = Some s' \<Longrightarrow> R s s'"
begin

lemma load_new:
  assumes l: "(do { np \<leftarrow> new_process junk s;
      (case np of Inl s \<Rightarrow> Some (s, Returned (-1))
       | Inr (s, process_num) \<Rightarrow>
           do { let s = map_to_user_phy (ucast process_num) MAP_1 MAP_2 s;
                let s = set_vmem (fst (read_data s (vmem s) node 0 read_buf (file_size s (vmem s) node))) s;
                s \<leftarrow> start_process process_num a z esp ebp s;
                Some (s, Enter_user entry_point asm_hex) }) }) = Some (s', r)"
  shows "R s s'"
proof -
  from l obtain np where np: "new_process junk s = Some np" by (cases "new_process junk s") simp_all
  from np show ?thesis
  proof (cases rule: new_process_cases)
    case (none t)
    then show ?thesis using l np calm_step by simp
  next
    case (slot x p)
    define t where "t = s\<lparr>process_array := x\<rparr>"
    define u where "u = map_to_user_phy (ucast p) MAP_1 MAP_2 t"
    define v where "v = set_vmem (fst (read_data u (vmem u) node 0 read_buf (file_size u (vmem u) node))) u"
    have "R t u" unfolding u_def by (rule map_step)
    moreover have "R u v" unfolding v_def by (rule calm_step [OF here_console(17)])
    moreover have "R v s'"
      using l unfolding np bind.bind_lunit slot sum.case prod.case Let_def t_def [symmetric] u_def [symmetric] v_def [symmetric]
      by (cases "start_process p a z esp ebp v") (simp_all add: start_step)
    moreover have "R s t" unfolding t_def by (rule slot_step)
    ultimately show ?thesis by (blast intro: then_step)
  qed
qed

lemma load: "load_program e node a z s = Some (s', r) \<Longrightarrow> R s s'"
proof -
  define s1 where "s1 = set_vmem (fst (read_data s (vmem s) node 0 (e_bufp e) 4)) s"
  define s2 where "s2 = set_vmem (fst (read_data s1 (vmem s1) node 24 (e_bufp e) 4)) s1"
  have k1: "R s s1" unfolding s1_def by (rule calm_step [OF here_console(17)])
  have k2: "R s s2" unfolding s2_def by (rule then_step [OF k1 calm_step [OF here_console(17)]])
  note n = load_new [of "e_junk e" s2 node a z "e_esp e" "e_ebp e" _ s' r]
  assume l: "load_program e node a z s = Some (s', r)"
  then show "R s s'"
    using k1 then_step [OF k2 n] unfolding load_program_def Let_def case_prod_unfold s1_def [symmetric] s2_def [symmetric]
    by (auto simp del: bind_eq_Some_conv split: if_splits)
qed

lemma exec: "execute e c s = Some (s', r) \<Longrightarrow> R s s'"
proof -
  assume x: "execute e c s = Some (s', r)"
  show "R s s'"
  proof (cases c)
    case None
    then show ?thesis using x calm_step [OF here_console(11)] by (auto simp: execute_def)
  next
    case (Some w)
    from x obtain nm a z t where t: "parse_command (e_arg e) w = Some (nm, a, z)" "start_fish nm (cli s) = Some t"
      unfolding execute_def Some by (cases "parse_command (e_arg e) w"; auto simp: bind_eq_Some_conv Let_def)
    have k: "R s t" by (rule calm_step [OF here_trans [OF here_console(11) here_fish [OF t(2)]]])
    have "R t s'"
      using x calm_step [OF here_refl] unfolding execute_def Some Let_def option.case t bind.bind_lunit prod.case
      by (auto split: option.splits prod.splits if_splits intro: load)
    then show ?thesis by (rule then_step [OF k])
  qed
qed

end

lemma kept_map: "kept s (map_to_user_phy n a z s)"
  by (rule kept_same) (simp_all add: map_to_user_phy_def Let_def tlb_flush_def load_cr3_def)

lemma kept_slot: "kept s (s\<lparr>process_array := a\<rparr>)"
  by (rule kept_same) simp_all

interpretation kept_exec: exec_steps kept
  by unfold_locales (fact here_kept kept_trans kept_slot kept_map kept_start_process)+

lemmas kept_execute = kept_exec.exec

lemma strcpy_array_length: "strcpy_array ds xs = Some r \<Longrightarrow> length r = length ds"
  by (induction ds xs arbitrary: r rule: strcpy_array.induct) (auto split: if_splits)

lemma steady_moved:
  assumes "steady s ch" "kept s s'" "chains s' (ch(k := c))" "c \<noteq> []" "opened_term s k" "on_cpu s' k (last c)"
  shows "steady s' (ch(k := c))"
proof -
  have o: "opened_term s' j = opened_term s j" for j by (rule kept_opened [OF assms(2)])
  have sh: "shown s' j = shown s j" for j by (rule shown_cong) (use assms(2) in \<open>simp add: kept_def\<close>)
  have n: "next_terminal s' = next_terminal s" using assms(2) by (simp add: kept_def)
  have ck: "(ch(k := c)) k = c" by simp
  have "opened_term s j \<longleftrightarrow> (ch(k := c)) j \<noteq> []" if "j < 3" for j using assms(1,4,5) that by (auto simp: steady_def)
  moreover have "\<exists>k'. opened_term s k' \<and> on_cpu s' k' (last ((ch(k := c)) k'))"
    using assms(5,6) by (intro exI [of _ k]) simp
  ultimately show ?thesis using assms(1,3) unfolding steady_def o sh n by blast
qed

text \<open>The part of \<open>load_program\<close> behind the checks, whatever the file contains.\<close>

lemma tame_fish: "start_fish nm s = Some s' \<Longrightarrow> tame_here s s'"
  by (rule here_tame [OF here_fish])

lemma start_chains:
  assumes ch: "chains s ch" and k: "shown s k" and f: "free_pid ch k = Some n"
    and t: "terminals t = terminals s" "pcbs t = pcbs s" "process_array t = (process_array s)[n := 1]" "current_id t = current_id s"
      "user_frame t = frame_of (of_nat n)"
    and st: "start_process (of_nat n) arg sz esp ebp t = Some s'"
  shows "chains s' (ch(k := ch k @ [n])) \<and> on_cpu s' k n"
proof -
  have k3: "k < 3" using k by (simp add: shown_def)
  note fr = free_pid_fresh [OF ch k3 f]
  have len: "length (terminals t) = 3" "first_process (terminals t ! k) = (if ch k = [] then 0 else 1)"
    "length (pcb_arg (pcb_of s n)) = 128"
    using ch k3 fr(1) by (simp_all add: t chains_def blocks_ok_def chain_of_def)
  have u: "(ucast (of_nat n :: u8) :: u32) = of_nat n" using fr(1) unfolding less_6_iff by auto
  obtain a where a: "strcpy_array (pcb_arg (pcb_of t n)) arg = Some a"
    using st pcb_ptr_slots [OF fr(1)]
    by (auto simp: start_process_def u pcb_ptr_def [symmetric] Let_def pcb_at_def bind_eq_Some_conv split: if_splits)
  have kt: "shown t k" using k by (simp add: shown_def t)
  define b where "b = new_block n (if ch k = [] then -1 else current_pid (terminals s ! k)) a sz esp ebp (pcb_of s n)"
  have s': "s' = started t k n b"
    using st unfolding start_process_copied [OF fr(1) kt len(1,2) a] unfolding b_def t by simp
  have "chains s' (ch(k := ch k @ [n]))"
    unfolding s' by (rule started_chains [OF ch k3 f t(1-3) b_def]) (use strcpy_array_length [OF a] len(3) in \<open>simp add: t\<close>)
  moreover have "on_cpu s' k n" unfolding on_cpu_def s' by (simp add: started_frame t) (simp add: started_def)
  ultimately show ?thesis ..
qed

text \<open>A load either enters the program as the last process of the shown terminal, or changes nothing.\<close>

definition entered :: "(nat \<Rightarrow> nat list) \<Rightarrow> nat \<Rightarrow> 'a kernel_scheme \<Rightarrow> exec_result \<Rightarrow> 'a kernel_scheme \<Rightarrow> bool" where
  "entered ch k s r s' \<longleftrightarrow>
     (case r of Returned v \<Rightarrow> tame_here s s'
      | Enter_user en sp \<Rightarrow> (\<exists>n. free_pid ch k = Some n \<and> chains s' (ch(k := ch k @ [n])) \<and> on_cpu s' k n))"

lemma entered_after: "tame_here s t \<Longrightarrow> entered ch k t r s' \<Longrightarrow> entered ch k s r s'"
  by (auto simp: entered_def split: exec_result.splits intro: tame_here_trans)

lemma entered_none: "entered ch k s (Returned v) s"
  by (simp add: entered_def)

lemma process_array_copies:
  "process_array (set_vmem m s) = process_array s" "pcbs (set_vmem m s) = pcbs s" "terminals (set_vmem m s) = terminals s"
  "current_id (set_vmem m s) = current_id s" "user_frame (set_vmem m s) = user_frame s"
  by (simp_all add: set_vmem_def user_frame_def)

lemma load_new_process:
  assumes ch: "chains s ch" and k: "shown s k"
    and l: "(do { np \<leftarrow> new_process junk s;
      (case np of Inl s \<Rightarrow> Some (s, Returned (-1))
       | Inr (s, p) \<Rightarrow>
           do { let s = map_to_user_phy (ucast p) MAP_1 MAP_2 s;
                let s = set_vmem (fst (read_data s (vmem s) node 0 read_buf (file_size s (vmem s) node))) s;
                s \<leftarrow> start_process p a z esp ebp s;
                Some (s, Enter_user entry_point asm_hex) }) }) = Some (s', r)"
  shows "entered ch k s r s'"
proof (cases "free_pid ch k")
  case None
  then have "s' = fold putc (ascii ''Maximum Processes'' @ [0x0A]) s" "r = Returned (-1)"
    using l new_process_number [OF ch k, of junk] by simp_all
  then show ?thesis by (simp only: entered_def exec_result.case) (rule here_tame [OF here_fold_putc])
next
  case (Some n)
  have k3: "k < 3" using k by (simp add: shown_def)
  define t where "t = map_to_user_phy (of_nat n) MAP_1 MAP_2 (s\<lparr>process_array := (process_array s)[n := 1]\<rparr>)"
  define u where "u = set_vmem (fst (read_data t (vmem t) node 0 read_buf (file_size t (vmem t) node))) t"
  have np: "new_process junk s = Some (Inr (s\<lparr>process_array := (process_array s)[n := 1]\<rparr>, of_nat n))"
    using new_process_number [OF ch k, of junk] Some by simp
  have st: "start_process (of_nat n) a z esp ebp u = Some s'" "r = Enter_user entry_point asm_hex"
    using l unfolding np bind.bind_lunit sum.case prod.case Let_def ucast_pid [OF free_pid_fresh(1) [OF ch k3 Some]] t_def [symmetric] u_def [symmetric]
    by (cases "start_process (of_nat n) a z esp ebp u"; simp)+
  have "terminals u = terminals s" "pcbs u = pcbs s" "process_array u = (process_array s)[n := 1]" "current_id u = current_id s"
    "user_frame u = frame_of (of_nat n)"
    unfolding u_def process_array_copies by (simp_all add: t_def frame_simps user_frame_load)
  from start_chains [OF ch k Some this st(1)] show ?thesis using Some by (simp add: entered_def st(2))
qed

lemma shown_tame: "tame_here s t \<Longrightarrow> shown t k = shown s k"
  by (rule shown_cong) (simp add: tame_here_def)

lemma load_entered:
  assumes "chains s ch" "shown s k" "load_program e node a z s = Some (s', r)"
  shows "entered ch k s r s'"
proof -
  define s1 where "s1 = set_vmem (fst (read_data s (vmem s) node 0 (e_bufp e) 4)) s"
  define s2 where "s2 = set_vmem (fst (read_data s1 (vmem s1) node 24 (e_bufp e) 4)) s1"
  have k1: "tame_here s s1" unfolding s1_def by (rule tame_set_vmem)
  have k2: "tame_here s s2" unfolding s2_def by (rule tame_here_trans [OF k1 tame_set_vmem])
  have c2: "chains s2 ch" using tame_chains [OF assms(1)] k2 by (simp add: tame_here_def)
  have sh2: "shown s2 k" using assms(2) shown_tame [OF k2] by simp
  note load = load_new_process [OF c2 sh2, of "e_junk e" node a z "e_esp e" "e_ebp e" _ s' r]
  show ?thesis
    using assms(3) entered_after [OF k2 load] k1
    unfolding load_program_def Let_def case_prod_unfold s1_def [symmetric] s2_def [symmetric]
    by (auto simp: entered_def simp del: bind_eq_Some_conv split: if_splits)
qed

lemma execute_entered:
  assumes "chains s ch" "shown s k" "execute e c s = Some (s', r)"
  shows "entered ch k s r s'"
proof (cases c)
  case None
  then show ?thesis using assms(3) here_tame [OF here_console(11)] by (auto simp: execute_def entered_def)
next
  case (Some w)
  from assms(3) obtain nm a z t where t: "parse_command (e_arg e) w = Some (nm, a, z)" "start_fish nm (cli s) = Some t"
    unfolding execute_def Some by (cases "parse_command (e_arg e) w"; auto simp: bind_eq_Some_conv Let_def)
  have k: "tame_here s t" by (rule tame_here_trans [OF here_tame [OF here_console(11)] tame_fish [OF t(2)]])
  have c: "chains t ch" using tame_chains [OF assms(1)] k by (simp add: tame_here_def)
  have sh: "shown t k" using assms(2) shown_tame [OF k] by simp
  have "entered ch k t r s'"
    using assms(3) unfolding execute_def Some Let_def option.case t bind.bind_lunit prod.case
    by (auto split: option.splits prod.splits if_splits intro: load_entered [OF c sh] entered_none)
  then show ?thesis by (rule entered_after [OF k])
qed

lemma steady_execute:
  assumes "steady s ch" "execute e c s = Some (s', r)"
  shows "\<exists>ch. steady s' ch"
proof -
  obtain k where k: "shown s k" "opened_term s k" using assms(1) by (auto simp: steady_def)
  have ch: "chains s ch" using assms(1) by (simp add: steady_def)
  note e = execute_entered [OF ch k(1) assms(2)]
  show ?thesis
  proof (cases r)
    case (Returned v)
    then show ?thesis using e steady_call [OF assms(1)] by (auto simp: entered_def)
  next
    case (Enter_user en sp)
    then obtain n where "chains s' (ch(k := ch k @ [n]))" "on_cpu s' k (last (ch k @ [n]))"
      using e by (auto simp: entered_def)
    then show ?thesis using steady_moved [OF assms(1) kept_execute [OF assms(2)] _ _ k(2)] by blast
  qed
qed

text \<open>The general form of the two: the chains may change on one terminal, and it may be opened.\<close>

lemma steady_intro:
  assumes "steady s ch" "chains s' (ch(k := c))" "c \<noteq> []" "k < 3" "on_cpu s' k (last c)"
    and "\<And>j. j < 3 \<Longrightarrow> opened_term s' j \<longleftrightarrow> opened_term s j \<or> j = k"
    and "shown s' i" "opened_term s' i" and "next_terminal s' = next_terminal s"
  shows "steady s' (ch(k := c))"
proof -
  have o: "opened_term s' j" if "opened_term s j" for j using that assms(6) [of j] by (simp add: opened_term_def)
  obtain n where n: "next_terminal s = of_nat n" "opened_term s n" using assms(1) by (auto simp: steady_def)
  have "opened_term s' j \<longleftrightarrow> (ch(k := c)) j \<noteq> []" if "j < 3" for j
    using assms(1,3) assms(6) [OF that] that by (auto simp: steady_def)
  moreover have "\<exists>k'. opened_term s' k' \<and> on_cpu s' k' (last ((ch(k := c)) k'))"
    using assms(4,5) assms(6) [OF assms(4)] by (intro exI [of _ k]) simp
  moreover have "opened_term s' 0" using o assms(1) by (simp add: steady_def)
  ultimately show ?thesis using assms(2,7,8,9) n o unfolding steady_def by metis
qed

text \<open>The running process and its parent.\<close>

definition has_parent :: "'a kernel_scheme \<Rightarrow> bool" where
  "has_parent s \<longleftrightarrow> (\<exists>p. running_pcb s = Some p \<and> parent_pid (pcbs s p) \<noteq> -1)"

lemma steady_running:
  assumes "steady s ch"
  obtains k n where "k < 3" "opened_term s k" "curr_terminal s = of_nat k" "ch k \<noteq> []" "last (ch k) = n" "on_cpu s k n" "n < 6"
    "running_pcb s = Some (pcb_ptr (of_nat n))" "\<not> has_parent s \<Longrightarrow> ch k = [k]" "has_parent s \<Longrightarrow> \<exists>c p. ch k = c @ [p, n]"
proof -
  obtain k where k: "opened_term s k" "on_cpu s k (last (ch k))" using assms by (auto simp: steady_def)
  have k3: "k < 3" "ch k \<noteq> []" "chains s ch" using assms k(1) by (auto simp: steady_def opened_term_def)
  have ct: "curr_terminal s = of_nat k" using k(2) by (simp add: on_cpu_def)
  define n where "n = last (ch k)"
  note c = steady_chain [OF assms k(1), folded n_def]
  have r: "running_pcb s = Some (pcb_ptr (of_nat n))" using running_ix [OF k3(1) ct c(4)] c(2) by (simp add: running_pcb_def)
  have o: "hd (ch k) = k" "parent_pid (pcb_of s k) = -1" "successively (parent_link s) (ch k)"
    using k3 by (simp_all add: chains_def chain_of_def)
  have sn: "ch k = butlast (ch k) @ [n]" unfolding n_def using k3(2) by simp
  have hp: "has_parent s \<longleftrightarrow> parent_pid (pcb_of s n) \<noteq> -1" by (simp add: has_parent_def r)
  have par: "\<exists>c p. ch k = c @ [p, n] \<and> parent_pid (pcb_of s n) = of_nat p \<and> p < 6" if "butlast (ch k) \<noteq> []"
  proof -
    define c p where "c = butlast (butlast (ch k))" and "p = last (butlast (ch k))"
    have "ch k = (c @ [p]) @ [n]" unfolding c_def p_def append_butlast_last_id [OF that] by (rule sn)
    then have e: "ch k = c @ [p, n]" by simp
    have "parent_pid (pcb_of s n) = of_nat p" using o(3) unfolding e by (simp add: successively_append_iff parent_link_def)
    moreover have "p < 6" using chain_members(1) [OF k3(3,1), of p] e by simp
    ultimately show ?thesis using e by blast
  qed
  have one: "ch k = [k]" if "butlast (ch k) = []"
  proof -
    have "ch k = [n]" using sn that by simp
    then show ?thesis using o(1) by simp
  qed
  have root: "\<not> has_parent s" if "butlast (ch k) = []" using one [OF that] o(2) n_def by (simp add: hp)
  have "ch k = [k]" if "\<not> has_parent s"
  proof (rule one, rule ccontr)
    assume "butlast (ch k) \<noteq> []"
    then obtain p where "parent_pid (pcb_of s n) = of_nat p" "p < 6" using par by blast
    then show False using that unfolding hp less_6_iff by auto
  qed
  moreover have "\<exists>c p. ch k = c @ [p, n]" if "has_parent s" using par root that by blast
  ultimately show thesis
    using that [of k n] k3 k c(3) ct r unfolding n_def [symmetric] by blast
qed

lemma kept_halted: "kept s (halted k n s)"
proof -
  have "t_open (terminals (halted k n s) ! j) = t_open (terminals s ! j)" for j
    by (cases "j = k"; cases "k < length (terminals s)") (simp_all add: halted_def list_update_beyond)
  then show ?thesis by (simp add: kept_def) (simp add: halted_def)
qed

lemma entered_some:
  "(case r of Returned v \<Rightarrow> None | Enter_user x y \<Rightarrow> Some (x, y)) = Some (en, sp) \<longleftrightarrow> r = Enter_user en sp"
  by (cases r) auto

text \<open>The end of a process with a parent, and of a shell in front without one.\<close>

definition parent_mapped :: "u32 \<Rightarrow> 'a kernel_scheme \<Rightarrow> 'a kernel_scheme" where
  "parent_mapped q s = (map_to_user_phy q MAP_1 MAP_2 s)\<lparr>tss_ss0 := KERNEL_DS, tss_esp0 := mb8 - (q + 1) * kb8\<rparr>"

lemma halt_child_state:
  assumes "steady s ch" "has_parent s" "halt e status s = Some (s', r)"
  obtains k n c p j q x where "k < 3" "opened_term s k" "curr_terminal s = of_nat k" "ch k = c @ [p, n]"
    "s' = upd_term j (\<lambda>t. t\<lparr>cur_pcb := x, current_pid := parent_pid (pcb_of s n)\<rparr>) (parent_mapped q (halted k n s))"
proof -
  obtain k n c p where k: "k < 3" "opened_term s k" "curr_terminal s = of_nat k" "ch k = c @ [p, n]"
    using steady_running [OF assms(1)] assms(2) by metis
  have ch: "chains s ch" using assms(1) by (simp add: steady_def)
  have cn: "ch k = (c @ [p]) @ [n]" using k(4) by simp
  have np: "parent_pid (pcb_of s n) \<noteq> -1"
  proof -
    have "chain_of s k (ch k)" using ch k(1) by (simp add: chains_def)
    moreover have "p < 6" using chain_members(1) [OF ch k(1), of p] k(4) by simp
    ultimately have "parent_pid (pcb_of s n) = of_nat p" "p < 6"
      unfolding k(4) chain_of_def by (simp_all add: successively_append_iff parent_link_def)
    then show ?thesis unfolding less_6_iff by auto
  qed
  define t where "t = halted k n s"
  note h = assms(3) [unfolded halt_state [OF ch k(1,3) cn] t_def [symmetric] Let_def]
  obtain b where b: "pcb_at t (current_pcb t) = Some b"
    using h by (cases "pcb_at t (current_pcb t)") (simp_all add: np)
  obtain j where j: "term_ix (parent_mapped (parent_pid b) t) (uint (curr_terminal (parent_mapped (parent_pid b) t))) = Some j"
    using h by (cases "term_ix (parent_mapped (parent_pid b) t) (uint (curr_terminal (parent_mapped (parent_pid b) t)))")
      (simp_all add: np b parent_mapped_def)
  have "s' = upd_term j (\<lambda>t. t\<lparr>cur_pcb := mb8 - (parent_pid (pcb_of s n) + 1) * kb8, current_pid := parent_pid (pcb_of s n)\<rparr>)
      (parent_mapped (parent_pid b) t)"
    using h j by (simp add: np b parent_mapped_def)
  then show thesis using that [OF k] by (simp add: t_def)
qed

lemma kept_parent_mapped: "kept s (parent_mapped q s)"
proof -
  have "kept (map_to_user_phy q MAP_1 MAP_2 s) (parent_mapped q s)" by (rule kept_same) (simp_all add: parent_mapped_def)
  then show ?thesis by (rule kept_trans [OF kept_map])
qed

lemma steady_halt:
  assumes "steady s ch" "has_parent s" "halt e status s = Some (s', r)"
  shows "\<exists>ch. steady s' ch"
proof -
  obtain k n c p j q x where k: "k < 3" "opened_term s k" "curr_terminal s = of_nat k" "ch k = c @ [p, n]"
    and s': "s' = upd_term j (\<lambda>t. t\<lparr>cur_pcb := x, current_pid := parent_pid (pcb_of s n)\<rparr>) (parent_mapped q (halted k n s))"
    by (rule halt_child_state [OF assms]) blast
  have ch: "chains s ch" using assms(1) by (simp add: steady_def)
  have c: "chains s' (ch(k := c @ [p]))" "user_frame s' = frame_of (of_nat p)" "tss_esp0 s' = pcb_ptr (of_nat p)" "curr_terminal s' = of_nat k"
    using halt_pops [OF ch k(1,3,4), of e status] assms(3) by auto
  have "kept s s'"
    unfolding s' by (rule kept_trans [OF kept_halted kept_trans [OF kept_parent_mapped kept_upd]]) simp
  then show ?thesis
    using steady_moved [OF assms(1) _ c(1)] k(2) c(2-4) by (auto simp: on_cpu_def)
qed

lemma kept_halt_root:
  assumes "steady s ch" "\<not> has_parent s" "halt e status s = Some (s', Fresh_shell en sp)"
  obtains k t where "k < 3" "opened_term s k" "curr_terminal s = of_nat k" "ch k = [k]" "kept s t" "chains t (ch(k := []))"
    "current_id t = current_id s" "execute e (Some shell_cmd) t = Some (s', Enter_user en sp)"
    "t = upd_term k (\<lambda>t. t\<lparr>first_process := 0\<rparr>) (halted k k s)"
proof -
  obtain k where k: "k < 3" "opened_term s k" "curr_terminal s = of_nat k" "ch k = [k]"
    using steady_running [OF assms(1)] assms(2) by metis
  have ch: "chains s ch" using assms(1) by (simp add: steady_def)
  have cn: "ch k = [] @ [k]" using k(4) by simp
  have root: "parent_pid (pcb_of s k) = -1" using ch k(1,4) by (auto simp: chains_def chain_of_def)
  define t where "t = upd_term k (\<lambda>t. t\<lparr>first_process := 0\<rparr>) (halted k k s)"
  have "kept s t" unfolding t_def by (rule kept_trans [OF kept_halted kept_upd]) simp
  moreover have "execute e (Some shell_cmd) t = Some (s', Enter_user en sp)"
    using assms(3) unfolding halt_state [OF ch k(1,3) cn] t_def [symmetric] Let_def
    by (auto simp: root bind_eq_Some_conv entered_some split: option.split_asm)
  moreover have "current_id t = current_id s" by (simp add: t_def upd_term_def halted_frame)
  ultimately show thesis
    using that [OF k] halted_chains [OF ch k(1,4), folded t_def] t_def by blast
qed

lemma steady_halt_root:
  assumes "steady s ch" "\<not> has_parent s" "curr_terminal s = of_nat j" "shown s j" "halt e status s = Some (s', Fresh_shell en sp)"
  shows "\<exists>ch. steady s' ch"
proof -
  obtain k t where k: "k < 3" "opened_term s k" "curr_terminal s = of_nat k" "ch k = [k]" "kept s t" "chains t (ch(k := []))"
    "current_id t = current_id s" "execute e (Some shell_cmd) t = Some (s', Enter_user en sp)"
    using kept_halt_root [OF assms(1,2,5)] by blast
  have "j = k" using of_nat_u8_inj [of j k] k(1,3) assms(3,4) by (simp add: shown_def)
  then have sh: "shown t k" using assms(4) k(7) by (simp add: shown_def)
  obtain n where n: "free_pid (ch(k := [])) k = Some n" "chains s' (ch(k := [n]))" "on_cpu s' k n"
    using execute_entered [OF k(6) sh k(8)] by (auto simp: entered_def)
  have kept: "kept s s'" by (rule kept_trans [OF k(5) kept_execute [OF k(8)]])
  have "[n] \<noteq> []" "on_cpu s' k (last [n])" using n(3) by simp_all
  then show ?thesis using steady_moved [OF assms(1) kept n(2) _ k(2)] by blast
qed

end
