(* ===== verification/Kernel_Steps.thy ===== *)
theory Kernel_Steps
  imports Start_Stop
begin

text \<open>
  The kernel as a transition system: the interrupts, the writes of a program and the ten system
  calls as one step relation, and the invariant \<open>steady\<close> of every reachable state.
\<close>

subsection \<open>The keyboard\<close>

text \<open>A key that stays on the terminal or brings an open one to the front.\<close>

definition fronts :: "'a console_scheme \<Rightarrow> 'a console_scheme \<Rightarrow> bool" where
  "fronts s s' \<longleftrightarrow> calm s s' \<and> (current_id s' = current_id s \<or> (\<exists>n. current_id s' = int n + 1 \<and> opened_term s n))"

lemma here_fronts: "here s s' \<Longrightarrow> fronts s s'"
  by (simp add: fronts_def here_def)

lemma calm_opened: "calm s s' \<Longrightarrow> opened_term s' k = opened_term s k"
  by (simp add: calm_def opened_term_def calm_term_def)

lemma fronts_after: "here s t \<Longrightarrow> fronts t s' \<Longrightarrow> fronts s s'"
  by (auto simp: fronts_def here_def calm_opened intro: calm_trans)

lemma fronts_switch_1: "switch_to_terminal_1 junk s = Some s' \<Longrightarrow> opened_term s 0 \<Longrightarrow> fronts s s'"
proof -
  assume a: "switch_to_terminal_1 junk s = Some s'" "opened_term s 0"
  show ?thesis
  proof (cases "current_id s = 1")
    case True
    then show ?thesis
      using a here_already [of 1 junk "\<lambda>_. 0" s s'] by (auto simp: switch_to_terminal_1_def bind_eq_Some_conv intro: here_fronts)
  next
    case False
    then obtain t where t: "save_terminal s = Some t" "restore_terminal_1 t = Some s'"
      using a by (auto simp: switch_to_terminal_1_def bind_eq_Some_conv)
    have "fronts t s'"
      using calm_restore(2) [OF t(2)] a(2) calm_opened [of s t 0] here_save [OF t(1)]
      by (auto simp: fronts_def here_def intro: exI [of _ 0])
    then show ?thesis by (rule fronts_after [OF here_save [OF t(1)]])
  qed
qed

lemma fronts_switch_later:
  assumes "switch_later e (int n + 1) s = Some (s', r)" "opened_term s n" "n = 1 \<or> n = 2"
  shows "fronts s s' \<and> r = None"
proof (cases "current_id s = int n + 1")
  case True
  have n: "nat (int n + 1) = 2 \<or> nat (int n + 1) = 3" using assms(3) by auto
  show ?thesis
    using True assms(1) here_already [of "nat (int n + 1)" "e_junk e" "\<lambda>_. 0" s s'] n
    by (auto simp: switch_later_def bind_eq_Some_conv intro: here_fronts)
next
  case False
  then obtain t where t: "save_terminal s = Some t"
    using assms(1) by (auto simp: switch_later_def bind_eq_Some_conv)
  have o: "opened_term t n" using assms(2) calm_opened here_save [OF t] by (auto simp: here_def)
  obtain k where ix: "term_ix t (int n) = Some k" "k = n"
    using assms(1) False t by (auto simp: switch_later_def bind_eq_Some_conv term_ix_def split: if_splits)
  have "restore_terminal (int n + 1) t = Some s' \<and> r = None"
    using assms(1) False o by (auto simp: switch_later_def t ix bind_eq_Some_conv opened_term_def)
  then have "fronts t s' \<and> r = None" using calm_restore(1) [of "int n + 1" t s'] o by (auto simp: fronts_def)
  then show ?thesis using fronts_after [OF here_save [OF t]] by blast
qed

text \<open>The keys that open a terminal.\<close>

definition opens_terminal :: "u8 \<Rightarrow> 'a console_scheme \<Rightarrow> bool" where
  "opens_terminal c s \<longleftrightarrow> alt_flags s = 1 \<and> (c = 0x3C \<and> \<not> opened_term s 1 \<or> c = 0x3D \<and> \<not> opened_term s 2)"

lemma print_keyboard_fronts:
  assumes "print_keyboard e c s = Some (s', r)" "\<not> opens_terminal c s" "opened_term s 0"
  shows "fronts s s'"
proof -
  define s2 where "s2 = released_keys c (send_eoi 1 s)"
  define s3 where "s3 = modifier_keys c s2"
  have h2: "here s s2" unfolding s2_def by (rule here_trans [OF here_console(13) here_console(15)])
  have h3: "here s s3" unfolding s3_def by (rule here_trans [OF h2 here_console(16)])
  have o: "opened_term s3 n = opened_term s n" for n using h3 calm_opened by (auto simp: here_def)
  have alt: "alt_flags s3 = alt_flags s" if "c = 0x3B \<or> c = 0x3C \<or> c = 0x3D"
    using that by (auto simp: s3_def s2_def modifier_keys_def released_keys_def send_eoi_def outb_def Let_def)
  have sw: "fronts s s'"
    if "copy_keyboard_buf (keyboardbuf s3) (buf_index s3) s3 = Some t" "fronts t s'" for t
    by (rule fronts_after [OF h3], rule fronts_after [OF here_copy(2) [OF that(1)] that(2)])
  have ot: "opened_term t n = opened_term s n"
    if "copy_keyboard_buf (keyboardbuf s3) (buf_index s3) s3 = Some t" for t n
    using o calm_opened here_copy(2) [OF that] by (auto simp: here_def)
  have pk: "print_keyboard e c s = (if c > 0x80 then Some (s2, None)
        else if c = 0x1C then do { s \<leftarrow> enter_key s3; Some (s, None) }
             else if alt_flags s3 = 1 \<and> c = 0x3C then
               do { s \<leftarrow> copy_keyboard_buf (keyboardbuf s3) (buf_index s3) s3; switch_to_terminal_2 e s }
             else if alt_flags s3 = 1 \<and> c = 0x3B then
               do { s \<leftarrow> copy_keyboard_buf (keyboardbuf s3) (buf_index s3) s3;
                    s \<leftarrow> switch_to_terminal_1 (e_junk e) s; Some (s, None) }
             else if alt_flags s3 = 1 \<and> c = 0x3D then
               do { s \<leftarrow> copy_keyboard_buf (keyboardbuf s3) (buf_index s3) s3; switch_to_terminal_3 e s }
             else if ctrl_flags s3 = 1 \<and> c = 0x26 then Some (clear_key s3, None)
             else do { s \<leftarrow> type_key c s3; Some (s, None) })"
    unfolding print_keyboard_def Let_def s2_def [symmetric] s3_def [symmetric] ..
  consider (up) "c > 0x80" | (enter) "\<not> c > 0x80" "c = 0x1C" | (t2) "c = 0x3C" "alt_flags s3 = 1"
    | (t1) "c = 0x3B" "alt_flags s3 = 1" | (t3) "c = 0x3D" "alt_flags s3 = 1"
    | (rest) "\<not> c > 0x80" "c \<noteq> 0x1C" "\<not> (alt_flags s3 = 1 \<and> (c = 0x3B \<or> c = 0x3C \<or> c = 0x3D))"
    by blast
  then show ?thesis
  proof cases
    case up
    then show ?thesis using assms(1) h2 unfolding pk by (simp add: here_fronts)
  next
    case enter
    then show ?thesis
      using assms(1) unfolding pk by (auto simp: bind_eq_Some_conv intro: here_fronts here_trans [OF h3] here_enter)
  next
    case t2
    then obtain t where t: "copy_keyboard_buf (keyboardbuf s3) (buf_index s3) s3 = Some t" "switch_later e 2 t = Some (s', r)"
      using assms(1) unfolding pk by (auto simp: bind_eq_Some_conv switch_to_terminal_2_def)
    have "opened_term t 1" using ot [OF t(1)] assms(2) t2 alt by (simp add: opens_terminal_def)
    then show ?thesis using sw [OF t(1)] fronts_switch_later [of e 1 t s' r] t(2) by simp
  next
    case t3
    then obtain t where t: "copy_keyboard_buf (keyboardbuf s3) (buf_index s3) s3 = Some t" "switch_later e 3 t = Some (s', r)"
      using assms(1) unfolding pk by (auto simp: bind_eq_Some_conv switch_to_terminal_3_def)
    have "opened_term t 2" using ot [OF t(1)] assms(2) t3 alt by (simp add: opens_terminal_def)
    then show ?thesis using sw [OF t(1)] fronts_switch_later [of e 2 t s' r] t(2) by simp
  next
    case t1
    then obtain t where t: "copy_keyboard_buf (keyboardbuf s3) (buf_index s3) s3 = Some t"
      "switch_to_terminal_1 (e_junk e) t = Some s'"
      using assms(1) unfolding pk by (auto simp: bind_eq_Some_conv)
    then show ?thesis using sw [OF t(1)] fronts_switch_1 [OF t(2)] ot [OF t(1)] assms(3) by simp
  next
    case rest
    then show ?thesis
      using assms(1) unfolding pk by (auto simp: bind_eq_Some_conv split: if_splits
          intro: here_fronts here_trans [OF h3] here_clear_key here_type_key)
  qed
qed

text \<open>A key that opens a terminal, when its shell is there.\<close>

lemma steady_opens:
  assumes "steady s ch" "switch_later e (int k + 1) s = Some (s', Some r)" "k = 1 \<or> k = 2"
  shows "\<exists>ch. steady s' ch"
proof -
  have k3: "k < 3" using assms(3) by auto
  have ne: "current_id s \<noteq> int k + 1" using assms(2) by (auto simp: switch_later_def bind_eq_Some_conv)
  then obtain t where t: "save_terminal s = Some t"
    using assms(2) by (auto simp: switch_later_def bind_eq_Some_conv)
  have st: "steady t ch" by (rule steady_here [OF assms(1) here_save [OF t]])
  have len: "length (terminals t) = 3" using st by (simp add: steady_def chains_def blocks_ok_def)
  have ix: "term_ix t (int k + 1 - 1) = Some k" using k3 len by (simp add: term_ix_def)
  have "t_open (terminals t ! k) = 0"
    using assms(2) ne unfolding switch_later_def t ix bind.bind_lunit by (auto simp: bind_eq_Some_conv split: if_splits)
  then have cl: "\<not> opened_term t k" by (simp add: opened_term_def)
  obtain u where u: "open_screen (int k + 1) k t = Some u" "\<exists>x. execute e (Some shell_cmd) u = Some (s', x) \<and> (\<exists>en sp. x = Enter_user en sp)"
    using assms(2) ne \<open>t_open (terminals t ! k) = 0\<close> unfolding switch_later_def t ix bind.bind_lunit
    by (cases r) (auto simp: bind_eq_Some_conv entered_some)
  define v where "v = upd_term k (\<lambda>t. t\<lparr>t_open := 1\<rparr>) t"
  have v: "calm v u" "current_id u = int k + 1" using open_screen_state [OF u(1)] by (simp_all add: v_def)
  have tv: "same_procs (terminals t ! j) (terminals v ! j)" for j
    by (cases "j = k"; cases "k < length (terminals t)") (simp_all add: v_def upd_term_def same_procs_def list_update_beyond)
  have fv: "length (terminals v) = 3" "pcbs v = pcbs t" "process_array v = process_array t" "next_terminal v = next_terminal t"
    using len by (simp_all add: v_def upd_term_def)
  have ov: "opened_term v j \<longleftrightarrow> opened_term t j \<or> j = k" if "j < 3" for j
    using that k3 len by (cases "j = k") (simp_all add: v_def upd_term_def opened_term_def)
  have cv: "chains v ch"
    by (rule chains_cong [of t]) (use st tv fv len in \<open>simp_all add: steady_def\<close>)
  have cu: "chains u ch" by (rule tame_chains [OF cv calm_tame [OF v(1)]])
  have su: "shown u k" using v(2) k3 by (simp add: shown_def)
  obtain en sp where x: "execute e (Some shell_cmd) u = Some (s', Enter_user en sp)" using u(2) by blast
  have nil: "ch k = []" using cl st k3 by (auto simp: steady_def)
  then obtain n where n: "chains s' (ch(k := [n]))" "on_cpu s' k n"
    using execute_entered [OF cu su x] by (auto simp: entered_def)
  note ke = kept_execute [OF x]
  have os: "opened_term s' j \<longleftrightarrow> opened_term t j \<or> j = k" if "j < 3" for j
    unfolding kept_opened [OF ke] calm_opened [OF v(1)] by (rule ov [OF that])
  have nt: "next_terminal s' = next_terminal t" "shown s' k"
    using ke v fv(4) su by (simp_all add: kept_def calm_def shown_def)
  show ?thesis
    using steady_intro [OF st n(1) _ k3 _ os nt(2) _ nt(1)] n(2) os [OF k3] by auto
qed

text \<open>A key press that leaves the handler for a shell it has started.\<close>

lemma key_opens_terminal:
  assumes "print_keyboard e c s = Some (s', Some r)"
  obtains t k where "here s t" "switch_later e (int k + 1) t = Some (s', Some r)" "k = 1 \<or> k = 2"
proof -
  define s3 where "s3 = modifier_keys c (released_keys c (send_eoi 1 s))"
  have h3: "here s s3"
    unfolding s3_def by (rule here_trans [OF here_trans [OF here_console(13) here_console(15)] here_console(16)])
  have no: "(do { s \<leftarrow> x; Some (s, None) }) \<noteq> Some (s', Some r)" for x by (cases x) simp_all
  obtain t k where t: "copy_keyboard_buf (keyboardbuf s3) (buf_index s3) s3 = Some t"
    "switch_later e (int k + 1) t = Some (s', Some r)" "k = 1 \<or> k = 2"
  proof -
    have pk: "(if c > 0x80 then Some (released_keys c (send_eoi 1 s), None)
        else if c = 0x1C then do { s \<leftarrow> enter_key s3; Some (s, None) }
             else if alt_flags s3 = 1 \<and> c = 0x3C then
               do { s \<leftarrow> copy_keyboard_buf (keyboardbuf s3) (buf_index s3) s3; switch_later e 2 s }
             else if alt_flags s3 = 1 \<and> c = 0x3B then
               do { s \<leftarrow> copy_keyboard_buf (keyboardbuf s3) (buf_index s3) s3;
                    s \<leftarrow> switch_to_terminal_1 (e_junk e) s; Some (s, None) }
             else if alt_flags s3 = 1 \<and> c = 0x3D then
               do { s \<leftarrow> copy_keyboard_buf (keyboardbuf s3) (buf_index s3) s3; switch_later e 3 s }
             else if ctrl_flags s3 = 1 \<and> c = 0x26 then Some (clear_key s3, None)
             else do { s \<leftarrow> type_key c s3; Some (s, None) }) = Some (s', Some r)"
      using assms unfolding print_keyboard_def Let_def s3_def [symmetric] switch_to_terminal_2_def switch_to_terminal_3_def .
    have "alt_flags s3 = 1 \<and> c = 0x3C \<or> alt_flags s3 = 1 \<and> c = 0x3D"
    proof (rule ccontr)
      assume n: "\<not> ?thesis"
      have no2: "(do { s \<leftarrow> x; s \<leftarrow> f s; Some (s, None) }) \<noteq> Some (s', Some r)" for x and f :: "'a kernel_scheme \<Rightarrow> 'a kernel_scheme option"
        using no by (cases x) simp_all
      show False
        using pk no no2 n
        by (simp split: if_split_asm)
    qed
    then have "(do { s \<leftarrow> copy_keyboard_buf (keyboardbuf s3) (buf_index s3) s3; switch_later e 2 s }) = Some (s', Some r) \<or>
        (do { s \<leftarrow> copy_keyboard_buf (keyboardbuf s3) (buf_index s3) s3; switch_later e 3 s }) = Some (s', Some r)"
      using pk by auto
    then have "\<exists>t. copy_keyboard_buf (keyboardbuf s3) (buf_index s3) s3 = Some t \<and>
        (switch_later e 2 t = Some (s', Some r) \<or> switch_later e 3 t = Some (s', Some r))"
      by (cases "copy_keyboard_buf (keyboardbuf s3) (buf_index s3) s3") simp_all
    then show thesis using that [of _ 1] that [of _ 2] by auto
  qed
  show thesis using that [OF here_trans [OF h3 here_copy(2) [OF t(1)]] t(2,3)] .
qed

lemma steady_key_opens:
  assumes "steady s ch" "print_keyboard e c s = Some (s', Some r)"
  shows "\<exists>ch. steady s' ch"
  using key_opens_terminal [OF assms(2)] steady_opens steady_here [OF assms(1)] by metis

lemma steady_key:
  assumes "steady s ch" "print_keyboard e c s = Some (s', None)" "\<not> opens_terminal c s"
  shows "steady s' ch"
proof -
  have "fronts s s'" using print_keyboard_fronts [OF assms(2,3)] assms(1) by (simp add: steady_def)
  then have c: "calm s s'" and i: "current_id s' = current_id s \<or> (\<exists>n. current_id s' = int n + 1 \<and> opened_term s n)"
    by (simp_all add: fronts_def)
  from i show ?thesis
  proof
    assume "current_id s' = current_id s"
    with c show ?thesis by (intro steady_tame [OF assms(1) calm_tame])
  next
    assume "\<exists>n. current_id s' = int n + 1 \<and> opened_term s n"
    then obtain n where n: "current_id s' = int n + 1" "opened_term s n" by blast
    then have "shown s' n" by (simp add: shown_def opened_term_def)
    then show ?thesis using n(2) by (rule steady_front [OF assms(1) calm_tame [OF c]])
  qed
qed

subsection \<open>The steps of the kernel\<close>

text \<open>
  What can happen between two instructions of a program: an interrupt of the timer, the
  keyboard or the clock, an instruction that writes memory through the user window, and the
  ten system calls.  A call that would block (\<open>read\<close> of the terminal or the clock) steps when
  it is ready.  Three things are left out, each of which breaks the state: a key that opens a terminal whose
  shell cannot be started, a base shell that halts on a terminal in the background, and one
  that halts without being started again.
\<close>

inductive kernel_step :: "'a kernel_scheme \<Rightarrow> 'a kernel_scheme \<Rightarrow> bool" where
  tick: "pit_handler esp ebp s = Some (s', r) \<Longrightarrow> kernel_step s s'"
| clock: "kernel_step s (rtc_handle_interrupt s)"
| key: "print_keyboard e c s = Some (s', None) \<Longrightarrow> \<not> opens_terminal c s \<Longrightarrow> kernel_step s s'"
| new_terminal: "print_keyboard e c s = Some (s', Some r) \<Longrightarrow> kernel_step s s'"
| user_write: "(\<And>a. \<not> in_user_window a \<Longrightarrow> m a = vmem s a) \<Longrightarrow> kernel_step s (set_vmem m s)"
| run: "execute e c s = Some (s', r) \<Longrightarrow> kernel_step s s'"
| finish: "has_parent s \<Longrightarrow> halt e status s = Some (s', r) \<Longrightarrow> kernel_step s s'"
| restart: "\<not> has_parent s \<Longrightarrow> curr_terminal s = of_nat k \<Longrightarrow> shown s k \<Longrightarrow>
    halt e status s = Some (s', Fresh_shell en sp) \<Longrightarrow> kernel_step s s'"
| call_open: "sys_open junk nm s = Some (s', v) \<Longrightarrow> kernel_step s s'"
| call_close: "sys_close i s = Some (s', v) \<Longrightarrow> kernel_step s s'"
| call_read: "sys_read [] junk i buf n s = Some (s', v) \<Longrightarrow> kernel_step s s'"
| call_write: "sys_write prev i buf n s = Some (s', v) \<Longrightarrow> kernel_step s s'"
| call_getargs: "getargs buf n s = Some (s', v) \<Longrightarrow> kernel_step s s'"
| call_vidmap: "vidmap start s = (s', v) \<Longrightarrow> kernel_step s s'"

lemma here_clock: "here s (rtc_handle_interrupt s)"
  by (rule here_same; simp add: rtc_handle_interrupt_def Let_def cli_def sti_def outb_def send_eoi_def)

lemma steady_pit:
  assumes "steady s ch" "pit_handler esp ebp s = Some (s', r)"
  shows "steady s' ch"
proof -
  obtain k where k: "k < 3" "curr_terminal s = of_nat k" using steady_running [OF assms(1)] by metis
  show ?thesis using steady_tick [OF assms(1) k, of esp ebp] assms(2) by auto
qed

lemma kernel_step_steady: "steady s ch \<Longrightarrow> kernel_step s s' \<Longrightarrow> \<exists>ch'. steady s' ch'"
proof -
  assume st: "steady s ch"
  assume "kernel_step s s'"
  then show ?thesis
  proof (cases rule: kernel_step.cases)
    case (tick esp ebp r) then show ?thesis using steady_pit [OF st] by blast
  next
    case clock then show ?thesis using steady_here [OF st here_clock] by blast
  next
    case (key e c) then show ?thesis using steady_key [OF st] by blast
  next
    case (new_terminal e c r) then show ?thesis using steady_key_opens [OF st] by blast
  next
    case (user_write m) then show ?thesis using steady_call [OF st tame_set_vmem] by blast
  next
    case (run e c r) then show ?thesis using steady_execute [OF st] by blast
  next
    case (finish e status r) then show ?thesis using steady_halt [OF st] by blast
  next
    case (restart k e status en sp) then show ?thesis using steady_halt_root [OF st] by blast
  next
    case (call_open junk nm v) then show ?thesis using steady_call [OF st tame_open] by blast
  next
    case (call_close i v) then show ?thesis using steady_call [OF st tame_close] by blast
  next
    case (call_read junk i buf n v) then show ?thesis using steady_call [OF st tame_read] by blast
  next
    case (call_write prev i buf n v) then show ?thesis using steady_call [OF st tame_write] by blast
  next
    case (call_getargs buf n v) then show ?thesis using steady_call [OF st tame_getargs] by blast
  next
    case (call_vidmap start v)
    then show ?thesis using steady_call [OF st tame_vidmap [of s start]] by auto
  qed
qed

lemma steady_steps:
  assumes "kernel_step\<^sup>*\<^sup>* s s'" "steady s ch"
  shows "\<exists>ch'. steady s' ch'"
  using assms by (induction arbitrary: ch rule: rtranclp_induct) (blast intro: kernel_step_steady)+

subsection \<open>A program's own frame\<close>

lemma steady_user_write:
  assumes "steady s ch" "\<And>a. \<not> in_user_window a \<Longrightarrow> m a = vmem s a"
  shows "\<exists>k. opened_term s k \<and> curr_terminal s = of_nat k \<and>
    (\<forall>pa. \<not> in_frame (frame_of (of_nat (last (ch k)))) pa \<longrightarrow> phys (set_vmem m s) pa = phys s pa)"
proof -
  obtain k where k: "opened_term s k" "on_cpu s k (last (ch k))" using assms(1) by (auto simp: steady_def)
  have f: "user_frame s = frame_of (of_nat (last (ch k)))" "curr_terminal s = of_nat k" using k(2) by (simp_all add: on_cpu_def)
  have "phys (set_vmem m s) pa = phys s pa" if "\<not> in_frame (user_frame s) pa" for pa
    by (rule set_vmem_frame) (use that assms(2) in auto)
  then show ?thesis using k(1) f by (intro exI [of _ k]) simp
qed

lemma steady_tick_any:
  assumes "steady s ch"
  shows "\<exists>k s'. opened_term s k \<and> curr_terminal s = of_nat k \<and> pit_handler esp ebp s = Some (s',
      if target s k = k then (esp, ebp) else (current_esp (terminals s ! target s k), current_ebp (terminals s ! target s k))) \<and>
    opened_term s (target s k) \<and> on_cpu s' (target s k) (last (ch (target s k))) \<and> intr s'"
proof -
  obtain k where k: "k < 3" "opened_term s k" "curr_terminal s = of_nat k" using steady_running [OF assms] by metis
  obtain s' where s': "pit_handler esp ebp s = Some (s',
      if target s k = k then (esp, ebp) else (current_esp (terminals s ! target s k), current_ebp (terminals s ! target s k)))"
    "switched k (target s k) (last (ch (target s k))) esp ebp s s'" "intr s'"
    using steady_tick [OF assms k(1,3), of esp ebp] by blast
  moreover have "on_cpu s' (target s k) (last (ch (target s k)))" using s'(2) by (simp add: on_cpu_def switched_def)
  ultimately show ?thesis using k steady_target(1) [OF assms k(1)] by blast
qed

text \<open>The states of the witnesses: the two shells after a tick.\<close>

lemma kernel_two_tick:
  "\<exists>s'. pit_handler 0x7FDE00 0x7FDE40 kernel_two = Some (s', 0x7FBE00, 0x7FBE40) \<and> curr_terminal s' = 1"
proof -
  have c: "curr_terminal kernel_two = of_nat 0" by (simp add: kernel_two_def)
  have t: "target kernel_two 0 = 1"
    using target_next [of 0 kernel_two] by (simp add: kernel_two_opened)
  have r: "current_esp (terminals kernel_two ! 1) = 0x7FBE00" "current_ebp (terminals kernel_two ! 1) = 0x7FBE40"
    by (simp_all add: kernel_two_def)
  obtain s' where "pit_handler 0x7FDE00 0x7FDE40 kernel_two = Some (s', 0x7FBE00, 0x7FBE40)"
    "switched 0 1 (last (((\<lambda>_. [])(0 := [0], 1 := [1 :: nat])) 1)) 0x7FDE00 0x7FDE40 kernel_two s'"
    using steady_tick [OF kernel_two_steady _ c, of "0x7FDE00" "0x7FDE40", unfolded t r] by auto
  then show ?thesis by (auto simp: switched_def)
qed

lemma kernel_two_reaches: "\<exists>s'. kernel_step\<^sup>*\<^sup>* kernel_two s' \<and> curr_terminal s' = 1"
  using kernel_two_tick kernel_step.tick by blast

subsection \<open>Properties\<close>







end
