(* ===== verification/Typed_Descriptors.thy ===== *)
theory Typed_Descriptors
  imports Kernel_Steps
begin

text \<open>
  The types of the descriptors: an open one has the jump table of a kind of file.  Every step
  of the kernel keeps this, so a call never follows a null table.
\<close>

definition fd_typed :: "file_descriptor \<Rightarrow> bool" where
  "fd_typed d \<longleftrightarrow> flags d = 0 \<or> op_table d \<in> {Rtc_table, Dir_table, File_table, Stdin_table, Stdout_table}"

definition typed_block :: "pcb \<Rightarrow> bool" where
  "typed_block b \<longleftrightarrow> (\<forall>d \<in> set (fd b). fd_typed d)"

definition typed_fds :: "'a kernel_scheme \<Rightarrow> bool" where
  "typed_fds s \<longleftrightarrow> tables_ok s \<and> (\<forall>p. typed_block (pcbs s p))"

definition keeps_types :: "'a kernel_scheme \<Rightarrow> 'a kernel_scheme \<Rightarrow> bool" where
  "keeps_types s s' \<longleftrightarrow> op_tables s' = op_tables s \<and> (\<forall>p. typed_block (pcbs s p) \<longrightarrow> typed_block (pcbs s' p))"

lemma keeps_types_refl [simp]: "keeps_types s s" by (simp add: keeps_types_def)
lemma keeps_types_trans [trans]: "keeps_types s t \<Longrightarrow> keeps_types t u \<Longrightarrow> keeps_types s u" by (simp add: keeps_types_def)

lemma keeps_typed: "typed_fds s \<Longrightarrow> keeps_types s s' \<Longrightarrow> typed_fds s'"
proof -
  assume a: "typed_fds s" "keeps_types s s'"
  have "op_tables (init_operation_table s') = op_tables (init_operation_table s)"
    using a(2) by (simp add: keeps_types_def init_operation_table_def)
  then show ?thesis using a by (simp add: typed_fds_def keeps_types_def tables_ok_def)
qed

lemma types_same: "pcbs s' = pcbs s \<Longrightarrow> op_tables s' = op_tables s \<Longrightarrow> keeps_types s s'"
  by (simp add: keeps_types_def)

lemma types_calm: "calm s s' \<Longrightarrow> keeps_types s (s' :: 'a kernel_scheme)"
proof -
  assume "calm s s'"
  then have "pcbs s' = pcbs s \<and> op_tables s' = op_tables s" by (cases s, cases s') (simp add: calm_def)
  then show ?thesis by (simp add: types_same)
qed

lemma types_here: "here s s' \<Longrightarrow> keeps_types s (s' :: 'a kernel_scheme)"
  by (simp add: here_def types_calm)

lemma types_upd_pcb: "(\<And>b. typed_block b \<Longrightarrow> typed_block (f b)) \<Longrightarrow> keeps_types s (upd_pcb p f s)"
  by (simp add: keeps_types_def upd_pcb_def)

lemma types_upd_fd: "(\<And>d. fd_typed d \<Longrightarrow> fd_typed (f d)) \<Longrightarrow> keeps_types s (upd_fd p i f s)"
proof -
  assume f: "\<And>d. fd_typed d \<Longrightarrow> fd_typed (f d)"
  have "typed_block (b\<lparr>fd := (fd b)[i := f (fd b ! i)]\<rparr>)" if "typed_block b" for b
  proof (cases "i < length (fd b)")
    case True
    then have "fd_typed (f (fd b ! i))" using that f by (simp add: typed_block_def)
    then show ?thesis using that set_update_subset_insert [of "fd b" i "f (fd b ! i)"] by (auto simp: typed_block_def)
  qed (use that in \<open>simp add: list_update_beyond\<close>)
  then show ?thesis unfolding upd_fd_def by (rule types_upd_pcb)
qed

lemma types_terminals: "keeps_types s (upd_term k f s)"
  by (rule types_same) (simp_all add: upd_term_def)

subsection \<open>The calls\<close>

lemma types_open_loop: "open_loop k i p ty node s = Some (s', r) \<Longrightarrow> keeps_types s s'"
proof (induction k arbitrary: i)
  case (Suc k)
  have u: "keeps_types s (upd_fd p i f (upd_fd p i (\<lambda>d. d\<lparr>file_position := 0\<rparr>) s))" if "\<And>d. fd_typed d \<Longrightarrow> fd_typed (f d)" for f
    by (rule keeps_types_trans [OF types_upd_fd types_upd_fd [OF that]]) (simp add: fd_typed_def)
  show ?case
  proof (cases "fd_at s p i")
    case (Some d)
    then show ?thesis
      using Suc by (auto simp: Let_def fd_typed_def split: if_splits intro!: u)
  qed (use Suc.prems in simp)
qed simp

lemma types_open: "sys_open junk nm s = Some (s', r) \<Longrightarrow> keeps_types s s'"
  by (auto simp: sys_open_def bind_eq_Some_conv split: if_splits prod.splits option.splits intro: types_open_loop)

lemma types_close: "sys_close i s = Some (s', r) \<Longrightarrow> keeps_types s s'"
proof -
  have c: "call_close f t = Some (s', r) \<Longrightarrow> s' = t" for f t
    by (cases f) (auto simp: call_close_def rtc_close_def dir_close_def file_close_def terminal_close_def unvalid_operation_def)
  show "sys_close i s = Some (s', r) \<Longrightarrow> keeps_types s s'"
    by (auto simp: sys_close_def bind_eq_Some_conv Let_def fd_typed_def split: if_splits dest!: c intro!: types_upd_fd)
qed

lemma types_file_read: "file_read i buf n s = Some (s', r) \<Longrightarrow> keeps_types s s'"
proof -
  assume f: "file_read i buf n s = Some (s', r)"
  then obtain p d where p: "running_pcb s = Some p" "fd_at s p i = Some d" by (auto simp: file_read_def bind_eq_Some_conv)
  obtain m c where m: "read_data s (vmem s) (inode d) (file_position d) buf n = (m, c)" by (cases "read_data s (vmem s) (inode d) (file_position d) buf n")
  have u: "keeps_types s t \<Longrightarrow> keeps_types s (upd_fd p i (\<lambda>d. d\<lparr>file_position := g d\<rparr>) t)" for t :: "'a kernel_scheme" and g
    by (erule keeps_types_trans) (rule types_upd_fd, simp add: fd_typed_def)
  have v: "keeps_types s (set_vmem m s)" for m by (rule types_here [OF here_console(17)])
  show ?thesis
    using f unfolding file_read_def p bind.bind_lunit Let_def m prod.case
    by (auto simp: bind_eq_Some_conv split: if_splits intro!: u v)
qed

lemma types_read: "sys_read [] junk i buf n s = Some (s', r) \<Longrightarrow> keeps_types s s'"
proof -
  have rtc: "rtc_read [] s = Some (s', r) \<Longrightarrow> keeps_types s s'"
    by (auto simp: rtc_read_def Let_def)
  have "call_read f [] junk j buf n s = Some (s', r) \<Longrightarrow> keeps_types s s'" for f j
    using rtc types_here [OF here_dir_call [of junk buf s s' r]] by (cases f) (auto simp: call_read_def unvalid_operation_def intro: types_file_read types_here here_terminal_read)
  then show "sys_read [] junk i buf n s = Some (s', r) \<Longrightarrow> keeps_types s s'"
    by (auto simp: sys_read_def bind_eq_Some_conv split: if_splits)
qed

lemma types_vidmap: "keeps_types s (fst (vidmap start s))"
proof -
  have m: "keeps_types s (map_to_vid v p t)" "keeps_types s (tlb_flush t)" "keeps_types s (set_vmem w t)"
    if "keeps_types s t" for s t :: "'a kernel_scheme" and v p w
    using that by (simp_all add: keeps_types_def map_to_vid_def tlb_flush_def load_cr3_def Let_def set_vmem_def)
  show ?thesis by (auto simp: vidmap_def Let_def intro!: m)
qed

subsection \<open>Processes\<close>

lemma fresh_fds_set:
  assumes "d \<in> set (fresh_fds old)"
  shows "fd_typed d \<or> d \<in> set old"
proof -
  have f: "d \<in> set (fold (\<lambda>i fds. fds[i := (fds ! i)\<lparr>op_table := Op_null, inode := -1, file_position := 0, flags := 0\<rparr>]) is xs) \<Longrightarrow>
      fd_typed d \<or> d \<in> set xs" for "is" xs
  proof (induction "is" arbitrary: xs)
    case (Cons i "is")
    from Cons.IH [OF Cons.prems [simplified]] show ?case
    proof
      assume "d \<in> set (xs[i := (xs ! i)\<lparr>op_table := Op_null, inode := -1, file_position := 0, flags := 0\<rparr>])"
      then show ?thesis using set_update_subset_insert by (fastforce simp: fd_typed_def)
    qed simp
  qed simp
  have u: "d \<in> set (xs[i := y]) \<Longrightarrow> d = y \<or> d \<in> set xs" for xs i and y :: file_descriptor
    using set_update_subset_insert by fastforce
  show ?thesis using f [OF assms [unfolded fresh_fds_def Let_def]] by (auto dest!: u simp: fd_typed_def)
qed

lemma typed_fresh: "typed_block b \<Longrightarrow> typed_block (b\<lparr>old_esp := x, old_ebp := y, fd := fresh_fds (fd b)\<rparr>)"
  using fresh_fds_set by (fastforce simp: typed_block_def)

lemma types_start_process: "start_process p a w esp ebp s = Some s' \<Longrightarrow> keeps_types s s'"
proof -
  have f: "keeps_types s (t\<lparr>current_pcb := q\<rparr>)" "keeps_types s (t\<lparr>curr_terminal := c\<rparr>)" "keeps_types s (t\<lparr>tss_esp0 := q, tss_ss0 := v\<rparr>)"
    "keeps_types s (upd_term k g t)" if "keeps_types s t" for s t :: "'a kernel_scheme" and q c v k g
    using that types_terminals [of t k g] by (simp_all add: keeps_types_def)
  have p: "keeps_types s (upd_pcb q g t)" if "keeps_types s t" "\<And>b. typed_block b \<Longrightarrow> typed_block (g b)"
    for s t :: "'a kernel_scheme" and q g
    by (rule keeps_types_trans [OF that(1) types_upd_pcb [OF that(2)]])
  have b: "typed_block b \<Longrightarrow> typed_block (b\<lparr>pid := x, arg_size := y, pcb_arg := z\<rparr>)"
    "typed_block b \<Longrightarrow> typed_block (b\<lparr>parent_pid := x\<rparr>)" for b x y z
    by (simp_all add: typed_block_def)
  show "start_process p a w esp ebp s = Some s' \<Longrightarrow> keeps_types s s'"
    by (auto simp: start_process_def Let_def bind_eq_Some_conv intro!: f p b typed_fresh)
qed

lemma types_map: "keeps_types s (map_to_user_phy n v z s)"
  by (rule types_same) (simp_all add: map_to_user_phy_def Let_def tlb_flush_def load_cr3_def)

lemma types_slot: "keeps_types s (s\<lparr>process_array := a\<rparr>)"
  by (rule types_same) simp_all

interpretation types_exec: exec_steps keeps_types
  by unfold_locales (fact types_here keeps_types_trans types_slot types_map types_start_process)+

lemma types_halted: "keeps_types s (halted k n s)"
proof -
  have "typed_block (b\<lparr>fd := closed (fd b)\<rparr>)" for b by (auto simp: typed_block_def closed_def fd_typed_def)
  then show ?thesis by (simp add: keeps_types_def halted_def)
qed

lemma types_halt:
  assumes "steady s ch" "has_parent s" "halt e status s = Some (s', r)"
  shows "keeps_types s s'"
proof -
  obtain k n c p j q x where k: "k < 3" "opened_term s k" "curr_terminal s = of_nat k" "ch k = c @ [p, n]"
    and s': "s' = upd_term j (\<lambda>t. t\<lparr>cur_pcb := x, current_pid := parent_pid (pcb_of s n)\<rparr>) (parent_mapped q (halted k n s))"
    by (rule halt_child_state [OF assms]) blast
  have "keeps_types (map_to_user_phy q MAP_1 MAP_2 t) (parent_mapped q t)" for t :: "'a kernel_scheme"
    by (rule types_same) (simp_all add: parent_mapped_def)
  then show ?thesis
    unfolding s' by (intro keeps_types_trans [OF types_halted keeps_types_trans [OF keeps_types_trans [OF types_map] types_terminals]])
qed

lemma types_halt_root:
  assumes "steady s ch" "\<not> has_parent s" "halt e status s = Some (s', Fresh_shell en sp)"
  shows "keeps_types s s'"
proof -
  obtain k t where x: "execute e (Some shell_cmd) t = Some (s', Enter_user en sp)"
    and t: "t = upd_term k (\<lambda>t. t\<lparr>first_process := 0\<rparr>) (halted k k s)"
    using kept_halt_root [OF assms] by metis
  have "keeps_types s t" unfolding t by (rule keeps_types_trans [OF types_halted types_terminals])
  then show ?thesis by (rule keeps_types_trans [OF _ types_exec.exec [OF x]])
qed

lemma types_new_terminal:
  assumes "print_keyboard e c s = Some (s', Some r)"
  shows "keeps_types s s'"
proof -
  obtain t n where t: "here s t" "switch_later e n t = Some (s', Some r)" by (rule key_opens_terminal [OF assms])
  have ne: "current_id t \<noteq> n" using t(2) by (auto simp: switch_later_def bind_eq_Some_conv)
  obtain u where u: "save_terminal t = Some u"
    using t(2) ne by (cases "save_terminal t") (simp_all add: switch_later_def)
  obtain k where k: "term_ix u (n - 1) = Some k"
    using t(2) ne u by (cases "term_ix u (n - 1)") (simp_all add: switch_later_def)
  obtain v w where v: "t_open (terminals u ! k) = 0" "open_screen n k u = Some v" "execute e (Some shell_cmd) v = Some (s', w)"
    using t(2) ne unfolding switch_later_def u k bind.bind_lunit by (auto simp: bind_eq_Some_conv split: if_splits)
  have "keeps_types u v"
    using keeps_types_trans [OF types_terminals types_calm] open_screen_state [OF v(2)] by blast
  then show ?thesis
    by (rule keeps_types_trans [OF keeps_types_trans [OF types_here [OF here_trans [OF t(1) here_save [OF u]]]] types_exec.exec [OF v(3)]])
qed

subsection \<open>Every step\<close>

lemma types_pit:
  assumes "steady s ch" "pit_handler esp ebp s = Some (s', r)"
  shows "keeps_types s s'"
proof -
  obtain k where k: "k < 3" "curr_terminal s = of_nat k" using steady_running [OF assms(1)] by metis
  show ?thesis using steady_tick [OF assms(1) k, of esp ebp] assms(2) by (auto simp: switched_def intro: types_same)
qed

lemma kernel_step_types:
  assumes "steady s ch" "kernel_step s s'"
  shows "keeps_types s s'"
  using assms(2)
proof (cases rule: kernel_step.cases)
  case (tick esp ebp r) then show ?thesis by (rule types_pit [OF assms(1)])
next
  case clock then show ?thesis using types_here [OF here_clock] by simp
next
  case (key e c)
  then show ?thesis
    using print_keyboard_fronts [OF key(1,2)] assms(1) by (auto simp: steady_def fronts_def intro: types_calm)
next
  case (new_terminal e c r) then show ?thesis by (rule types_new_terminal)
next
  case (user_write m) then show ?thesis using types_here [OF here_console(17)] by simp
next
  case (run e c r) then show ?thesis by (rule types_exec.exec)
next
  case (finish e status r) then show ?thesis using types_halt [OF assms(1)] by blast
next
  case (restart k e status en sp) then show ?thesis using types_halt_root [OF assms(1)] by blast
next
  case (call_open junk nm v) then show ?thesis by (rule types_open)
next
  case (call_close i v) then show ?thesis by (rule types_close)
next
  case (call_read junk i buf n v) then show ?thesis by (rule types_read)
next
  case (call_write prev i buf n v) then show ?thesis using types_here [OF here_write] by blast
next
  case (call_getargs buf n v) then show ?thesis using types_here [OF here_getargs] by blast
next
  case (call_vidmap start v) then show ?thesis using types_vidmap [of s start] by simp
qed

lemma typed_steps:
  assumes "kernel_step\<^sup>*\<^sup>* s s'" "steady s ch" "typed_fds s"
  shows "typed_fds s'"
  using assms(1)
proof (induction rule: rtranclp_induct)
  case base show ?case by (rule assms(3))
next
  case (step y z)
  obtain ch' where "steady y ch'" using steady_steps [OF step(1) assms(2)] by blast
  then show ?case using keeps_typed [OF step(3)] kernel_step_types step(2) by blast
qed


subsection \<open>Properties\<close>

lemma close_returns:
  assumes "steady s ch" "typed_fds s"
  shows "\<exists>s' v. sys_close i s = Some (s', v)"
proof (cases "i < 0 \<or> i > 7")
  case False
  obtain n where n: "n < 6" "running_pcb s = Some (pcb_ptr (of_nat n))" using steady_running [OF assms(1)] by metis
  have len: "length (fd (pcb_of s n)) = 8" using assms(1) n(1) by (simp add: steady_def chains_def blocks_ok_def)
  have i: "nat i < 8" using False by linarith
  define d where "d = fd (pcb_of s n) ! nat i"
  have d: "fd_at s (pcb_ptr (of_nat n)) (nat i) = Some d"
    using i len pcb_ptr_slots [OF n(1)] by (simp add: fd_at_def pcb_at_def d_def)
  have "d \<in> set (fd (pcb_of s n))" using i len by (simp add: d_def)
  then have t: "fd_typed d" "tables_ok s" using assms(2) by (auto simp: typed_fds_def typed_block_def)
  have o: "op_at (upd_fd p j f s) q = op_at s q" for p j f q by (simp add: op_at_def upd_fd_def upd_pcb_def)
  show ?thesis
    using False n(2) d t(1) tables_ok_at [OF t(2)]
    by (auto simp: sys_close_def Let_def fd_typed_def o call_close_def)
qed (simp add: sys_close_def)

lemma kernel_two_typed: "typed_fds (init_operation_table kernel_two)"
  by (auto simp: typed_fds_def tables_ok_def init_operation_table_def typed_block_def kernel_two_def pcb_bss_def fd_bss_def
      dest!: fresh_fds_set simp: fd_typed_def)



end
