(* ===== verification/Idt.thy ===== *)
theory Idt
  imports Console
begin

text \<open>
  The interrupt descriptor table and the exception handlers (\<open>idt.c\<close>, with the types and
  macros of \<open>x86_desc.h\<close>).  The addresses the linker gives the handlers are a parameter
  \<open>entry_of\<close>; the literals the handlers print lie in memory at \<open>lit\<close>.
\<close>

record idt_desc =
  offset_15_00 :: u16
  seg_selector :: u16
  reserved4 :: u8
  reserved3 :: "1 word"
  reserved2 :: "1 word"
  reserved1 :: "1 word"
  idt_size :: "1 word"
  reserved0 :: "1 word"
  idt_dpl :: "2 word"
  idt_present :: "1 word"
  offset_31_16 :: u16

abbreviation "KERNEL_CS \<equiv> (0x10 :: u16)"
abbreviation "NUM_VEC \<equiv> (256 :: nat)"
abbreviation "interrupt_32 \<equiv> (32 :: nat)"

datatype vector = Exception nat | General_interrupt | Keyboard_interrupt | Rtc_interrupt | Syscall_handler | Pit_interrupt

definition SET_IDT_ENTRY :: "nat \<Rightarrow> u32 \<Rightarrow> idt_desc list \<Rightarrow> idt_desc list" where
  "SET_IDT_ENTRY i h t = t[i := (t ! i)\<lparr>offset_31_16 := ucast (drop_bit 16 (h AND 0xFFFF0000)),
     offset_15_00 := ucast (h AND 0xFFFF)\<rparr>]"

definition gate :: "1 word \<Rightarrow> idt_desc \<Rightarrow> idt_desc" where
  "gate r3 d = d\<lparr>idt_present := 1, idt_dpl := 0, idt_size := 1, reserved0 := 0, reserved1 := 1, reserved2 := 1,
     reserved3 := r3, reserved4 := 0, seg_selector := KERNEL_CS\<rparr>"

definition exception_vectors :: "nat list" where
  "exception_vectors = [0, 1, 2, 3, 4, 5, 6, 7, 8, 9, 10, 11, 12, 13, 14, 16, 17, 18, 19]"

definition idt_init :: "(vector \<Rightarrow> u32) \<Rightarrow> idt_desc list \<Rightarrow> idt_desc list" where
  "idt_init entry_of idt =
    (let idt = fold (\<lambda>i t. t[i := gate 1 (t ! i)]) [0..<interrupt_32] idt;
         idt = fold (\<lambda>i t. SET_IDT_ENTRY i (entry_of General_interrupt) (t[i := gate 0 (t ! i)])) [interrupt_32..<NUM_VEC] idt;
         idt = fold (\<lambda>v. SET_IDT_ENTRY v (entry_of (Exception v))) exception_vectors idt;
         idt = SET_IDT_ENTRY 0x21 (entry_of Keyboard_interrupt) idt;
         idt = SET_IDT_ENTRY 0x28 (entry_of Rtc_interrupt) idt;
         idt = SET_IDT_ENTRY 0x80 (entry_of Syscall_handler) idt;
         idt = SET_IDT_ENTRY 0x20 (entry_of Pit_interrupt) idt
     in idt[0x80 := (idt ! 0x80)\<lparr>reserved3 := 0, idt_dpl := 3, idt_present := 1\<rparr>])"

subsection \<open>Handlers\<close>

definition test_exceptions :: "'a console_scheme \<Rightarrow> 'a console_scheme" where
  "test_exceptions s = s\<lparr>phys := fold (\<lambda>i m. m(VIDEO + of_nat i := 23)) [0..<2 * 25 * 80] (phys s)\<rparr>"

definition test_interrupts :: "'a console_scheme \<Rightarrow> 'a console_scheme" where
  "test_interrupts s = s\<lparr>phys := fold (\<lambda>i m. m(VIDEO + of_nat (2 * i) := m (VIDEO + of_nat (2 * i)) + 1)) [0..<25 * 80] (phys s)\<rparr>"

definition exception_names :: "(nat \<times> u8 list) list" where
  "exception_names =
    [(0, ascii ''Divide Error''), (1, ascii ''Debug exception''), (2, ascii ''Non-Maskable Interrupt''),
     (3, ascii ''Breakpoint''), (4, ascii ''Overflow''), (5, ascii ''Bound exception''),
     (6, ascii ''Invalid Opcode''), (7, ascii ''Device Not Available''), (8, ascii ''Double Fault''),
     (9, ascii ''Coprocessor Segment Overrun''), (10, ascii ''Invalid TSS''),
     (11, ascii ''Segment Not Present''), (12, 9 # ascii ''Stack Exception''),
     (13, ascii ''General Protection''), (14, ascii ''Page Fault''), (16, ascii ''Floating-point error''),
     (17, ascii ''Alignment Check''), (18, ascii ''Machine Check''),
     (19, ascii ''SIMD Floating-Point Exception'')]"

definition exception_msg :: "nat \<Rightarrow> u8 list" where
  "exception_msg v = (case map_of exception_names v of Some m \<Rightarrow> m | None \<Rightarrow> [])"

definition str_format :: cstr where
  "str_format = (\<lambda>i. if i = 0 then 0x25 else if i = 1 then 0x73 else 0)"

text \<open>
  The nineteen handlers differ in the literal they print.  \<open>exception_report\<close> is the handler up
  to its endless loop; the loop runs with interrupts off.
\<close>

definition exception_report :: "mem \<Rightarrow> (nat \<Rightarrow> u32) \<Rightarrow> nat \<Rightarrow> 'a console_scheme \<Rightarrow> 'a console_scheme option" where
  "exception_report junk lit v s =
    do { let s = cli s;
         let s = test_exceptions s;
         (s, n) \<leftarrow> printf junk str_format (\<lambda>_. lit v) s;
         Some s }"

definition EXCEPTION :: "('a console_scheme \<Rightarrow> 'a console_scheme option) list \<Rightarrow> mem \<Rightarrow> (nat \<Rightarrow> u32) \<Rightarrow> nat \<Rightarrow>
    'a console_scheme \<Rightarrow> 'a console_scheme option" where
  "EXCEPTION env junk lit v s =
    do { s \<leftarrow> exception_report junk lit v s;
         s \<leftarrow> spin_while (\<lambda>_. True) env s;
         Some (sti s) }"

definition undefined_msg :: cstr where
  "undefined_msg = (\<lambda>i. if unat i < 9 then ascii ''Undefined'' ! unat i else 0)"

definition general_interrupt :: "mem \<Rightarrow> 'a console_scheme \<Rightarrow> 'a console_scheme option" where
  "general_interrupt junk s =
    do { let s = cli s; (s, n) \<leftarrow> printf junk undefined_msg (\<lambda>_. 0) s; Some (sti s) }"


subsection \<open>The table\<close>

text \<open>A loop that writes each of some entries once.\<close>

lemma nth_fold_update:
  "distinct is \<Longrightarrow> fold (\<lambda>i t. t[i := f i (t ! i)]) is t ! v = (if v \<in> set is \<and> v < length t then f v (t ! v) else t ! v)"
proof (induction "is" arbitrary: t)
  case (Cons i "is")
  then show ?case by (cases "v = i"; cases "i < length t") (auto simp: nth_list_update list_update_beyond)
qed simp

lemma nth_fold_upt:
  "fold (\<lambda>i t. t[i := f i (t ! i)]) [a..<b] t ! v = (if a \<le> v \<and> v < b \<and> v < length t then f v (t ! v) else t ! v)"
  using nth_fold_update [OF distinct_upt, of f a b t v] by (simp only: set_upt atLeastLessThan_iff conj_assoc)

lemma length_fold_update: "length (fold (\<lambda>i t. t[i := f i (t ! i)]) is t) = length t"
  by (induction "is" arbitrary: t) simp_all

definition set_offset :: "u32 \<Rightarrow> idt_desc \<Rightarrow> idt_desc" where
  "set_offset h d = d\<lparr>offset_31_16 := ucast (drop_bit 16 (h AND 0xFFFF0000)), offset_15_00 := ucast (h AND 0xFFFF)\<rparr>"

lemma SET_IDT_ENTRY_offset: "SET_IDT_ENTRY i h t = t[i := set_offset h (t ! i)]"
  by (simp add: SET_IDT_ENTRY_def set_offset_def)

text \<open>The address the processor jumps to.\<close>

definition handler_of :: "idt_desc \<Rightarrow> u32" where
  "handler_of d = push_bit 16 (ucast (offset_31_16 d)) OR ucast (offset_15_00 d)"

lemma handler_set: "handler_of (set_offset h d) = h"
proof -
  have m: "0xFFFF = (mask 16 :: u32)" "0xFFFF0000 = (push_bit 16 (mask 16) :: u32)" by (simp_all add: mask_eq_exp_minus_1)
  show ?thesis unfolding handler_of_def set_offset_def m
    by (rule bit_word_eqI) (auto simp: bit_simps)
qed

text \<open>The handler of a vector; the reserved ones have none.\<close>

definition vector_of :: "nat \<Rightarrow> vector option" where
  "vector_of v =
    (if v = 0x21 then Some Keyboard_interrupt else if v = 0x28 then Some Rtc_interrupt
     else if v = 0x80 then Some Syscall_handler else if v = 0x20 then Some Pit_interrupt
     else if v \<in> set exception_vectors then Some (Exception v)
     else if 32 \<le> v then Some General_interrupt else None)"

lemma idt_init_nth:
  assumes "length idt = 256" "v < 256"
  defines "d \<equiv> (if v < 32 then gate 1 (idt ! v) else gate 0 (idt ! v))"
  shows "idt_init e idt ! v =
    (let d = (case vector_of v of None \<Rightarrow> d | Some h \<Rightarrow> set_offset (e h) d)
     in if v = 0x80 then d\<lparr>reserved3 := 0, idt_dpl := 3, idt_present := 1\<rparr> else d)"
proof -
  define t1 where "t1 = fold (\<lambda>i t. t[i := gate 1 (t ! i)]) [0..<interrupt_32] idt"
  define t2 where "t2 = fold (\<lambda>i t. t[i := set_offset (e General_interrupt) (gate 0 (t ! i))]) [interrupt_32..<NUM_VEC] t1"
  define t3 where "t3 = fold (\<lambda>v t. t[v := set_offset (e (Exception v)) (t ! v)]) exception_vectors t2"
  have len: "length t1 = 256" "length t2 = 256" "length t3 = 256"
    by (simp_all only: t1_def t2_def t3_def length_fold_update [of "\<lambda>i. gate 1"] length_fold_update [of "\<lambda>i. set_offset (e (Exception i))"]
        length_fold_update [of "\<lambda>i d. set_offset (e General_interrupt) (gate 0 d)"] assms(1))
  have n1: "t1 ! i = (if i < 32 then gate 1 (idt ! i) else idt ! i)" if "i < 256" for i
    unfolding t1_def using nth_fold_upt [of "\<lambda>i. gate 1" 0 interrupt_32 idt i] that assms(1) by simp
  have n2: "t2 ! i = (if i < 32 then gate 1 (idt ! i) else set_offset (e General_interrupt) (gate 0 (idt ! i)))" if "i < 256" for i
    unfolding t2_def nth_fold_upt [of "\<lambda>i d. set_offset (e General_interrupt) (gate 0 d)"] using that n1 [OF that] len(1) by simp
  have n3: "t3 ! i = (if i \<in> set exception_vectors then set_offset (e (Exception i)) (t2 ! i) else t2 ! i)" if "i < 256" for i
    unfolding t3_def using nth_fold_update [of exception_vectors "\<lambda>v. set_offset (e (Exception v))" t2 i] that len
    by (simp add: exception_vectors_def)
  have same: "SET_IDT_ENTRY i h (t[i := x]) = t[i := set_offset h x]" if "i < length t" for i h x and t :: "idt_desc list"
    using that by (simp add: SET_IDT_ENTRY_offset)
  have f2: "fold (\<lambda>i t. SET_IDT_ENTRY i h (t[i := gate 0 (t ! i)])) is t = fold (\<lambda>i t. t[i := set_offset h (gate 0 (t ! i))]) is t"
    if "\<forall>i \<in> set is. i < length t" for h "is" and t :: "idt_desc list"
    using that by (induction "is" arbitrary: t) (simp_all add: same)
  have t2: "fold (\<lambda>i t. SET_IDT_ENTRY i (e General_interrupt) (t[i := gate 0 (t ! i)])) [interrupt_32..<NUM_VEC] t1 = t2"
    unfolding t2_def by (rule f2) (simp add: len del: upt_rec_numeral)
  define t4 where "t4 = t3[0x21 := set_offset (e Keyboard_interrupt) (t3 ! 0x21)]"
  define t5 where "t5 = t4[0x28 := set_offset (e Rtc_interrupt) (t4 ! 0x28)]"
  define t6 where "t6 = t5[0x80 := set_offset (e Syscall_handler) (t5 ! 0x80)]"
  define t7 where "t7 = t6[0x20 := set_offset (e Pit_interrupt) (t6 ! 0x20)]"
  have init: "idt_init e idt = t7[0x80 := (t7 ! 0x80)\<lparr>reserved3 := 0, idt_dpl := 3, idt_present := 1\<rparr>]"
    unfolding idt_init_def t1_def [symmetric] Let_def t2 unfolding SET_IDT_ENTRY_offset t3_def [symmetric] t4_def [symmetric]
      t5_def [symmetric] t6_def [symmetric] t7_def [symmetric] ..
  have len7: "length t7 = 256" by (simp add: t7_def t6_def t5_def t4_def len)
  have n7: "t7 ! v = (if v = 0x20 then set_offset (e Pit_interrupt) (t3 ! v) else if v = 0x80 then set_offset (e Syscall_handler) (t3 ! v)
      else if v = 0x28 then set_offset (e Rtc_interrupt) (t3 ! v) else if v = 0x21 then set_offset (e Keyboard_interrupt) (t3 ! v) else t3 ! v)"
    using len(3) by (simp add: t7_def t6_def t5_def t4_def nth_list_update)
  have twice: "set_offset h (set_offset g x) = set_offset h x" for h g x by (simp add: set_offset_def)
  have ex: "set exception_vectors \<subseteq> {..<32}" by (auto simp: exception_vectors_def)
  have e3: "t3 ! v = (case vector_of v of None \<Rightarrow> d | Some (Exception i) \<Rightarrow> set_offset (e (Exception i)) d | _ \<Rightarrow> set_offset (e General_interrupt) d)"
    using ex assms(2) by (auto simp: n3 n2 vector_of_def d_def)
  have split: "idt_init e idt ! v = (if v = 0x80 then (t7 ! v)\<lparr>reserved3 := 0, idt_dpl := 3, idt_present := 1\<rparr> else t7 ! v)"
    unfolding init using len7 by (simp add: nth_list_update)
  show ?thesis
    unfolding split n7 e3 using ex by (auto simp: vector_of_def twice Let_def)
qed

subsection \<open>Exceptions\<close>

lemma str_format_holds: "holds_str str_format (concat (map encode [Str]))"
  by (auto simp: holds_str_def str_format_def less_Suc_eq)

lemma test_exceptions_keeps:
  "\<not> in_video a \<Longrightarrow> phys (test_exceptions s) a = phys s a" "screen_ok (test_exceptions s) = screen_ok s"
proof -
  have "fold (\<lambda>i m. m(VIDEO + of_nat i := x)) [0..<n] m a = m a" if "n \<le> 4000" "\<not> in_video a" for n x and m :: mem
    using that
  proof (induction n)
    case (Suc n)
    have "a \<noteq> VIDEO + of_nat n"
    proof
      assume "a = VIDEO + of_nat n"
      then have "unat (a - VIDEO) = n" using Suc.prems(1) by (simp add: unat_of_nat32)
      then show False using Suc.prems by (simp add: in_video_def)
    qed
    then show ?case using Suc by simp
  qed simp
  then show "\<not> in_video a \<Longrightarrow> phys (test_exceptions s) a = phys s a"
    by (simp add: test_exceptions_def del: upt_rec_numeral)
qed (simp add: test_exceptions_def screen_ok_def)

lemma report_prints:
  assumes "screen_ok s" "str_arg (\<lambda>_. exception_msg v) s (lit v)"
  shows "exception_report junk lit v s = Some (fold putc (exception_msg v) (test_exceptions (cli s)))"
proof -
  define t where "t = test_exceptions (cli s)"
  have t: "screen_ok t" using assms(1) by (simp add: t_def test_exceptions_keeps) (simp add: screen_ok_def cli_def)
  have "str_arg (\<lambda>_. exception_msg v) t (lit v)"
    using assms(2) by (auto simp: str_arg_def holds_str_def t_def test_exceptions_keeps(1)) (simp_all add: cli_def)
  then have "printf junk str_format (\<lambda>_. lit v) t = Some (fold putc (exception_msg v) t, 2)"
    using printf_renders [OF str_format_holds _ t, of "\<lambda>_. lit v" "\<lambda>_. exception_msg v" junk] by simp
  then show ?thesis unfolding exception_report_def Let_def t_def [symmetric] by simp
qed

lemma spin_forever: "spin_while (\<lambda>_. True) env s = None"
  by (induction env arbitrary: s) (simp_all add: bind_eq_None_conv)

subsection \<open>Properties\<close>

text \<open>C17: the interrupt descriptor table.  After \<open>idt_init\<close> every one of the 256 vectors is a present
  gate into the kernel's code; only vector 0x80, the system call, may be raised by user code;
  the exceptions, the timer, the keyboard, the clock and the system call have their handlers
  and the other vectors above 31 the general one.  The reserved vectors 15 and 20 to 31 are
  present, too, and keep the address they had.\<close>

theorem idt_gates:
  assumes "length idt = 256" and "v < 256"
  shows "idt_present (idt_init e idt ! v) = 1 \<and> seg_selector (idt_init e idt ! v) = KERNEL_CS \<and>
    (idt_dpl (idt_init e idt ! v) = 3 \<longleftrightarrow> v = 0x80) \<and>
    handler_of (idt_init e idt ! v) =
      (case vector_of v of Some h \<Rightarrow> e h | None \<Rightarrow> handler_of (idt ! v)) \<and>
    (vector_of v = None \<longleftrightarrow> v = 15 \<or> 20 \<le> v \<and> v < 32)"
proof -
  define d where "d = (if v < 32 then gate 1 (idt ! v) else gate 0 (idt ! v))"
  have n: "idt_init e idt ! v = (let d = (case vector_of v of None \<Rightarrow> d | Some h \<Rightarrow> set_offset (e h) d)
     in if v = 0x80 then d\<lparr>reserved3 := 0, idt_dpl := 3, idt_present := 1\<rparr> else d)"
    unfolding d_def by (rule idt_init_nth [OF assms])
  have d: "idt_present d = 1" "seg_selector d = KERNEL_CS" "idt_dpl d = 0" "handler_of d = handler_of (idt ! v)"
    by (simp_all add: d_def gate_def handler_of_def)
  have s: "idt_present (set_offset h d) = 1" "seg_selector (set_offset h d) = KERNEL_CS" "idt_dpl (set_offset h d) = 0" for h
    using d by (simp_all add: set_offset_def)
  have k: "handler_of (x\<lparr>reserved3 := a, idt_dpl := b, idt_present := c\<rparr>) = handler_of x" for x a b c by (simp add: handler_of_def)
  have none: "vector_of v = None \<longleftrightarrow> v = 15 \<or> 20 \<le> v \<and> v < 32"
    using assms(2) by (auto simp: vector_of_def exception_vectors_def) presburger
  show ?thesis unfolding n using d s none by (cases "vector_of v") (simp_all add: Let_def handler_set k)
qed

theorem idt_gates_witness:
  "idt_dpl (idt_init (\<lambda>_. 0x401000) (replicate 256 (idt_desc.make 0 0 0 0 0 0 0 0 0 0 0)) ! 0x80) = 3 \<and>
   idt_dpl (idt_init (\<lambda>_. 0x401000) (replicate 256 (idt_desc.make 0 0 0 0 0 0 0 0 0 0 0)) ! 0x21) \<noteq> 3"
  using idt_gates [of "replicate 256 (idt_desc.make 0 0 0 0 0 0 0 0 0 0 0)" "0x80" "\<lambda>_. 0x401000"]
    idt_gates [of "replicate 256 (idt_desc.make 0 0 0 0 0 0 0 0 0 0 0)" "0x21" "\<lambda>_. 0x401000"] by simp

text \<open>An exception prints its name on a screen filled with one attribute byte and stops the machine: the
  handler never returns, whatever happens after.\<close>

theorem exception_stops:
  assumes "screen_ok s" and "str_arg (\<lambda>_. exception_msg v) s (lit v)"
  shows "exception_report junk lit v s = Some (fold putc (exception_msg v) (test_exceptions (cli s))) \<and>
    EXCEPTION env junk lit v s = None"
  using report_prints [of s v lit junk] assms by (simp add: EXCEPTION_def spin_forever)

theorem exception_stops_witness:
  "EXCEPTION [] (\<lambda>_. 0) (\<lambda>_. 0x400000) 4 (console_bss\<lparr>phys :=
     (\<lambda>a. let i = unat (a - 0x400000) in if i < 8 then ascii ''Overflow'' ! i else 0)\<rparr>) = None"
proof -
  let ?s = "console_bss\<lparr>phys := (\<lambda>a. let i = unat (a - 0x400000) in if i < 8 then ascii ''Overflow'' ! i else 0)\<rparr>"
  have m: "exception_msg 4 = ascii ''Overflow''" by (simp add: exception_msg_def exception_names_def)
  have "screen_ok ?s" by (simp add: screen_ok_def)
  moreover have "str_arg (\<lambda>_. exception_msg 4) ?s ((\<lambda>_. 0x400000) (4 :: nat))"
    unfolding m by (auto simp: str_arg_def holds_str_def in_video_def ascii_def less_Suc_eq le_Suc_eq)
  ultimately show ?thesis by (intro exception_stops [THEN conjunct2])
qed

end
