(* ===== verification/Boot.thy ===== *)
theory Boot
  imports Scheduler Idt
begin

text \<open>
  The C entry point of the kernel (\<open>kernel.c\<close>): it loads the interrupt table, prints what the
  boot loader passed, builds the two segment descriptors, initialises the components in
  their order and executes the first shell.

  The boot loader's structure is memory at \<open>mbi\<close>; linker addresses and sizes, and what is
  read from uninitialised locals and ports, are the fields of \<open>boot_env\<close>.
\<close>

record seg_desc =
  seg_lim_15_00 :: u16
  base_15_00 :: u16
  base_23_16 :: u8
  seg_type :: "4 word"
  seg_sys :: "1 word"
  seg_dpl :: "2 word"
  seg_present :: "1 word"
  seg_lim_19_16 :: "4 word"
  seg_avail :: "1 word"
  seg_reserved :: "1 word"
  seg_opsize :: "1 word"
  granularity :: "1 word"
  base_31_24 :: u8

record boot = kernel +
  idt :: "idt_desc list"
  idt_loaded :: bool
  ldt_desc_ptr :: seg_desc
  tss_desc_ptr :: seg_desc
  ldtr :: u16
  task_reg :: u16
  ldt_segment_selector :: u16

record boot_env =
  b_exec :: exec_env
  b_entry :: "vector \<Rightarrow> u32"
  b_prev_b :: u8
  b_prev_a :: u8
  b_ldt :: u32
  b_ldt_size :: u32
  b_tss :: u32
  b_tss_size :: u32
  b_seg :: seg_desc

abbreviation "KERNEL_TSS \<equiv> (0x30 :: u16)"
abbreviation "KERNEL_LDT \<equiv> (0x38 :: u16)"
abbreviation "TSS_SIZE \<equiv> (104 :: u32)"

subsection \<open>Printing the boot information\<close>

definition va_args :: "u32 list \<Rightarrow> nat \<Rightarrow> u32" where
  "va_args xs n = (if n < length xs then xs ! n else 0)"

definition fmt :: "string \<Rightarrow> cstr" where "fmt f = array_str (ascii f @ [0])"
definition fmt_nl :: "string \<Rightarrow> cstr" where "fmt_nl f = array_str (ascii f @ [0x0A, 0])"

definition print :: "mem \<Rightarrow> cstr \<Rightarrow> u32 list \<Rightarrow> 'a console_scheme \<Rightarrow> 'a console_scheme option" where
  "print junk f xs s = do { (s, n) \<leftarrow> printf junk f (va_args xs) s; Some s }"

definition mb :: "u32 \<Rightarrow> 'a machine_scheme \<Rightarrow> u32" where
  "mb a s = load32 (phys s) a"

definition check_flag :: "u32 \<Rightarrow> nat \<Rightarrow> bool" where
  "check_flag fl b \<longleftrightarrow> fl AND push_bit b 1 \<noteq> 0"

fun print_bytes :: "mem \<Rightarrow> u32 \<Rightarrow> nat \<Rightarrow> nat \<Rightarrow> 'a console_scheme \<Rightarrow> 'a console_scheme option" where
  "print_bytes junk p i 0 s = Some s"
| "print_bytes junk p i (Suc k) s =
    do { s \<leftarrow> print junk (fmt ''0x%x '') [scast (phys s (mb p s + of_nat i))] s;
         print_bytes junk p (Suc i) k s }"

text \<open>The modules; the last one's start becomes \<open>addr\<close>.\<close>

partial_function (option) print_modules ::
  "mem \<Rightarrow> u32 \<Rightarrow> u32 \<Rightarrow> u32 \<Rightarrow> u32 \<Rightarrow> 'a console_scheme \<Rightarrow> ('a console_scheme \<times> u32) option" where
  "print_modules junk mbi md mod_count addr s =
    (if mod_count < mb (mbi + 20) s then
       do { s \<leftarrow> print junk (fmt_nl ''Module %d loaded at address: 0x%#x'') [mod_count, mb md s] s;
            let addr = mb md s;
            s \<leftarrow> print junk (fmt_nl ''Module %d ends at address: 0x%#x'') [mod_count, mb (md + 4) s] s;
            s \<leftarrow> print junk (fmt_nl ''First few bytes of module:'') [] s;
            s \<leftarrow> print_bytes junk md 0 16 s;
            s \<leftarrow> print junk (fmt_nl '''') [] s;
            print_modules junk mbi (md + 16) (mod_count + 1) addr s }
     else Some (s, addr))"

partial_function (option) print_mmap ::
  "mem \<Rightarrow> u32 \<Rightarrow> u32 \<Rightarrow> 'a console_scheme \<Rightarrow> 'a console_scheme option" where
  "print_mmap junk mbi mmap s =
    (if mmap < mb (mbi + 48) s + mb (mbi + 44) s then
       do { s \<leftarrow> print junk (array_str (ascii ''    size = 0x%x, base_addr = 0x%#x%#x'' @ [0x0A] @
                   ascii ''    type = 0x%x,  length    = 0x%#x%#x'' @ [0x0A, 0]))
                 [mb mmap s, mb (mmap + 8) s, mb (mmap + 4) s, mb (mmap + 20) s, mb (mmap + 16) s, mb (mmap + 12) s] s;
            print_mmap junk mbi (mmap + mb mmap s + 4) s }
     else Some s)"

text \<open>Lines 43 to 104, with \<open>None\<close> as the address when the function returns early.\<close>

definition print_boot_info :: "mem \<Rightarrow> u32 \<Rightarrow> 'a console_scheme \<Rightarrow> ('a console_scheme \<times> u32 option) option" where
  "print_boot_info junk mbi s =
    do { s \<leftarrow> print junk (fmt_nl ''flags = 0x%#x'') [mb mbi s] s;
         s \<leftarrow> (if check_flag (mb mbi s) 0 then
                print junk (fmt_nl ''mem_lower = %uKB, mem_upper = %uKB'') [mb (mbi + 4) s, mb (mbi + 8) s] s else Some s);
         s \<leftarrow> (if check_flag (mb mbi s) 1 then
                print junk (fmt_nl ''boot_device = 0x%#x'') [mb (mbi + 12) s] s else Some s);
         s \<leftarrow> (if check_flag (mb mbi s) 2 then
                print junk (fmt_nl ''cmdline = %s'') [mb (mbi + 16) s] s else Some s);
         (s, addr) \<leftarrow> (if check_flag (mb mbi s) 3 then print_modules junk mbi (mb (mbi + 24) s) 0 mbi s
                       else Some (s, mbi));
         if check_flag (mb mbi s) 4 \<and> check_flag (mb mbi s) 5 then
           do { s \<leftarrow> print junk (fmt_nl ''Both bits 4 and 5 are set.'') [] s; Some (s, None) }
         else do {
           s \<leftarrow> (if check_flag (mb mbi s) 5 then
                  print junk (fmt_nl ''elf_sec: num = %u, size = 0x%#x, addr = 0x%#x, shndx = 0x%#x'')
                    [mb (mbi + 28) s, mb (mbi + 32) s, mb (mbi + 36) s, mb (mbi + 40) s] s else Some s);
           s \<leftarrow> (if check_flag (mb mbi s) 6 then
                  do { s \<leftarrow> print junk (fmt_nl ''mmap_addr = 0x%#x, mmap_length = 0x%x'')
                              [mb (mbi + 48) s, mb (mbi + 44) s] s;
                       print_mmap junk mbi (mb (mbi + 48) s) s } else Some s);
           Some (s, Some addr) } }"

subsection \<open>Segment descriptors\<close>

text \<open>\<open>SET_LDT_PARAMS\<close> and \<open>SET_TSS_PARAMS\<close>, two macros with the same body.\<close>

definition set_seg_params :: "u32 \<Rightarrow> u32 \<Rightarrow> seg_desc \<Rightarrow> seg_desc" where
  "set_seg_params a lim d = d\<lparr>
     base_31_24 := ucast (drop_bit 24 (a AND 0xFF000000)),
     base_23_16 := ucast (drop_bit 16 (a AND 0x00FF0000)),
     base_15_00 := ucast (a AND 0xFFFF),
     seg_lim_19_16 := ucast (drop_bit 16 (lim AND 0x000F0000)),
     seg_lim_15_00 := ucast (lim AND 0xFFFF)\<rparr>"

definition the_ldt_desc :: "u32 \<Rightarrow> u32 \<Rightarrow> seg_desc \<Rightarrow> seg_desc" where
  "the_ldt_desc a lim d = set_seg_params a lim (d\<lparr>granularity := 0, seg_opsize := 1, seg_reserved := 0,
     seg_avail := 0, seg_present := 1, seg_dpl := 0, seg_sys := 0, seg_type := 2\<rparr>)"

definition the_tss_desc :: "u32 \<Rightarrow> u32 \<Rightarrow> seg_desc \<Rightarrow> seg_desc" where
  "the_tss_desc a lim d = set_seg_params a lim (d\<lparr>granularity := 0, seg_opsize := 0, seg_reserved := 0,
     seg_avail := 0, seg_lim_19_16 := ucast (TSS_SIZE AND 0x000F0000), seg_present := 1, seg_dpl := 0,
     seg_sys := 0, seg_type := 9, seg_lim_15_00 := ucast (TSS_SIZE AND 0xFFFF)\<rparr>)"

definition load_segments :: "boot_env \<Rightarrow> 'a boot_scheme \<Rightarrow> 'a boot_scheme" where
  "load_segments b s =
    (let s = s\<lparr>ldt_desc_ptr := the_ldt_desc (b_ldt b) (b_ldt_size b) (b_seg b)\<rparr>;
         s = s\<lparr>ldtr := KERNEL_LDT\<rparr>;
         s = s\<lparr>tss_desc_ptr := the_tss_desc (b_tss b) (b_tss_size b) (b_seg b)\<rparr>;
         s = s\<lparr>ldt_segment_selector := KERNEL_LDT\<rparr>;
         s = s\<lparr>tss_ss0 := KERNEL_DS, tss_esp0 := 0x800000\<rparr>
     in s\<lparr>task_reg := KERNEL_TSS\<rparr>)"

subsection \<open>entry\<close>

text \<open>From \<open>sti\<close> to \<open>pit_init\<close>.\<close>

definition init_devices :: "boot_env \<Rightarrow> u32 \<Rightarrow> 'a boot_scheme \<Rightarrow> 'a boot_scheme option" where
  "init_devices b addr s =
    do { let s = sti s;
         let s = i8259_init s;
         let s = ini_keyboard s;
         let s = paging_initialize s;
         let s = rtc_init (b_prev_b b) (b_prev_a b) s;
         let s = file_init addr s;
         let s = init_operation_table s;
         s \<leftarrow> terminal_init s;
         Some (pit_init s) }"

datatype boot_result = Boot_return | Boot_hlt | Boot_user u32 u32

definition entry :: "boot_env \<Rightarrow> u32 \<Rightarrow> u32 \<Rightarrow> 'a boot_scheme \<Rightarrow> ('a boot_scheme \<times> boot_result) option" where
  "entry b magic addr s =
    do { let junk = e_junk (b_exec b);
         let s = s\<lparr>idt_loaded := True, idt := idt_init (b_entry b) (idt s)\<rparr>;
         let s = clear s;
         if magic \<noteq> 0x2BADB002 then
           do { s \<leftarrow> print junk (fmt_nl ''Invalid magic number: 0x%#x'') [magic] s; Some (s, Boot_return) }
         else
           do { (s, a) \<leftarrow> print_boot_info junk addr s;
                (case a of
                   None \<Rightarrow> Some (s, Boot_return)
                 | Some addr \<Rightarrow>
                     do { let s = load_segments b s;
                          s \<leftarrow> init_devices b addr s;
                          (s, r) \<leftarrow> execute (b_exec b) (Some shell_cmd) s;
                          Some (s, case r of Enter_user entry_point sp \<Rightarrow> Boot_user entry_point sp
                                   | Returned v \<Rightarrow> Boot_hlt) }) } }"

end
