(* ===== verification/Booting.thy ===== *)
theory Booting
  imports Typed_Descriptors Boot
begin

text \<open>
  From \<open>entry\<close> to the first shell: printing the boot information and initialising the devices
  leaves the processes alone, and the state in which the first shell starts is \<open>steady\<close>.
\<close>

subsection \<open>Printing is calm\<close>

lemma here_puts_from: "puts_from str i s = Some r \<Longrightarrow> here s (fst r)"
proof (rule puts_from.raw_induct [of "\<lambda>str i s r. here s (fst r)"], goal_cases)
  case (1 pf str i s r)
  have "here s (fst r)" if "pf str (i + 1) (putc (str i) s) = Some r"
    by (rule here_trans [OF here_console(1) 1(2) [OF that]])
  then show ?case using 1(3) by (auto split: if_splits)
qed

lemma here_puts: "puts str s = Some (s', n) \<Longrightarrow> here s s'"
  using here_puts_from [of str 0 s "(s', n)"] by (simp add: puts_def)

lemma here_put_hex: "print_hex junk alt v s = Some (s', n) \<Longrightarrow> here s s'"
  by (auto simp: print_hex_def bind_eq_Some_conv Let_def split: if_splits intro: here_puts)

lemma here_put_decimal: "print_decimal junk v s = Some (s', n) \<Longrightarrow> here s s'"
  by (auto simp: print_decimal_def bind_eq_Some_conv split: if_splits intro: here_puts)

lemma here_conversion: "print_conversion junk f esp alt i n s = Some r \<Longrightarrow> here s (fst r)"
proof (rule print_conversion.raw_induct [of "\<lambda>junk f esp alt i n s r. here s (fst r)"], goal_cases)
  case (1 pc junk f esp alt i n s r)
  then show ?case
    by (auto simp: bind_eq_Some_conv split: if_splits intro: here_puts here_put_hex here_put_decimal here_console(1))
qed

lemma here_printf_from: "printf_from junk f esp i n s = Some r \<Longrightarrow> here s (fst r)"
proof (rule printf_from.raw_induct [of "\<lambda>junk f esp i n s r. here s (fst r)"], goal_cases)
  case (1 pf junk f esp i n s r)
  have c: "here s t" if "print_conversion junk f esp False (i + 1) n s = Some (t, j, m)" for t j m
    using here_conversion [OF that] by simp
  show ?case
    using 1(3) by (auto simp: bind_eq_Some_conv split: if_splits
        intro: here_trans [OF c 1(2)] here_trans [OF here_console(1) 1(2)])
qed

lemma here_print: "print junk f xs s = Some s' \<Longrightarrow> here s s'"
proof -
  assume "print junk f xs s = Some s'"
  then obtain n where "printf_from junk f (va_args xs) 0 0 s = Some (s', n)"
    by (auto simp: print_def printf_def bind_eq_Some_conv)
  from here_printf_from [OF this] show ?thesis by simp
qed

lemma here_print_bytes: "print_bytes junk p i k s = Some s' \<Longrightarrow> here s s'"
  by (induction k arbitrary: i s) (auto simp: bind_eq_Some_conv intro: here_trans [OF here_print])

lemma here_print_modules: "print_modules junk mbi md c a s = Some r \<Longrightarrow> here s (fst r)"
proof (rule print_modules.raw_induct [of "\<lambda>junk mbi md c a s r. here s (fst r)"], goal_cases)
  case (1 pm junk mbi md c a s r)
  show ?case
  proof (cases "c < mb (mbi + 20) s")
    case True
    obtain s1 where s1: "print junk (fmt_nl ''Module %d loaded at address: 0x%#x'') [c, mb md s] s = Some s1"
      using 1(3) True by (cases "print junk (fmt_nl ''Module %d loaded at address: 0x%#x'') [c, mb md s] s") simp_all
    obtain s2 where s2: "print junk (fmt_nl ''Module %d ends at address: 0x%#x'') [c, mb (md + 4) s1] s1 = Some s2"
      using 1(3) True by (cases "print junk (fmt_nl ''Module %d ends at address: 0x%#x'') [c, mb (md + 4) s1] s1") (simp_all add: s1)
    obtain s3 where s3: "print junk (fmt_nl ''First few bytes of module:'') [] s2 = Some s3"
      using 1(3) True by (cases "print junk (fmt_nl ''First few bytes of module:'') [] s2") (simp_all add: s1 s2)
    obtain s4 where s4: "print_bytes junk md 0 16 s3 = Some s4"
      using 1(3) True unfolding s1 s2 s3 bind.bind_lunit Let_def by (cases "print_bytes junk md 0 16 s3") (simp_all add: s1 s2 s3)
    obtain s5 where s5: "print junk (fmt_nl '''') [] s4 = Some s5"
      using 1(3) True by (cases "print junk (fmt_nl '''') [] s4") (simp_all add: s1 s2 s3 s4)
    have "here s5 (fst r)"
      by (rule 1(2) [of junk mbi "md + 16" "c + 1" "mb md s1"]) (use 1(3) True in \<open>simp add: s1 s2 s3 s4 s5\<close>)
    with here_print [OF s1] here_print [OF s2] here_print [OF s3] here_print_bytes [OF s4] here_print [OF s5]
    show ?thesis by (blast intro: here_trans)
  qed (use 1(3) in auto)
qed

lemma here_print_mmap: "print_mmap junk mbi mm s = Some s' \<Longrightarrow> here s s'"
proof (rule print_mmap.raw_induct [of "\<lambda>junk mbi mm s r. here s r"], goal_cases)
  case (1 pm junk mbi mm s r)
  show ?case using 1(3) by (auto simp: bind_eq_Some_conv split: if_splits intro: here_trans [OF here_print 1(2)])
qed

lemma here_print_boot: "print_boot_info junk mbi s = Some (s', a) \<Longrightarrow> here s s'"
proof -
  have opt: "here t u" if "(if b then print junk f xs t else Some t) = Some u" for b f xs and t u :: "'a console_scheme"
    using that by (auto split: if_splits intro: here_print)
  have mods: "here t u" if "(if b then print_modules junk mbi x 0 mbi t else Some (t, mbi)) = Some (u, ad)" for b x ad and t u :: "'a console_scheme"
    using that by (auto split: if_splits dest: here_print_modules)
  assume p: "print_boot_info junk mbi s = Some (s', a)"
  obtain s1 where s1: "print junk (fmt_nl ''flags = 0x%#x'') [mb mbi s] s = Some s1"
    using p unfolding print_boot_info_def by (cases "print junk (fmt_nl ''flags = 0x%#x'') [mb mbi s] s") simp_all
  define x2 where "x2 = (if check_flag (mb mbi s1) 0 then
                print junk (fmt_nl ''mem_lower = %uKB, mem_upper = %uKB'') [mb (mbi + 4) s1, mb (mbi + 8) s1] s1 else Some s1)"
  obtain s2 where s2: "x2 = Some s2"
    using p unfolding print_boot_info_def s1 bind.bind_lunit x2_def [symmetric] by (cases x2) simp_all
  define x3 where "x3 = (if check_flag (mb mbi s2) 1 then
                print junk (fmt_nl ''boot_device = 0x%#x'') [mb (mbi + 12) s2] s2 else Some s2)"
  obtain s3 where s3: "x3 = Some s3"
    using p unfolding print_boot_info_def s1 bind.bind_lunit x2_def [symmetric] s2 x3_def [symmetric] by (cases x3) simp_all
  define x4 where "x4 = (if check_flag (mb mbi s3) 2 then
                print junk (fmt_nl ''cmdline = %s'') [mb (mbi + 16) s3] s3 else Some s3)"
  obtain s4 where s4: "x4 = Some s4"
    using p unfolding print_boot_info_def s1 bind.bind_lunit x2_def [symmetric] s2 x3_def [symmetric] s3 x4_def [symmetric]
    by (cases x4) simp_all
  define x5 where "x5 = (if check_flag (mb mbi s4) 3 then print_modules junk mbi (mb (mbi + 24) s4) 0 mbi s4
                       else Some (s4, mbi))"
  obtain s5 ad where s5: "x5 = Some (s5, ad)"
    using p unfolding print_boot_info_def s1 bind.bind_lunit x2_def [symmetric] s2 x3_def [symmetric] s3 x4_def [symmetric] s4
      x5_def [symmetric] by (cases x5) auto
  have "here s s5"
    using here_print [OF s1] opt [OF s2 [unfolded x2_def]] opt [OF s3 [unfolded x3_def]] opt [OF s4 [unfolded x4_def]]
      mods [OF s5 [unfolded x5_def]] by (blast intro: here_trans)
  moreover have "here s5 s'"
    using p unfolding print_boot_info_def s1 bind.bind_lunit x2_def [symmetric] s2 x3_def [symmetric] s3 x4_def [symmetric] s4
      x5_def [symmetric] s5
    by (auto simp: bind_eq_Some_conv split: if_splits intro: here_print here_trans [OF here_print here_print_mmap]
        here_trans [OF here_print here_trans [OF here_print here_print_mmap]])
  ultimately show "here s s'" by (rule here_trans)
qed

subsection \<open>The devices\<close>

text \<open>Initialising the terminals keeps the fields the processes use.\<close>

lemma init_one_keeps:
  assumes "init_one i s = Some s'" "i < 3" "length (terminals s) = 3"
  shows "length (terminals s') = 3" "same_procs (terminals s ! j) (terminals s' ! j)"
    "t_open (terminals s' ! j) = (if j = i then 0 else t_open (terminals s ! j))"
    "console.more s' = console.more s" "next_terminal s' = next_terminal s" "phys s' = phys s"
    "page_directory s' = page_directory s" "dentry_addr s' = dentry_addr s" "file_sys s' = file_sys s"
  using assms
  by (cases "j = i"; auto simp: init_one_def bind_eq_Some_conv term_ix_def upd_term_def teminial_map_pages_def Let_def same_procs_def
      split: if_splits)+

lemma terminal_init_keeps:
  assumes "terminal_init s = Some s'" "length (terminals s) = 3"
  shows "length (terminals s') = 3" "same_procs (terminals s ! j) (terminals s' ! j)"
    "opened_term s' j \<longleftrightarrow> j = 0" "console.more s' = console.more s" "current_id s' = 1" "phys s' = phys s"
    "page_directory s' = page_directory s" "dentry_addr s' = dentry_addr s" "file_sys s' = file_sys s"
proof -
  obtain s1 s2 s3 where s: "init_one 0 s = Some s1" "init_one 1 s1 = Some s2" "init_one 2 s2 = Some s3"
    "s' = (upd_term 0 (\<lambda>t. t\<lparr>t_open := 1\<rparr>) s3)\<lparr>current_id := 1, terminal_buffer_index := 0\<rparr>"
    using assms(1) by (auto simp: terminal_init_def bind_eq_Some_conv term_ix_def split: if_splits)
  note k1 = init_one_keeps [OF s(1) _ assms(2), simplified]
  note k2 = init_one_keeps [OF s(2) _ k1(1), simplified]
  note k3 = init_one_keeps [OF s(3) _ k2(1), simplified]
  show "length (terminals s') = 3" "console.more s' = console.more s" "current_id s' = 1" "phys s' = phys s"
    "page_directory s' = page_directory s" "dentry_addr s' = dentry_addr s" "file_sys s' = file_sys s"
    using k1(1,4,6-) k2(1,4,6-) k3(1,4,6-) by (simp_all add: s(4) upd_term_def)
  have "same_procs (terminals s ! j) (terminals s3 ! j)" using k1(2) k2(2) k3(2) by (simp add: same_procs_def)
  then show "same_procs (terminals s ! j) (terminals s' ! j)"
    using k3(1) by (cases "j = 0") (simp_all add: s(4) upd_term_def same_procs_def)
  have "t_open (terminals s3 ! 1) = 0" "t_open (terminals s3 ! 2) = 0"
    using k1(3) k2(3) k3(3) by simp_all
  then show "opened_term s' j \<longleftrightarrow> j = 0"
    using k3(1) by (auto simp: opened_term_def s(4) upd_term_def less_3_iff)
qed

lemma init_devices_keeps:
  assumes "init_devices b addr s = Some s'" "chains s (\<lambda>_. [])"
  shows "chains s' (\<lambda>_. [])" "opened_term s' j \<longleftrightarrow> j = 0" "current_id s' = 1" "next_terminal s' = 0"
    "pcbs s' = pcbs s" "tables_ok s'"
proof -
  define u where "u = init_operation_table (file_init addr (rtc_init (b_prev_b b) (b_prev_a b) (paging_initialize (ini_keyboard (i8259_init (sti s))))))"
  obtain v where v: "terminal_init u = Some v" "s' = pit_init v"
    using assms(1) unfolding init_devices_def Let_def u_def [symmetric] by (cases "terminal_init u") simp_all
  have u: "terminals u = terminals s" "pcbs u = pcbs s" "process_array u = process_array s"
    by (simp_all add: u_def init_operation_table_def file_init_def rtc_init_def paging_initialize_def ini_keyboard_def i8259_init_def
        sti_def cli_def outb_def enable_irq_def disable_irq_def write_masks_def clear_def clearbuffuer_def console_defs
        loadPageDirectory_def load_cr3_def enablePaging_def Let_def)
  have len: "length (terminals u) = 3" using assms(2) by (simp add: u chains_def blocks_ok_def)
  note k = terminal_init_keeps [OF v(1) len]
  have p: "terminals s' = terminals v" "console.more s' = console.more v" "current_id s' = current_id v" "next_terminal s' = 0"
    by (simp_all add: v(2) pit_init_def outb_def enable_irq_def write_masks_def Let_def)
  have m: "pcbs s' = pcbs s" "process_array s' = process_array s" "op_tables s' = op_tables u"
    using k(4) p(2) u(2,3) by (cases s', cases v, cases u; simp)+
  have "tables_ok u" by (simp add: u_def tables_ok_def init_operation_table_def)
  then show "tables_ok s'" by (simp add: tables_ok_def init_operation_table_def m(3))
  show "pcbs s' = pcbs s" by (rule m(1))
  show "current_id s' = 1" "next_terminal s' = 0" using k(5) p by simp_all
  show "opened_term s' j \<longleftrightarrow> j = 0" using k(3) [of j] p(1) by (simp add: opened_term_def)
  show "chains s' (\<lambda>_. [])"
    by (rule chains_cong [OF assms(2)]) (use k(1,2) m len in \<open>simp_all add: p(1) u(1) [symmetric]\<close>)
qed

subsection \<open>The first shell\<close>

lemma first_shell_steady:
  assumes "chains s (\<lambda>_. [])" "\<And>j. opened_term s j \<longleftrightarrow> j = 0" "current_id s = 1" "next_terminal s = 0"
    and x: "execute e c s = Some (s', Enter_user en sp)"
  shows "steady s' ((\<lambda>_. [])(0 := [0]))"
proof -
  have sh: "shown s 0" using assms(3) by (simp add: shown_def)
  obtain n where n: "free_pid (\<lambda>_. []) 0 = Some n" "chains s' ((\<lambda>_. [])(0 := [n]))" "on_cpu s' 0 n"
    using execute_entered [OF assms(1) sh x] by (auto simp: entered_def)
  have n0: "n = 0" using n(1) by (simp add: free_pid_def)
  note k = kept_execute [OF x]
  have o: "opened_term s' j \<longleftrightarrow> j = 0" for j unfolding kept_opened [OF k] by (rule assms(2))
  have "shown s' 0" "next_terminal s' = of_nat 0" using k sh assms(4) by (simp_all add: kept_def shown_def)
  then show ?thesis using n(2,3) unfolding steady_def o n0 by auto
qed

lemma boot_user_iff:
  "(case r of Returned v \<Rightarrow> Boot_hlt | Enter_user x y \<Rightarrow> Boot_user x y) = Boot_user en sp \<longleftrightarrow> r = Enter_user en sp"
  by (cases r) auto

lemma entry_steady:
  assumes "chains s (\<lambda>_. [])" "\<And>p. typed_block (pcbs s p)" "entry b magic mbi s = Some (s', Boot_user en sp)"
  shows "steady s' ((\<lambda>_. [])(0 := [0]))" "typed_fds s'"
proof -
  define s1 where "s1 = clear (s\<lparr>idt_loaded := True, idt := idt_init (b_entry b) (idt s)\<rparr>)"
  have m: "magic = 0x2BADB002"
    using assms(3) unfolding entry_def Let_def s1_def [symmetric] by (cases "magic = 0x2BADB002") (auto simp: bind_eq_Some_conv)
  obtain s2 a where s2: "print_boot_info (e_junk (b_exec b)) mbi s1 = Some (s2, a)"
    using assms(3) m unfolding entry_def Let_def s1_def [symmetric]
    by (cases "print_boot_info (e_junk (b_exec b)) mbi s1") auto
  obtain addr where a: "a = Some addr"
    using assms(3) m s2 unfolding entry_def Let_def s1_def [symmetric] by (cases a) simp_all
  define s3 where "s3 = load_segments b s2"
  obtain s4 where s4: "init_devices b addr s3 = Some s4"
    using assms(3) m s2 a unfolding entry_def Let_def s1_def [symmetric] by (cases "init_devices b addr s3") (simp_all add: s3_def)
  have x: "execute (b_exec b) (Some shell_cmd) s4 = Some (s', Enter_user en sp)"
    using assms(3) m s2 a s4 unfolding entry_def Let_def s1_def [symmetric]
    by (auto simp: s3_def bind_eq_Some_conv boot_user_iff)
  have c1: "chains s1 (\<lambda>_. [])"
    by (rule chains_cong [OF assms(1)]) (use assms(1) in \<open>simp_all add: s1_def clear_def same_procs_def chains_def blocks_ok_def\<close>)
  have c2: "chains s2 (\<lambda>_. [])" by (rule tame_chains [OF c1 calm_tame]) (use here_print_boot [OF s2] in \<open>simp add: here_def\<close>)
  have c3: "chains s3 (\<lambda>_. [])"
    by (rule chains_cong [OF c2]) (use c2 in \<open>simp_all add: s3_def load_segments_def Let_def same_procs_def chains_def blocks_ok_def\<close>)
  have "keeps_types s s1" by (rule types_same) (simp_all add: s1_def clear_def)
  moreover have "keeps_types s1 s2" by (rule types_here [OF here_print_boot [OF s2]])
  moreover have "keeps_types s2 s3" by (rule types_same) (simp_all add: s3_def load_segments_def Let_def)
  ultimately have "typed_block (pcbs s3 p)" for p using assms(2) by (simp add: keeps_types_def)
  then have "typed_fds s4" using init_devices_keeps(5,6) [OF s4 c3] by (simp add: typed_fds_def)
  then show "typed_fds s'" by (rule keeps_typed [OF _ types_exec.exec [OF x]])
  show "steady s' ((\<lambda>_. [])(0 := [0]))" by (rule first_shell_steady [OF init_devices_keeps(1-4) [OF s4 c3] x])
qed

subsection \<open>A state for the witness\<close>

lemma clear_keeps: "\<not> in_video a \<Longrightarrow> phys (clear s) a = phys s a"
  by (simp add: clear_phys overlay_outside in_video_def)

lemma high_not_video: "0x400000 \<le> unat a \<Longrightarrow> \<not> in_video a"
  using unat_sub_if' [of a VIDEO] by (simp add: in_video_def)

lemma print_some:
  assumes "screen_ok s" "0 \<notin> set (ascii f)" "length (ascii f) < 1000" "ascii f @ [0x0A] = concat (map encode ds)"
    "\<And>c. Lit c \<in> set ds \<Longrightarrow> c \<noteq> 0x25" "\<And>e. str_args e 0 ds = []"
  shows "\<exists>xs. print junk (fmt_nl f) as s = Some (fold putc xs s)"
proof -
  have "holds_str (fmt_nl f) (ascii f @ [0x0A])"
    using array_str_holds [of "ascii f @ [0x0A]" "[]"] assms(2,3) by (simp add: fmt_nl_def)
  then have h: "holds_str (fmt_nl f) (concat (map encode ds))" by (simp add: assms(4))
  show ?thesis
    using printf_renders [OF h assms(5,1), of "va_args as" "\<lambda>_. []" junk] assms(6) by (auto simp: print_def)
qed

text \<open>The machine before \<open>entry\<close>: every object zero, the shell's image at 4 megabytes, which is
  also where the boot information is; its flags word is 1.\<close>

definition boot_up :: boot where
  "boot_up = kernel.extend (kernel_bss\<lparr>phys := shell_image\<rparr>)
     (boot.fields (replicate 256 (idt_desc.make 0 0 0 0 0 0 0 0 0 0 0)) False
       (seg_desc.make 0 0 0 0 0 0 0 0 0 0 0 0 0) (seg_desc.make 0 0 0 0 0 0 0 0 0 0 0 0 0) 0 0 0)"

definition wit_boot :: boot_env where
  "wit_boot = \<lparr>b_exec = wit_env, b_entry = (\<lambda>_. 0x401000), b_prev_b = 0, b_prev_a = 0, b_ldt = 0, b_ldt_size = 0,
     b_tss = 0, b_tss_size = 103, b_seg = seg_desc.make 0 0 0 0 0 0 0 0 0 0 0 0 0\<rparr>"

lemma boot_up_simps [simp]:
  "phys boot_up = shell_image" "terminals boot_up = terminals con_up" "screen_x boot_up = 0" "screen_y boot_up = 0"
  "pcbs boot_up = (\<lambda>_. pcb_bss)" "process_array boot_up = replicate 6 0"
  by (simp_all add: boot_up_def kernel_bss_def kernel.defs console.defs boot.defs)

lemma boot_up_chains: "chains boot_up (\<lambda>_. [])"
  by (auto simp: chains_def blocks_ok_def chain_of_def less_3_iff less_6_iff terminal_bss_def terminal.defs pcb_bss_def)

lemma init_devices_total:
  assumes "length (terminals s) = 3" "\<forall>k<3. length (t_buf (terminals s ! k)) = 128"
  shows "\<exists>s'. init_devices b addr s = Some s' \<and> dentry_addr s' = addr \<and> file_sys s' = addr \<and> frame_ok s' \<and>
    (\<forall>a. 0x400000 \<le> unat a \<longrightarrow> phys s' a = phys s a)"
proof -
  define r where "r = paging_initialize (ini_keyboard (i8259_init (sti s)))"
  define u where "u = init_operation_table (file_init addr (rtc_init (b_prev_b b) (b_prev_a b) r))"
  have "user_frame r = 0" by (simp add: r_def user_frame_def init_page_directory)
  moreover have "terminals r = terminals s" "phys r = phys (clear s)"
    by (simp_all add: r_def paging_initialize_def ini_keyboard_def i8259_init_def
        sti_def cli_def outb_def enable_irq_def disable_irq_def write_masks_def clear_def clearbuffuer_def console_defs
        loadPageDirectory_def load_cr3_def enablePaging_def Let_def)
  ultimately have r: "terminals r = terminals s" "phys r = phys (clear s)" "user_frame r = 0" by simp_all
  have u: "terminals u = terminals s" "phys u = phys (clear s)" "page_directory u = page_directory r" "dentry_addr u = addr" "file_sys u = addr"
    unfolding u_def r(1,2) [symmetric]
    by (simp_all add: init_operation_table_def file_init_def rtc_init_def sti_def cli_def outb_def enable_irq_def disable_irq_def
        write_masks_def Let_def)
  have len: "length (terminals u) = 3" using assms(1) by (simp add: u)
  obtain s1 where s1: "init_one 0 u = Some s1" "\<forall>k<3. length (t_buf (terminals s1 ! k)) = 128"
    using init_one_state [of 0 u] assms len by (auto simp: u(1) nth_list_update)
  note k1 = init_one_keeps [OF s1(1) _ len, simplified]
  obtain s2 where s2: "init_one 1 s1 = Some s2" "\<forall>k<3. length (t_buf (terminals s2 ! k)) = 128"
    using init_one_state [of 1 s1] s1(2) k1(1) by (auto simp: nth_list_update)
  note k2 = init_one_keeps [OF s2(1) _ k1(1), simplified]
  obtain s3 where s3: "init_one 2 s2 = Some s3"
    using init_one_state [of 2 s2] s2(2) k2(1) by auto
  note k3 = init_one_keeps [OF s3 _ k2(1), simplified]
  obtain v where v: "terminal_init u = Some v"
  proof -
    have "term_ix s3 0 = Some 0" using k3(1) by (simp add: term_ix_def)
    then show thesis using that s1(1) s2(1) s3 by (simp add: terminal_init_def)
  qed
  note k = terminal_init_keeps [OF v len]
  have i: "init_devices b addr s = Some (pit_init v)"
    using v unfolding init_devices_def Let_def u_def r_def by simp
  have p: "phys (pit_init v) = phys v" "page_directory (pit_init v) = page_directory v" "dentry_addr (pit_init v) = dentry_addr v"
    "file_sys (pit_init v) = file_sys v"
    by (simp_all add: pit_init_def outb_def enable_irq_def write_masks_def Let_def)
  have "user_frame (pit_init v) = 0" using r(3) by (simp add: user_frame_def p k(7) u(3))
  then show ?thesis
    using i by (intro exI [of _ "pit_init v"]) (simp add: p k(6,8,9) u frame_ok_def clear_keeps high_not_video)
qed

lemma shell_on_image:
  assumes "dentry_addr s = 0x400000" "file_sys s = 0x400000" "frame_ok s" "\<And>a. 0x400000 \<le> unat a \<Longrightarrow> phys s a = shell_image a"
  shows "command_file wit_env (ascii ''shell'') s 0x3000 shell_file"
proof -
  have p: "program_at s 0 0x3000 shell_file"
  proof (rule program_at_cong [OF shell_program])
    fix x :: nat
    assume "x < 0x3000"
    then have "unat (0x400000 + of_nat x :: u32) = 0x400000 + x"
      by (subst unat_add_lem [THEN iffD1]) (simp_all add: unat_of_nat32)
    then show "phys s (dentry_addr kernel_shell + of_nat x) = phys kernel_shell (dentry_addr kernel_shell + of_nat x)"
      using assms(4) [of "0x400000 + of_nat x"] by simp
  qed (simp_all add: assms(1-3))
  have k: "kernel_range 0x400000 0x3000" by (simp add: kernel_range_def)
  have v: "vmem s a = shell_image a" if "0x400000 \<le> unat a" "unat a < 0x403000" for a
  proof -
    have "unat (a - 0x400000) = unat a - 0x400000" using that unat_sub_if' [of a "0x400000"] by simp
    then have "unat (a - 0x400000) < 0x3000" "0x400000 + of_nat (unat (a - 0x400000)) = a" using that by auto
    then show ?thesis using kernel_range_vmem(1) [OF k assms(3)] assms(4) [OF that(1)] by metis
  qed
  have n: "entry_name s (vmem s) 0 = ascii ''shell''"
    by (simp add: entry_name_def numeral_eq_Suc dentry_ptr_def ascii_def assms(2))
      (simp add: v shell_image_def)
  then have "find (\<lambda>j. entry_name s (vmem s) j = ascii ''shell'') [0..<63] = Some 0"
    using upt_conv_Cons [of 0 63] by (simp del: upt_rec_numeral)
  moreover have "load32 (vmem s) (dentry_ptr s (of_nat 0) + 36) = 0"
    by (simp add: load32_def dentry_ptr_def v assms(2)) (simp add: shell_image_def)
  ultimately have "entry_node s (vmem s) (ascii ''shell'') = Some 0" by (simp add: entry_node_def)
  moreover have "cmd_name (ascii ''shell'') = ascii ''shell''" by (simp add: cmd_name_def ascii_def)
  ultimately show ?thesis
    using p by (auto simp: command_file_def stack_buf_def wit_env_def kernel_range_def sep_def shell_file_def assms(1))
qed

lemma boot_info_up:
  assumes "screen_ok s" "\<And>a. 0x400000 \<le> unat a \<Longrightarrow> phys s a = shell_image a"
  shows "\<exists>xs. print_boot_info junk 0x400000 s = Some (fold putc xs s, Some 0x400000)"
proof -
  have fl: "mb 0x400000 (fold putc xs s) = 1" for xs
  proof -
    have "phys (fold putc xs s) a = shell_image a" if "0x400000 \<le> unat a" for a
      using that assms high_not_video by (simp add: fold_putc_phys_frame)
    then show ?thesis by (simp add: mb_def load32_def) (simp add: shell_image_def)
  qed
  have "\<exists>xs. print junk (fmt_nl ''flags = 0x%#x'') as s = Some (fold putc xs s)" for as
    by (rule print_some [of _ _ "map Lit (ascii ''flags = 0x'') @ [Hex8, Lit 0x0A]"]) (auto simp: assms(1) ascii_def)
  then obtain xs where xs: "print junk (fmt_nl ''flags = 0x%#x'') [mb 0x400000 s] s = Some (fold putc xs s)" by blast
  have ok: "screen_ok (fold putc xs s)" by (rule fold_putc_screen_ok [OF assms(1)])
  have "\<exists>ys. print junk (fmt_nl ''mem_lower = %uKB, mem_upper = %uKB'') as (fold putc xs s) = Some (fold putc ys (fold putc xs s))" for as
    by (rule print_some [of _ _ "map Lit (ascii ''mem_lower = '') @ [Unsigned] @ map Lit (ascii ''KB, mem_upper = '') @ [Unsigned] @
        map Lit (ascii ''KB'') @ [Lit 0x0A]"]) (auto simp: ok ascii_def)
  then obtain ys where ys: "print junk (fmt_nl ''mem_lower = %uKB, mem_upper = %uKB'')
      [mb (0x400000 + 4) (fold putc xs s), mb (0x400000 + 8) (fold putc xs s)] (fold putc xs s) = Some (fold putc ys (fold putc xs s))" by blast
  have fy: "mb 0x400000 (fold putc ys (fold putc xs s)) = 1" using fl [of "xs @ ys"] by simp
  have fx: "mb 0x400000 (fold putc xs s) = 1" by (rule fl)
  have "print_boot_info junk 0x400000 s = Some (fold putc ys (fold putc xs s), Some 0x400000)"
    unfolding print_boot_info_def xs bind.bind_lunit fx ys fy
    by (simp add: check_flag_def fx fy ys [simplified] bind.bind_lunit)
  then show ?thesis by (intro exI [of _ "xs @ ys"]) simp
qed

lemma boot_up_enters:
  "\<exists>s'. entry wit_boot 0x2BADB002 0x400000 boot_up = Some (s', Boot_user 0x8048018 asm_hex)"
proof -
  define s1 where "s1 = clear (boot_up\<lparr>idt_loaded := True, idt := idt_init (b_entry wit_boot) (idt boot_up)\<rparr>)"
  have "phys s1 a = shell_image a" if "0x400000 \<le> unat a" for a
    unfolding s1_def clear_keeps [OF high_not_video [OF that]] by simp
  moreover have "screen_ok s1" "terminals s1 = terminals con_up" by (simp_all add: s1_def screen_ok_def clear_def)
  ultimately have s1: "screen_ok s1" "\<And>a. 0x400000 \<le> unat a \<Longrightarrow> phys s1 a = shell_image a" "terminals s1 = terminals con_up"
    by simp_all
  have c1: "chains s1 (\<lambda>_. [])"
    by (rule chains_cong [OF boot_up_chains]) (simp_all add: s1_def clear_def same_procs_def)
  obtain xs where xs: "print_boot_info (e_junk (b_exec wit_boot)) 0x400000 s1 = Some (fold putc xs s1, Some 0x400000)"
    using boot_info_up [OF s1(1,2)] by blast
  define s3 where "s3 = load_segments wit_boot (fold putc xs s1)"
  have t3: "terminals s3 = terminals con_up"
    by (simp add: s3_def load_segments_def Let_def frame_simps s1(3))
  have p3: "phys s3 a = shell_image a" if "0x400000 \<le> unat a" for a
    using fold_putc_phys_frame [OF s1(1) high_not_video [OF that], of xs] s1(2) [OF that] by (simp add: s3_def load_segments_def Let_def)
  have c2: "chains (fold putc xs s1) (\<lambda>_. [])"
    by (rule tame_chains [OF c1 calm_tame]) (use here_fold_putc [of s1 xs] in \<open>simp add: here_def\<close>)
  have c3: "chains s3 (\<lambda>_. [])"
    by (rule chains_cong [OF c2]) (use c2 in \<open>simp_all add: s3_def load_segments_def Let_def same_procs_def chains_def blocks_ok_def\<close>)
  have len: "length (terminals s3) = 3" "\<forall>k<3. length (t_buf (terminals s3 ! k)) = 128"
    by (auto simp: t3 less_3_iff terminal_bss_def terminal.defs)
  obtain s4 where s4: "init_devices wit_boot 0x400000 s3 = Some s4" "dentry_addr s4 = 0x400000" "file_sys s4 = 0x400000" "frame_ok s4"
    "\<And>a. 0x400000 \<le> unat a \<Longrightarrow> phys s4 a = shell_image a"
    using init_devices_total [OF len, of wit_boot "0x400000"] p3 by auto
  note k4 = init_devices_keeps [OF s4(1) c3]
  have sh: "shown s4 0" "free_pid (\<lambda>_. []) 0 = Some 0" using k4(3) by (simp_all add: shown_def free_pid_def)
  have ok: "command_ok wit_env shell_cmd (ascii ''shell'')" by (rule shell_cmd_ok) (simp add: wit_env_def)
  have cf: "command_file wit_env (ascii ''shell'') s4 0x3000 shell_file" by (rule shell_on_image [OF s4(2-5)])
  have ex: "take 4 shell_file = executable" "entry_of shell_file = 0x8048018"
    by (simp_all add: shell_file_def executable_def entry_of_def load32_def)
  obtain s' where "execute wit_env (Some shell_cmd) s4 = Some (s', Enter_user 0x8048018 asm_hex)"
    using execute_loads [OF ok cf ex(1) k4(1) sh] ex(2) by auto
  then have "entry wit_boot 0x2BADB002 0x400000 boot_up = Some (s', Boot_user 0x8048018 asm_hex)"
    unfolding entry_def Let_def s1_def [symmetric] xs s3_def [symmetric]
    by (simp add: xs s3_def [symmetric] s4(1)) (simp add: wit_boot_def)
  then show ?thesis ..
qed

subsection \<open>Properties\<close>



end
