(* ===== verification/Format.thy ===== *)
theory Format
  imports Console
begin

text \<open>
  \<open>printf\<close> on any format: it returns as soon as no conversion is cut off by the end of the
  string, also with conversions it does not know and with repeated flags.
\<close>

text \<open>A format is complete when it does not end behind \<open>%\<close> or \<open>%#\<close>; the flag says whether a
  conversion has begun.\<close>

fun complete :: "bool \<Rightarrow> u8 list \<Rightarrow> bool" where
  "complete conv [] \<longleftrightarrow> \<not> conv"
| "complete False (c # cs) \<longleftrightarrow> complete (c = 0x25) cs"
| "complete True (c # cs) \<longleftrightarrow> complete (c = 0x23) cs"

lemma conversion_returns:
  assumes "at f i cs" "complete True cs" "0x73 \<in> set cs \<Longrightarrow> \<forall>n. str_arg strs s (esp n)"
  shows "\<exists>k ys n'. print_conversion junk f esp alt i n s = Some (fold putc ys s, i + of_nat k, n') \<and>
    k < length cs \<and> complete False (drop (Suc k) cs)"
  using assms
proof (induction cs arbitrary: i alt)
  case (Cons c cs)
  have f: "f i = c" "at f (i + 1) cs" using Cons.prems(1) by simp_all
  show ?case
  proof (cases "c = 0x23")
    case True
    have "complete True cs" using Cons.prems(2) True by simp
    moreover have "0x73 \<in> set cs \<Longrightarrow> \<forall>n. str_arg strs s (esp n)" using Cons.prems(3) by simp
    ultimately obtain k ys n' where k: "print_conversion junk f esp True (i + 1) n s = Some (fold putc ys s, i + 1 + of_nat k, n')"
      "k < length cs" "complete False (drop (Suc k) cs)"
      using Cons.IH [OF f(2), of True] by blast
    have "print_conversion junk f esp alt i n s = Some (fold putc ys s, i + of_nat (Suc k), n')"
      using f True k(1) by (subst print_conversion.simps) (simp add: add.assoc)
    then show ?thesis using k(2,3) by (intro exI [of _ "Suc k"] exI [of _ ys] exI [of _ n']) simp
  next
    case False
    obtain a where dec: "print_decimal junk (esp n) s = Some (fold putc (render strs (esp n) Signed) s, a)"
      using print_decimal_value by blast
    obtain ys b where hex: "print_hex junk alt (esp n) s = Some (fold putc ys s, b)"
      using print_hex_padded [of junk "esp n" s] print_hex_plain [of junk "esp n" s] by (cases alt) auto
    have num: "\<exists>b. (do { conv_buf \<leftarrow> itoa junk (esp n) 0 10; puts (view conv_buf 0) s }) = Some (fold putc (itoa_str 10 (unat (esp n))) s, b)"
      using print_number [of 10 junk "esp n" s] by auto
    have str: "puts (view (phys s) (esp n)) s = Some (fold putc (strs (esp n)) s, of_nat (length (strs (esp n))))" if "c = 0x73"
      using that Cons.prems(3) puts_fold [of "view (phys s) (esp n)" "strs (esp n)" s] by (simp add: str_arg_def)
    have "\<exists>ys n'. print_conversion junk f esp alt i n s = Some (fold putc ys s, i, n')"
    proof -
      consider "c = 0x25" | "c = 0x78" | "c = 0x75" | "c = 0x64" | "c = 0x63" | "c = 0x73"
        | "c \<notin> {0x25, 0x78, 0x75, 0x64, 0x63, 0x73}" by blast
      then show ?thesis
      proof cases
        case 1
        then show ?thesis using f by (intro exI [of _ "[0x25]"] exI) (subst print_conversion.simps, simp)
      next
        case 2
        then show ?thesis using f hex by (intro exI [of _ ys] exI) (subst print_conversion.simps, simp)
      next
        case 3
        then show ?thesis using f num by (subst print_conversion.simps) (auto simp: bind_eq_Some_conv)
      next
        case 4
        then show ?thesis using f dec by (subst print_conversion.simps) (auto simp del: render.simps)
      next
        case 5
        then show ?thesis using f by (intro exI [of _ "[ucast (esp n)]"] exI) (subst print_conversion.simps, simp)
      next
        case 6
        then show ?thesis using f str by (intro exI [of _ "strs (esp n)"] exI) (subst print_conversion.simps, simp)
      next
        case 7
        then show ?thesis using f False by (intro exI [of _ "[]"] exI) (subst print_conversion.simps, simp)
      qed
    qed
    moreover have "complete False cs" using Cons.prems(2) False by simp
    ultimately show ?thesis by (intro exI [of _ 0]) simp
  qed
qed simp

lemma printf_from_returns:
  "at f i xs \<Longrightarrow> f (i + of_nat (length xs)) = 0 \<Longrightarrow> 0 \<notin> set xs \<Longrightarrow> complete False xs \<Longrightarrow> screen_ok s \<Longrightarrow>
    (0x73 \<in> set xs \<Longrightarrow> \<forall>n. str_arg strs s (esp n)) \<Longrightarrow>
    \<exists>ys. printf_from junk f esp i n s = Some (fold putc ys s, i + of_nat (length xs))"
proof (induction "length xs" arbitrary: xs i n s rule: less_induct)
  case less
  show ?case
  proof (cases xs)
    case Nil
    then show ?thesis using less.prems by (intro exI [of _ "[]"]) (subst printf_from.simps, simp)
  next
    case (Cons c cs)
    have f: "f i = c" "at f (i + 1) cs" "c \<noteq> 0" using less.prems Cons by auto
    have st: "\<forall>n. str_arg strs (fold putc ys s) (esp n)" if "0x73 \<in> set xs" for ys
      using str_arg_fold_putc [OF less.prems(5)] less.prems(6) [OF that] by blast
    have ok: "screen_ok (fold putc ys s)" for ys by (rule fold_putc_screen_ok [OF less.prems(5)])
    show ?thesis
    proof (cases "c = 0x25")
      case True
      have c: "complete True cs" using less.prems(4) True Cons by simp
      obtain k ys n' where k: "print_conversion junk f esp False (i + 1) n s = Some (fold putc ys s, i + 1 + of_nat k, n')"
        "k < length cs" "complete False (drop (Suc k) cs)"
        using conversion_returns [OF f(2) c, of strs s esp junk False n] less.prems(6) Cons by auto
      define r where "r = drop (Suc k) cs"
      have split: "cs = take (Suc k) cs @ r" by (simp add: r_def)
      have lk: "length (take (Suc k) cs) = Suc k" "length cs = Suc k + length r" using k(2) by (simp_all add: r_def)
      have at: "at f (i + 1 + of_nat k + 1) r"
        using f(2) at_append [of f "i + 1" "take (Suc k) cs" r] lk(1) unfolding split [symmetric] by (simp add: algebra_simps)
      have e: "i + 1 + of_nat k + 1 + of_nat (length r) = i + of_nat (length xs)" using lk(2) Cons by (simp add: algebra_simps)
      obtain zs where z: "printf_from junk f esp (i + 1 + of_nat k + 1) n' (fold putc ys s) =
          Some (fold putc zs (fold putc ys s), i + 1 + of_nat k + 1 + of_nat (length r))"
      proof -
        have "f (i + 1 + of_nat k + 1 + of_nat (length r)) = 0" unfolding e by (rule less.prems(2))
        moreover have "set r \<subseteq> set xs" unfolding r_def Cons using set_drop_subset [of "Suc k" cs] by auto
        moreover have "length r < length xs" unfolding Cons list.size(4) lk(2) by simp
        moreover have "0 \<notin> set r" "complete False r" "0x73 \<in> set r \<Longrightarrow> 0x73 \<in> set xs"
          using calculation(2) less.prems(3) k(3) unfolding r_def by blast+
        ultimately show thesis using less.hyps [of r "i + 1 + of_nat k + 1" "fold putc ys s" n'] at ok st that by blast
      qed
      have "printf_from junk f esp i n s = Some (fold putc (ys @ zs) s, i + of_nat (length xs))"
        using printf_from_percent [of f i junk esp n s] f(1) True k(1) z unfolding e by simp
      then show ?thesis ..
    next
      case False
      have e: "i + 1 + of_nat (length cs) = i + of_nat (length xs)" using Cons by (simp add: algebra_simps)
      obtain zs where z: "printf_from junk f esp (i + 1) n (putc c s) = Some (fold putc zs (putc c s), i + 1 + of_nat (length cs))"
      proof -
        have "f (i + 1 + of_nat (length cs)) = 0" unfolding e by (rule less.prems(2))
        moreover have "0 \<notin> set cs" "complete False cs" using less.prems(3,4) Cons False by simp_all
        moreover have "screen_ok (putc c s)" using ok [of "[c]"] by simp
        moreover have "0x73 \<in> set cs \<Longrightarrow> \<forall>n. str_arg strs (putc c s) (esp n)" using st [of "[c]"] Cons by simp
        ultimately show thesis using less.hyps [of cs "i + 1" "putc c s" n] f(2) Cons that by auto
      qed
      have "printf_from junk f esp i n s = Some (fold putc (c # zs) s, i + of_nat (length xs))"
        using f False z unfolding e by (subst printf_from.simps) simp
      then show ?thesis ..
    qed
  qed
qed

text \<open>C27: \<open>printf\<close> terminates.  For every terminated format in which no conversion is cut off by the
  end, whatever the conversions and their arguments, it prints some characters and returns
  the length of the format; the words it prints as strings have to be strings outside the
  video memory.\<close>

theorem printf_returns:
  assumes "holds_str format xs" and "complete False xs" and "screen_ok s"
    and "0x73 \<in> set xs \<Longrightarrow> \<forall>n. str_arg strs s (esp n)"
  shows "\<exists>ys. printf junk format esp s = Some (fold putc ys s, of_nat (length xs))"
proof -
  have h: "at format 0 xs" "format (0 + of_nat (length xs)) = 0" "0 \<notin> set xs" using assms(1) by (simp_all add: holds_str_def at_def)
  show ?thesis using printf_from_returns [OF h assms(2-4), of junk 0] by (simp add: printf_def)
qed

theorem printf_returns_witness:
  "\<exists>ys. printf (\<lambda>_. 0) (\<lambda>i. if i < 5 then [0x25, 0x23, 0x23, 0x71, 0x41] ! unat i else 0) (\<lambda>_. 0) console_bss =
    Some (fold putc ys console_bss, 5)"
proof -
  let ?xs = "[0x25, 0x23, 0x23, 0x71, 0x41] :: u8 list"
  let ?f = "\<lambda>i :: u32. if i < 5 then ?xs ! unat i else 0"
  have "holds_str ?f ?xs" by (auto simp: holds_str_def less_Suc_eq)
  then show ?thesis using printf_returns [of ?f ?xs console_bss "\<lambda>_. []" "\<lambda>_. 0" "\<lambda>_. 0"] by simp
qed

end
