(* ===== verification/User_Support.thy ===== *)
theory User_Support
  imports Quiet_Calls
begin

text \<open>
  The library of the user programs (\<open>syscalls/ece391support.c\<close>).  It works on the memory of the
  program, so a string is an address in a memory; \<open>ece391_fdputs\<close> is the only routine that calls
  the kernel, through \<open>write\<close>.  The string routines are compared with those of the kernel.
\<close>

subsection \<open>Operations\<close>

partial_function (option) ece391_strlen_from :: "mem \<Rightarrow> u32 \<Rightarrow> u32 \<Rightarrow> u32 option" where
  "ece391_strlen_from m s len = (if 0 \<noteq> m s then ece391_strlen_from m (s + 1) (len + 1) else Some len)"

definition ece391_strlen :: "mem \<Rightarrow> u32 \<Rightarrow> u32 option" where
  "ece391_strlen m s = ece391_strlen_from m s 0"

partial_function (option) ece391_strcpy :: "mem \<Rightarrow> u32 \<Rightarrow> u32 \<Rightarrow> mem option" where
  "ece391_strcpy m dst src =
    (let c = m src; m' = m(dst := c)
     in if 0 \<noteq> c then ece391_strcpy m' (dst + 1) (src + 1) else Some m')"

definition ece391_fdputs :: "u8 \<Rightarrow> int \<Rightarrow> u32 \<Rightarrow> 'a kernel_scheme \<Rightarrow> 'a kernel_scheme option" where
  "ece391_fdputs prev i s st =
    do { len \<leftarrow> ece391_strlen (vmem st) s; (st, r) \<leftarrow> sys_write prev i s len st; Some st }"

partial_function (option) ece391_strcmp :: "mem \<Rightarrow> u32 \<Rightarrow> u32 \<Rightarrow> int option" where
  "ece391_strcmp m s1 s2 =
    (if m s1 = m s2 then if m s1 = 0 then Some 0 else ece391_strcmp m (s1 + 1) (s2 + 1)
     else Some (uint (m s1) - uint (m s2)))"

text \<open>The loop of \<open>ece391_strncmp\<close>, with \<open>n\<close> the counter, which is not zero when the loop begins.\<close>

fun ece391_strncmp_from :: "mem \<Rightarrow> u32 \<Rightarrow> u32 \<Rightarrow> nat \<Rightarrow> int" where
  "ece391_strncmp_from m s1 s2 0 = 0"
| "ece391_strncmp_from m s1 s2 (Suc n) =
    (if m s1 = m s2 then if m s1 = 0 \<or> n = 0 then 0 else ece391_strncmp_from m (s1 + 1) (s2 + 1) n
     else uint (m s1) - uint (m s2))"

definition ece391_strncmp :: "mem \<Rightarrow> u32 \<Rightarrow> u32 \<Rightarrow> u32 \<Rightarrow> int" where
  "ece391_strncmp m s1 s2 n = (if n = 0 then 0 else ece391_strncmp_from m s1 s2 (unat n))"

function ece391_strrev_loop :: "mem \<Rightarrow> u32 \<Rightarrow> int \<Rightarrow> int \<Rightarrow> mem" where
  "ece391_strrev_loop m s beg end' =
    (if beg < end' then
       let tmp = m (s + of_int end');
           m1 = m(s + of_int end' := m (s + of_int beg));
           m2 = m1(s + of_int beg := tmp)
       in ece391_strrev_loop m2 s (beg + 1) (end' - 1)
     else m)"
  by pat_completeness auto
termination
  by (relation "measure (\<lambda>(m, s, b, e). nat (e - b))") auto

declare ece391_strrev_loop.simps [simp del]

definition ece391_strrev :: "mem \<Rightarrow> u32 \<Rightarrow> mem option" where
  "ece391_strrev m s =
    do { len \<leftarrow> ece391_strlen m s;
         let end' = sint (len - 1);
         Some (if end' \<le> 0 then m else ece391_strrev_loop m s 0 end') }"

partial_function (option) ece391_itoa_loop :: "mem \<Rightarrow> u32 \<Rightarrow> u32 \<Rightarrow> u32 \<Rightarrow> (mem \<times> u32) option" where
  "ece391_itoa_loop m newbuf newval radix =
    (if newval > 0 then
       if radix = 0 \<or> \<not> unat (newval mod radix) < length lookup then None
       else ece391_itoa_loop (m(newbuf := lookup ! unat (newval mod radix)))
              (newbuf + 1) (newval div radix) radix
     else Some (m, newbuf))"

definition ece391_itoa :: "mem \<Rightarrow> u32 \<Rightarrow> u32 \<Rightarrow> u32 \<Rightarrow> mem option" where
  "ece391_itoa m value buf radix =
    (if value = 0 then Some (m(buf := 0x30, buf + 1 := 0))
     else do { (m', newbuf) \<leftarrow> ece391_itoa_loop m buf value radix;
               ece391_strrev (m'(newbuf := 0)) buf })"

subsection \<open>The same functions as in the kernel\<close>

lemma option_fun_eq:
  "(\<And>r. f = Some r \<Longrightarrow> g = Some r) \<Longrightarrow> (\<And>r. g = Some r \<Longrightarrow> f = Some r) \<Longrightarrow> f = g"
  by (cases f; cases g) auto

lemma strlen_from_user: "ece391_strlen_from m s l = Some r \<Longrightarrow> strlen_from (view m (s - l)) l = Some r"
proof (rule ece391_strlen_from.raw_induct [of "\<lambda>m s l r. strlen_from (view m (s - l)) l = Some r"], goal_cases)
  case (1 f m s l r)
  show ?case
  proof (cases "m s = 0")
    case True
    then show ?thesis using 1(3) by (subst strlen_from.simps) simp
  next
    case False
    then have "f m (s + 1) (l + 1) = Some r" using 1(3) by simp
    then have "strlen_from (view m (s + 1 - (l + 1))) (l + 1) = Some r" by (rule 1(2))
    moreover have "view m (s + 1 - (l + 1)) = view m (s - l)" by simp
    ultimately show ?thesis using False by (subst strlen_from.simps) simp
  qed
qed

lemma user_strlen_from: "strlen_from (view m p) l = Some r \<Longrightarrow> ece391_strlen_from m (p + l) l = Some r"
proof -
  have "strlen_from s l = Some r \<Longrightarrow> s = view m p \<longrightarrow> ece391_strlen_from m (p + l) l = Some r" for s
  proof (rule strlen_from.raw_induct [of "\<lambda>s l r. s = view m p \<longrightarrow> ece391_strlen_from m (p + l) l = Some r"], goal_cases)
    case (1 f s l r)
    show ?case
    proof (rule impI)
      assume s: "s = view m p"
      show "ece391_strlen_from m (p + l) l = Some r"
      proof (cases "m (p + l) = 0")
        case True
        then show ?thesis using 1(3) s by (subst ece391_strlen_from.simps) simp
      next
        case False
        then have "ece391_strlen_from m (p + (l + 1)) (l + 1) = Some r" using 1(2) 1(3) s by auto
        then show ?thesis using False by (subst ece391_strlen_from.simps) (simp add: add.assoc)
      qed
    qed
  qed
  then show "strlen_from (view m p) l = Some r \<Longrightarrow> ece391_strlen_from m (p + l) l = Some r" by blast
qed

lemma ece391_strlen_from_eq: "ece391_strlen_from m (p + l) l = strlen_from (view m p) l"
proof (rule option_fun_eq)
  fix r
  show "ece391_strlen_from m (p + l) l = Some r \<Longrightarrow> strlen_from (view m p) l = Some r"
    using strlen_from_user [of m "p + l" l r] by simp
qed (rule user_strlen_from)

lemma ece391_strlen_eq: "ece391_strlen m s = strlen (view m s)"
  using ece391_strlen_from_eq [of m s 0] by (simp add: ece391_strlen_def strlen_def)

lemma ece391_strrev_loop_eq: "ece391_strrev_loop m s b e = strrev_loop m s b e"
proof (induction m s b e rule: strrev_loop.induct)
  case (1 m s b e)
  show ?case
    unfolding ece391_strrev_loop.simps [of m s b e] strrev_loop.simps [of m s b e] Let_def
    by (cases "b < e") (simp_all only: if_True if_False 1 [OF _ refl refl refl])
qed

lemma ece391_strrev_eq: "ece391_strrev m s = strrev m s"
  by (auto simp: ece391_strrev_def strrev_def ece391_strlen_eq Let_def ece391_strrev_loop_eq
      strrev_loop.simps [of m s 0] split: bind_splits)

lemma ece391_itoa_loop_eq: "ece391_itoa_loop m p v r = itoa_loop m p v r"
proof (rule option_fun_eq)
  show "ece391_itoa_loop m p v r = Some x \<Longrightarrow> itoa_loop m p v r = Some x" for x
  proof (rule ece391_itoa_loop.raw_induct [of "\<lambda>m p v r x. itoa_loop m p v r = Some x"], goal_cases)
    case (1 f m p v r x)
    then show ?case by (subst itoa_loop.simps) (auto split: if_splits)
  qed
  show "itoa_loop m p v r = Some x \<Longrightarrow> ece391_itoa_loop m p v r = Some x" for x
  proof (rule itoa_loop.raw_induct [of "\<lambda>m p v r x. ece391_itoa_loop m p v r = Some x"], goal_cases)
    case (1 f m p v r x)
    then show ?case by (subst ece391_itoa_loop.simps) (auto split: if_splits)
  qed
qed

lemma ece391_itoa_eq: "ece391_itoa m v buf r = itoa m v buf r"
  by (simp add: ece391_itoa_def itoa_def ece391_itoa_loop_eq ece391_strrev_eq)

text \<open>The user library compares bytes, the kernel signed characters: the two agree on equality.\<close>

lemma ece391_strncmp_from_zero:
  "0 < n \<Longrightarrow> ece391_strncmp_from m (p + i) (q + i) n = 0 \<longleftrightarrow> strncmp_from (view m p) (view m q) i n = 0"
proof (induction n arbitrary: i)
  case (Suc n)
  then show ?case
    using Suc.IH [of "i + 1"] by (cases "n = 0") (auto simp: sint_eq_iff8 add.assoc word_uint_eq_iff [symmetric])
qed simp

lemma ece391_strncmp_zero: "ece391_strncmp m s1 s2 n = 0 \<longleftrightarrow> strncmp (view m s1) (view m s2) n = 0"
proof (cases "n = 0")
  case False
  then have "0 < unat n" by (simp add: unat_gt_0)
  then show ?thesis
    using ece391_strncmp_from_zero [of "unat n" m s1 0 s2] False by (simp add: ece391_strncmp_def strncmp_def)
qed (simp add: ece391_strncmp_def strncmp_def)

lemma ece391_strcmp_walk:
  assumes "\<forall>j<n. m (s1 + of_nat j) = m (s2 + of_nat j) \<and> m (s1 + of_nat j) \<noteq> 0"
  shows "ece391_strcmp m s1 s2 = ece391_strcmp m (s1 + of_nat n) (s2 + of_nat n)"
  using assms
proof (induction n)
  case (Suc n)
  then have "ece391_strcmp m s1 s2 = ece391_strcmp m (s1 + of_nat n) (s2 + of_nat n)"
    using less_SucI by blast
  also have "\<dots> = ece391_strcmp m (s1 + of_nat (Suc n)) (s2 + of_nat (Suc n))"
    using Suc.prems [rule_format, of n] by (subst ece391_strcmp.simps) (auto simp: ac_simps)
  finally show ?case .
qed simp

text \<open>\<open>ece391_strcmp\<close> always returns on two strings, and returns 0 when they are the same.\<close>

lemma ece391_strcmp_holds:
  assumes "holds_str (view m s1) xs" "holds_str (view m s2) ys"
  shows "\<exists>r. ece391_strcmp m s1 s2 = Some r \<and> (r = 0 \<longleftrightarrow> xs = ys)"
proof -
  define P where "P = (\<lambda>j. m (s1 + of_nat j) \<noteq> m (s2 + of_nat j) \<or> m (s1 + of_nat j) = 0)"
  have "P (length xs)" using assms(1) by (simp add: P_def holds_str_def)
  then obtain n where n: "P n" "\<forall>j<n. \<not> P j" by (metis exists_least_iff)
  then have w: "ece391_strcmp m s1 s2 = ece391_strcmp m (s1 + of_nat n) (s2 + of_nat n)"
    by (intro ece391_strcmp_walk) (simp add: P_def)
  have lx: "n \<le> length xs" using n(2) \<open>P (length xs)\<close> by (meson not_le)
  have nz: "m (s1 + of_nat j) \<noteq> 0" "m (s1 + of_nat j) = m (s2 + of_nat j)" if "j < n" for j
    using n(2) that by (simp_all add: P_def)
  have ly: "n \<le> length ys"
  proof (rule ccontr)
    assume "\<not> n \<le> length ys"
    then have "m (s1 + of_nat (length ys)) \<noteq> 0" "m (s1 + of_nat (length ys)) = m (s2 + of_nat (length ys))"
      using nz by simp_all
    then show False using assms(2) by (simp add: holds_str_def)
  qed
  have at: "m (s1 + of_nat j) = (if j < length xs then xs ! j else 0)" if "j \<le> length xs" for j
    using assms(1) that by (auto simp: holds_str_def)
  have bt: "m (s2 + of_nat j) = (if j < length ys then ys ! j else 0)" if "j \<le> length ys" for j
    using assms(2) that by (auto simp: holds_str_def)
  have z: "0 \<notin> set xs" "0 \<notin> set ys" using assms by (simp_all add: holds_str_def)
  have same: "xs ! j = ys ! j" if "j < n" for j
    using nz [OF that] at [of j] bt [of j] that lx ly by simp
  show ?thesis
  proof (cases "m (s1 + of_nat n) = m (s2 + of_nat n)")
    case True
    then have "m (s1 + of_nat n) = 0" using n(1) by (simp add: P_def)
    then have "n = length xs" "n = length ys"
      using at [OF lx] bt [OF ly] True z lx ly by (auto simp: in_set_conv_nth split: if_splits)
    then have "xs = ys" using same by (intro nth_equalityI) auto
    then show ?thesis
      using w True \<open>m (s1 + of_nat n) = 0\<close> by (simp add: ece391_strcmp.simps [of m "s1 + of_nat n"])
  next
    case False
    then have "xs \<noteq> ys" using at [OF lx] bt [OF ly] by auto
    then show ?thesis
      using w False by (simp add: ece391_strcmp.simps [of m "s1 + of_nat n"] word_uint_eq_iff [symmetric])
  qed
qed

end
