(* ===== verification/User_Calls.thy ===== *)
theory User_Calls
  imports User_Support
begin

text \<open>
  The system calls as a program sees them that runs on the terminal that is shown: \<open>write\<close> to
  descriptor 1 prints a buffer on the screen, \<open>read\<close> fills it and leaves the screen alone, \<open>getargs\<close>
  copies the argument.
\<close>

subsection \<open>A program on the screen\<close>

text \<open>Process \<open>n\<close> runs on terminal \<open>k\<close>, which is shown.\<close>

definition foreground :: "'a kernel_scheme \<Rightarrow> nat \<Rightarrow> nat \<Rightarrow> bool" where
  "foreground s k n \<longleftrightarrow> shown s k \<and> n < 6 \<and> curr_terminal s = of_nat k \<and> length (terminals s) = 3 \<and>
     running_pcb s = Some (pcb_ptr (of_nat n)) \<and> current_pcb s = pcb_ptr (of_nat n) \<and>
     user_frame s = frame_of (of_nat n) \<and> running_ok s \<and> screen_ok s"

lemma video_unat: "in_video a \<Longrightarrow> 753664 \<le> unat a \<and> unat a < 757664"
proof -
  assume "in_video a"
  then have "unat (a - 0xB8000) < 4000" by (simp add: in_video_def)
  then show ?thesis using unat_sub_if' [of a "0xB8000"] unat_lt32 [of a] by (auto split: if_splits)
qed

lemma video_frame: "in_video a \<Longrightarrow> n < 6 \<Longrightarrow> \<not> in_frame (frame_of (of_nat n)) a"
proof -
  assume a: "in_video a" "n < 6"
  then have "unat (frame_of (of_nat n)) = (n + 2) * 4194304" by (simp add: frame_of_unat)
  then show ?thesis
    using video_unat [OF a(1)] a(2) unat_sub_if' [of a "frame_of (of_nat n)"] by (simp add: in_frame_def)
qed

lemma video_kernel: "kernel_range a sz \<Longrightarrow> x < sz \<Longrightarrow> \<not> in_video (a + of_nat x)"
  using video_unat [of "a + of_nat x"] kernel_range_nth [of a sz x] by (auto simp: kernel_range_def)

lemma video_window: "in_video a \<Longrightarrow> \<not> in_user_window a"
  using video_unat [of a] by (auto simp: in_user_window_def word_le_nat_alt)

lemma foreground_frame: "foreground s k n \<Longrightarrow> frame_ok s"
  by (auto simp: foreground_def frame_ok_def)

text \<open>A user address is not in video memory, nor is a byte of the image.\<close>

lemma foreground_vaddr: "foreground s k n \<Longrightarrow> in_user_window va \<Longrightarrow> \<not> in_video (vaddr s va)"
  using video_frame [of "vaddr s va" n] in_frame_window [of va "user_frame s"]
  by (auto simp: foreground_def vaddr_def)

subsection \<open>Printing\<close>

lemma fold_putc_fs [frame_simps]:
  "file_sys (fold putc xs s) = file_sys s" "dentry_addr (fold putc xs s) = dentry_addr s"
  "dir_read_loc (fold putc xs s) = dir_read_loc s" "page_directory (fold putc xs s) = page_directory s"
  by (induction xs arbitrary: s) (simp_all add: frame_simps)

lemma fold_putc_kernel:
  fixes s :: "'a kernel_scheme"
  shows "pcbs (fold putc xs s) = pcbs s" "op_tables (fold putc xs s) = op_tables s"
    "current_pcb (fold putc xs s) = current_pcb s" "process_array (fold putc xs s) = process_array s"
proof -
  have "console.more (fold putc xs s) = console.more s" by (simp add: frame_simps)
  then show "pcbs (fold putc xs s) = pcbs s" "op_tables (fold putc xs s) = op_tables s"
    "current_pcb (fold putc xs s) = current_pcb s" "process_array (fold putc xs s) = process_array s"
    by (cases s, cases "fold putc xs s", simp)+
qed

lemma fold_putc_running:
  fixes s :: "'a kernel_scheme"
  shows "running_pcb (fold putc xs s) = running_pcb s" "running_table (fold putc xs s) = running_table s"
    "running_ok (fold putc xs s) = running_ok s" "user_frame (fold putc xs s) = user_frame s"
proof -
  show r: "running_pcb (fold putc xs s) = running_pcb s" by (rule running_pcb_cong) (simp_all add: frame_simps)
  have f: "fd_table (fold putc xs s) = fd_table s" by (simp add: fun_eq_iff fd_table_def fold_putc_kernel)
  show "running_table (fold putc xs s) = running_table s" by (cases "running_pcb s") (simp_all add: running_table_def r f)
  show "running_ok (fold putc xs s) = running_ok s"
    by (simp add: running_ok_def r fds_ok_def f proc_block_def tables_ok_def init_operation_table_def fold_putc_kernel)
  show "user_frame (fold putc xs s) = user_frame s" by (simp add: user_frame_def frame_simps)
qed

lemma foreground_putc: "foreground s k n \<Longrightarrow> foreground (fold putc xs s) k n"
  by (simp add: foreground_def shown_def frame_simps fold_putc_running fold_putc_kernel fold_putc_screen_ok)

lemma program_at_putc:
  assumes "foreground s k n" "program_at s node sz fl"
  shows "program_at (fold putc xs s) node sz fl"
proof (rule program_at_cong [OF assms(2)])
  show "frame_ok (fold putc xs s)" using foreground_frame [OF foreground_putc [OF assms(1)]] .
  show "phys (fold putc xs s) (dentry_addr s + of_nat x) = phys s (dentry_addr s + of_nat x)" if "x < sz" for x
    using assms that by (intro fold_putc_phys_frame video_kernel) (auto simp: foreground_def program_at_def)
qed (simp_all add: frame_simps)

lemma foreground_terminal: "foreground s k n \<Longrightarrow> uint (curr_terminal s) = int k \<and> current_id s - 1 = int k"
proof -
  assume f: "foreground s k n"
  then have "k = 0 \<or> k = 1 \<or> k = 2" by (auto simp: foreground_def shown_def)
  moreover have "curr_terminal s = of_nat k" "current_id s = int k + 1" using f by (simp_all add: foreground_def shown_def)
  ultimately show ?thesis by auto
qed

lemma foreground_shown_pcb:
  assumes "foreground s k n"
  shows "shown_pcb s = running_pcb s"
  using foreground_terminal [OF assms] by (simp add: shown_pcb_def running_pcb_def get_terminal_id_def)

lemma foreground_write:
  assumes f: "foreground s k n" and b: "\<forall>j<c. in_user_window (buf + of_nat j)" "0 < c" "c < 2147483648"
  shows "sys_write prev 1 buf (of_nat c) s = Some (fold putc (bytes (vmem s) buf c) s, int c)"
proof -
  obtain p where p: "running_pcb s = Some p" "fds_ok s p" "proc_block s p" "tables_ok s"
    using f by (auto simp: foreground_def running_ok_def fds_ok_def)
  have "fd_abs (fd (pcbs s p) ! 1) = Some Stream_out" using p(2) by (simp add: fds_ok_def fd_table_def)
  then have d: "flags (fd (pcbs s p) ! 1) \<noteq> 0" "op_table (fd (pcbs s p) ! 1) = Stdout_table"
    by (cases "op_table (fd (pcbs s p) ! 1)"; auto simp: fd_abs_def split: if_splits)+
  have sh: "uint (curr_terminal s) = current_id s - 1" using foreground_terminal [OF f] by simp
  have buf: "buf \<noteq> 0" using b(1) [rule_format, of 0] b(2) by (auto simp: in_user_window_def)
  have "write_putc buf 0 c s = fold putc (map (\<lambda>j. vmem s (buf + of_nat j)) [0..<0 + c]) s"
    using b(1) foreground_vaddr [OF f] f [unfolded foreground_def] by (intro write_putc_fold) simp_all
  then have "terminal_write buf (int c) s = Some (fold putc (bytes (vmem s) buf c) s, int c)"
    by (simp add: terminal_write_def sh bytes_def)
  moreover have "sint (of_nat c :: u32) = int c" using b(3) by (rule sint_of_nat32)
  ultimately show ?thesis
    using p d buf
    by (simp add: sys_write_def foreground_shown_pcb [OF f] proc_block_fd tables_ok_at [OF p(4)] call_write_def)
qed

subsection \<open>Filling a buffer\<close>

lemma foreground_cong:
  fixes s s' :: "'a kernel_scheme"
  assumes "foreground s k n" "terminals s' = terminals s" "curr_terminal s' = curr_terminal s" "current_id s' = current_id s"
    "current_pcb s' = current_pcb s" "user_frame s' = user_frame s" "screen_x s' = screen_x s" "screen_y s' = screen_y s" "running_ok s'"
  shows "foreground s' k n"
proof -
  have "running_pcb s' = running_pcb s" using assms(2,3) by (rule running_pcb_cong)
  then show ?thesis using assms by (simp add: foreground_def shown_def screen_ok_def)
qed

lemma set_vmem_console [simp]:
  fixes s :: "'a console_scheme"
  shows "terminals (set_vmem m s) = terminals s" "curr_terminal (set_vmem m s) = curr_terminal s"
    "current_id (set_vmem m s) = current_id s" "screen_x (set_vmem m s) = screen_x s" "screen_y (set_vmem m s) = screen_y s"
    "dir_read_loc (set_vmem m s) = dir_read_loc s"
  by (simp_all add: set_vmem_def)

lemma set_vmem_running:
  fixes s :: "'a kernel_scheme"
  shows "running_table (set_vmem m s) = running_table s" "running_ok (set_vmem m s) = running_ok s"
proof -
  have f: "fd_table (set_vmem m s) = fd_table s" by (simp add: fun_eq_iff fd_table_def frame_simps)
  show "running_table (set_vmem m s) = running_table s" by (cases "running_pcb s") (simp_all add: running_table_def f)
  show "running_ok (set_vmem m s) = running_ok s"
    by (simp add: running_ok_def fds_ok_def f proc_block_def tables_ok_def init_operation_table_def frame_simps)
qed

text \<open>The screen depends on the video memory and the position.\<close>

lemma screen_of_video:
  assumes "\<And>a. in_video a \<Longrightarrow> phys s' a = phys s a" "screen_x s' = screen_x s" "screen_y s' = screen_y s"
  shows "screen_of s' = screen_of s"
proof -
  have "in_video (VIDEO + of_nat (2 * (80 * y + x)))" if "x < 80" "y < 25" for x y :: nat
    using that cell_lt [of x y] by (simp add: in_video_def unat_of_nat32 del: of_nat_mult of_nat_add)
  then have "grid (phys s') VIDEO = grid (phys s) VIDEO"
    using assms(1) by (auto simp: grid_def fun_eq_iff)
  then show ?thesis using assms(2,3) by (simp add: screen_of_def)
qed

text \<open>What a call writes to a user buffer does not show on the screen.\<close>

lemma user_store:
  fixes s :: "'a kernel_scheme" and g :: "nat \<Rightarrow> u8"
  assumes f: "foreground s k n" and b: "\<forall>j<c. in_user_window (buf + of_nat j)"
  defines "s' \<equiv> set_vmem (overlay (vmem s) buf c g) s"
  shows "foreground s' k n" "screen_of s' = screen_of s" "j < c \<Longrightarrow> c \<le> 4294967296 \<Longrightarrow> vmem s' (buf + of_nat j) = g j"
proof -
  show "foreground s' k n" unfolding s'_def
    by (rule foreground_cong [OF f])
      (use f in \<open>simp_all add: frame_simps set_vmem_running foreground_def\<close>)
  have "phys s' a = phys s a" if "in_video a" for a
    unfolding s'_def using b video_frame [OF that] f by (intro set_vmem_block) (auto simp: foreground_def)
  then show "screen_of s' = screen_of s" by (rule screen_of_video) (simp_all add: s'_def)
  show "j < c \<Longrightarrow> c \<le> 4294967296 \<Longrightarrow> vmem s' (buf + of_nat j) = g j"
    unfolding s'_def using b by (simp add: vmem_set_window overlay_inside)
qed

lemma screen_of_pcbs [simp]: "screen_of (s\<lparr>pcbs := g\<rparr>) = screen_of s"
  by (simp add: screen_of_def)

lemma program_at_pcbs: "program_at s node sz fl \<Longrightarrow> program_at (s\<lparr>pcbs := g\<rparr>) node sz fl"
  by (rule program_at_cong) (auto simp: program_at_def frame_ok_def user_frame_def)

lemma program_file_ready:
  assumes "program_at s node sz fl" "reads_file s i node pos"
  shows "file_ready s i node pos sz"
proof -
  have k: "kernel_range (dentry_addr s) sz" "frame_ok s" using assms(1) by (simp_all add: program_at_def)
  have "image_kernel s sz" using kernel_range_view [OF k] by (simp add: image_kernel_def)
  then show ?thesis using assms program_at_length [OF assms(1)] by (simp add: file_ready_def program_at_def)
qed

lemma tame_reads_file:
  assumes "reads_file s i node pos" "sys_read env junk (int i) buf nb s = Some (s', r)"
  shows "tame_here s s'"
proof -
  obtain p where p: "running_pcb s = Some p" "fd_at s p i = Some (fd (pcbs s p) ! i)" "flags (fd (pcbs s p) ! i) \<noteq> 0"
    "op_table (fd (pcbs s p) ! i) = File_table"
    using reads_file_fd [OF assms(1)] by blast
  have "tables_ok s" "i < 8" using assms(1) by (auto simp: reads_file_def running_ok_def)
  then have "file_read i buf nb s = Some (s', r)"
    using assms(2) p by (simp add: sys_read_def tables_ok_at call_read_def)
  then show ?thesis by (rule tame_file_read)
qed

lemma foreground_file_read:
  fixes s :: "'a kernel_scheme" and c :: nat
  assumes f: "foreground s k n" and r: "reads_file s i node pos" and p: "program_at s node sz fl" and u: "user_buf s buf c sz"
    and d: "read_data s (vmem s) node pos buf nb = (overlay (vmem s) buf c g, of_nat c)"
  defines "q \<equiv> pos + of_nat c"
  shows "\<exists>s'. sys_read env junk (int i) buf nb s = Some (s', if unat q > length fl then 0 else int c) \<and>
    foreground s' k n \<and> reads_file s' i node (if unat q > length fl then 0 else q) \<and> program_at s' node sz fl \<and>
    dentry_addr s' = dentry_addr s \<and> screen_of s' = screen_of s \<and> (\<forall>j<c. vmem s' (buf + of_nat j) = g j) \<and> tame_here s s'"
proof -
  have l: "q > inode_length s (vmem s) node \<longleftrightarrow> unat q > length fl"
    using program_at_length [OF p] by (simp add: word_less_nat_alt)
  note file_read_effect [OF program_file_ready [OF p r] u d, of env junk, folded q_def, unfolded l]
  then obtain s' h where s': "sys_read env junk (int i) buf nb s = Some (s', if unat q > length fl then 0 else int c)"
    "file_ready s' i node (if unat q > length fl then 0 else q) sz" "\<forall>j<c. vmem s' (buf + of_nat j) = g j"
    "s' = (set_vmem (overlay (vmem s) buf c g) s)\<lparr>pcbs := h\<rparr>" by blast
  have rf: "reads_file s' i node (if unat q > length fl then 0 else q)" using s'(2) by (simp add: file_ready_def)
  let ?t = "set_vmem (overlay (vmem s) buf c g) s"
  have b: "\<forall>j<c. in_user_window (buf + of_nat j)" "sep buf c (dentry_addr s) sz" using u by (simp_all add: user_buf_def)
  have "foreground s' k n" unfolding s'(4)
    by (rule foreground_cong [OF user_store(1) [OF f b(1), of g]])
      (use rf [unfolded reads_file_def s'(4)] in \<open>simp_all add: user_frame_def\<close>)
  moreover have "program_at s' node sz fl"
    unfolding s'(4) by (rule program_at_pcbs [OF program_at_write [OF p b(2)]])
  moreover have "screen_of s' = screen_of s" unfolding s'(4) using user_store(2) [OF f b(1), of g] by simp
  moreover have "dentry_addr s' = dentry_addr s" unfolding s'(4) by (simp add: frame_simps)
  ultimately show ?thesis using s'(1,3) rf tame_reads_file [OF r s'(1)] by blast
qed

subsection \<open>The argument\<close>

lemma foreground_getargs:
  assumes f: "foreground s k n" and a: "pcb_arg (pcb_of s n) = as @ 0 # r" "0 \<notin> set as" "length as < 4294967296"
    and z: "arg_size (pcb_of s n) \<noteq> 0" and buf: "buf \<noteq> 0"
  shows "getargs buf nb s = Some (set_vmem (overlay (vmem s) buf (Suc (length as)) (bytes_at as)) s, 0)"
proof -
  have p: "running_pcb s = Some (pcb_ptr (of_nat n))" "current_pcb s = pcb_ptr (of_nat n)" "n < 6"
    using f by (simp_all add: foreground_def)
  then have "shown_pcb s = Some (pcb_ptr (of_nat n))" using foreground_shown_pcb [OF f] by simp
  moreover have "pcb_at s (pcb_ptr (of_nat n)) = Some (pcb_of s n)"
    using p(3) unfolding less_6_iff by (auto simp: pcb_at_def)
  moreover have "line_size (pcb_arg (pcb_of s n)) 0 = Some (length as)"
    using a(2) by (intro line_size_walk) (auto simp: a(1) nth_append in_set_conv_nth)
  moreover have "strcpy (vmem s) buf (array_str (pcb_arg (pcb_of s n))) =
      Some (overlay (vmem s) buf (Suc (length as)) (bytes_at as))"
    unfolding a(1) by (rule strcpy_holds [OF array_str_holds [OF a(2,3)]])
  ultimately show ?thesis using p(2) z buf by (simp add: getargs_def)
qed

subsection \<open>Opening by name\<close>

text \<open>The first directory entry with the first 32 characters of a name.\<close>

definition entry_at :: "'a fs_scheme \<Rightarrow> mem \<Rightarrow> u8 list \<Rightarrow> u32 \<Rightarrow> u32 \<Rightarrow> bool" where
  "entry_at s m nm ty node \<longleftrightarrow> (\<exists>e. find (\<lambda>j. entry_name s m j = take 32 nm) [0..<63] = Some e \<and>
     ty = load32 m (dentry_ptr s (of_nat e) + 32) \<and> node = load32 m (dentry_ptr s (of_nat e) + 36))"

lemma entry_at_cong:
  assumes "file_sys s' = file_sys s" "\<forall>x<4096. m' (file_sys s + of_nat x) = m (file_sys s + of_nat x)"
  shows "entry_at s' m' nm ty node = entry_at s m nm ty node"
proof -
  have a: "m' (dentry_ptr s (of_nat j) + of_nat x) = m (dentry_ptr s (of_nat j) + of_nat x)" if "j < 63" "x < 64" for j x
    using assms(2) [rule_format, of "64 + 64 * j + x"] that by (simp add: dentry_ptr_def add.assoc)
  have d: "dentry_ptr s' = dentry_ptr s" by (simp add: fun_eq_iff dentry_ptr_def assms(1))
  have n: "entry_name s' m' j = entry_name s m j" if "j < 63" for j
    unfolding entry_name_def d using a [OF that] by (intro chars_cong) simp
  have w: "load32 m' (dentry_ptr s (of_nat j) + of_nat x) = load32 m (dentry_ptr s (of_nat j) + of_nat x)" if "j < 63" "x + 4 \<le> 64" for j x
    using a [OF that(1), of x] a [OF that(1), of "x + 1"] a [OF that(1), of "x + 2"] a [OF that(1), of "x + 3"] that(2)
    by (intro load32_cong) (simp_all add: ac_simps)
  have "find (\<lambda>j. entry_name s' m' j = take 32 nm) [0..<63] = find (\<lambda>j. entry_name s m j = take 32 nm) [0..<63]"
    by (rule find_cong [OF refl]) (simp add: n)
  moreover have "e < 63" if "find (\<lambda>j. entry_name s m j = take 32 nm) [0..<63] = Some e" for e
    using find_least [OF that] by simp
  ultimately show ?thesis
    unfolding entry_at_def d using w [of _ 32] w [of _ 36] by auto
qed

lemma chars_name:
  assumes "holds_str (view m p) nm" "length nm < 4294967200"
  shows "chars (view m p) 0 32 = take 32 nm"
proof -
  have "chars (view m p) (of_nat 0) (length nm + 32) = nm"
    using assms by (intro chars_array) (auto simp: holds_str_def)
  then show ?thesis using chars_prefix [of 32 "length nm + 32" "view m p" 0] by simp
qed

lemma foreground_open:
  assumes f: "foreground s k n" and h: "holds_str (view (vmem s) p) nm" "nm \<noteq> []" "length nm < 4294967200" "p \<noteq> 0"
    and e: "entry_at s (vmem s) nm ty node" and i: "free_slot (running_table s) = Some i"
  shows "\<exists>s' g. sys_open junk p s = Some (s', int i) \<and> s' = s\<lparr>pcbs := g\<rparr> \<and>
    foreground s' k n \<and> running_table s' = (running_table s)(i \<mapsto> opened ty node) \<and> tame_here s s'"
proof -
  have ok: "running_ok s" using f by (simp add: foreground_def)
  have "names_file s p ty node"
    using e h unfolding names_file_def entry_at_def chars_name [OF h(1,3)] by blast
  then have o: "sys_open junk p s = open_entry (ty, node) s" by (rule sys_open_entry [OF ok])
  obtain s' where s': "open_entry (ty, node) s = Some (s', int i)" "running_ok s'"
    "running_table s' = (running_table s)(i \<mapsto> opened ty node)"
    using open_entry_table [OF ok, of "(ty, node)"] i by auto
  obtain g where g: "s' = s\<lparr>pcbs := g\<rparr>" using open_entry_pcbs [OF ok s'(1)] by blast
  have "foreground s' k n" unfolding g
    by (rule foreground_cong [OF f]) (use s'(2) [unfolded g] in \<open>simp_all add: user_frame_def\<close>)
  then show ?thesis using o s' g tame_open [of junk p s s'] by auto
qed

subsection \<open>The directory\<close>

text \<open>Kernel memory is not changed by a write to the user window or to the screen.\<close>

lemma kernel_keeps:
  assumes a: "kernel_range a sz" "frame_ok s" "x < sz" and b: "\<forall>j<c. in_user_window (buf + of_nat j)"
  shows "vmem (set_vmem (overlay (vmem s) buf c g) s) (a + of_nat x) = vmem s (a + of_nat x)"
proof -
  have v: "\<not> in_user_window (a + of_nat x)" "\<not> in_frame (user_frame s) (a + of_nat x)"
    using kernel_range_view [OF a] by simp_all
  have "\<not> unat (a + of_nat x - buf) < c"
    using b [rule_format, of "unat (a + of_nat x - buf)"] v(1) by auto
  then show ?thesis by (simp add: vmem_set_kernel [OF v] overlay_outside)
qed

lemma kernel_keeps_putc:
  assumes "foreground s k n" "kernel_range a sz" "x < sz"
  shows "vmem (fold putc xs s) (a + of_nat x) = vmem s (a + of_nat x)"
proof -
  have "screen_ok s" using assms(1) by (simp add: foreground_def)
  then show ?thesis
    using kernel_range_vmem(1) [OF assms(2) foreground_frame [OF assms(1)] assms(3)]
      kernel_range_vmem(1) [OF assms(2) foreground_frame [OF foreground_putc [OF assms(1)]] assms(3)]
      fold_putc_phys_frame [OF _ video_kernel [OF assms(2,3)]] by simp
qed

text \<open>The names of the directory, in order.  A name of 32 characters belongs to a regular file.\<close>

definition directory :: "'a fs_scheme \<Rightarrow> mem \<Rightarrow> u8 list list \<Rightarrow> bool" where
  "directory s m names \<longleftrightarrow> unat (num_dentry s m) = length names \<and>
     (\<forall>j<length names. entry_name s m j = names ! j \<and> names ! j \<noteq> [] \<and>
        (length (names ! j) = 32 \<longrightarrow> load32 m (dentry_ptr s (of_nat j) + 32) = 2))"

lemma directory_cong:
  assumes "file_sys s' = file_sys s"
    and eq: "\<forall>x<64 + 64 * length names. m' (file_sys s + of_nat x) = m (file_sys s + of_nat x)" and d: "directory s m names"
  shows "directory s' m' names"
proof -
  have a: "m' (dentry_ptr s (of_nat j) + of_nat x) = m (dentry_ptr s (of_nat j) + of_nat x)" if "j < length names" "x < 64" for j x
    using eq [rule_format, of "64 + 64 * j + x"] that by (simp add: dentry_ptr_def add.assoc)
  have p: "dentry_ptr s' = dentry_ptr s" by (simp add: fun_eq_iff dentry_ptr_def assms(1))
  have "num_dentry s' m' = num_dentry s m"
    unfolding num_dentry_def assms(1)
    using eq [rule_format, of 0] eq [rule_format, of 1] eq [rule_format, of 2] eq [rule_format, of 3] by (intro load32_cong) simp_all
  moreover have "entry_name s' m' j = entry_name s m j" if "j < length names" for j
    unfolding entry_name_def p using a [OF that] by (intro chars_cong) simp
  moreover have "load32 m' (dentry_ptr s (of_nat j) + 32) = load32 m (dentry_ptr s (of_nat j) + 32)" if "j < length names" for j
    using a [OF that, of 32] a [OF that, of 33] a [OF that, of 34] a [OF that, of 35] by (intro load32_cong) (simp_all add: ac_simps)
  ultimately show ?thesis using d by (simp add: directory_def p)
qed

lemma directory_read:
  assumes d: "directory s m names" and c: "dir_read_loc s = int c" "c < length names"
  shows "\<exists>f. dir_read temp buf s m = Some (s\<lparr>dir_read_loc := int (Suc c)\<rparr>, overlay m buf 33 f, of_nat (length (names ! c))) \<and>
    (\<forall>j<length (names ! c). f j = names ! c ! j) \<and> names ! c \<noteq> [] \<and> length (names ! c) \<le> 32"
proof -
  have e: "entry_name s m (nat (dir_read_loc s)) = names ! c" "names ! c \<noteq> []"
    "length (names ! c) = 32 \<Longrightarrow> load32 m (dentry_ptr s (of_int (dir_read_loc s)) + 32) = 2"
    using d c by (simp_all add: directory_def)
  have r: "0 \<le> dir_read_loc s" "dir_read_loc s < int (unat (num_dentry s m))" using d c by (simp_all add: directory_def)
  have le: "length (names ! c) \<le> 32" using chars_length unfolding e(1) [symmetric] entry_name_def .
  show ?thesis
  proof (cases "length (names ! c) = 32")
    case True
    then show ?thesis
      using dir_read_full [OF r, of temp buf, unfolded e(1)] e(2,3) c(1)
      by (intro exI [of _ "bytes_at (names ! c @ [2])"]) (auto simp: bytes_at_def nth_append add.commute)
  next
    case False
    then show ?thesis
      using dir_read_short [OF r, of temp buf, unfolded e(1)] e(2) c(1) le
      by (intro exI [of _ "bytes_at (names ! c)"]) (auto simp: bytes_at_def add.commute)
  qed
qed

text \<open>Descriptor \<open>i\<close> is the directory.\<close>

lemma foreground_dir_read:
  fixes s :: "'a kernel_scheme"
  assumes f: "foreground s k n" and i: "i < 8" "running_table s i = Some Directory"
  shows "sys_read env junk (int i) buf nb s =
    do { (s', m, c) \<leftarrow> dir_read junk buf s (vmem s); Some (set_vmem m s', sint c) }"
proof -
  obtain p where p: "running_pcb s = Some p" "fds_ok s p" "proc_block s p" "tables_ok s"
    using f by (auto simp: foreground_def running_ok_def fds_ok_def)
  have "fd_abs (fd (pcbs s p) ! i) = Some Directory" using i p(1) by (simp add: running_table_def fd_table_def)
  then have "flags (fd (pcbs s p) ! i) \<noteq> 0" "op_table (fd (pcbs s p) ! i) = Dir_table"
    by (cases "op_table (fd (pcbs s p) ! i)"; auto simp: fd_abs_def split: if_splits)+
  then show ?thesis
    using p i(1) by (simp add: sys_read_def proc_block_fd tables_ok_at [OF p(4)] call_read_def)
qed

end
