(* ===== verification/User_Programs.thy ===== *)
theory User_Programs
  imports User_Calls
begin

text \<open>
  Programs of the system (\<open>syscalls/ece391cat.c\<close> and \<open>ece391ls.c\<close>) on the modelled kernel: a
  program is what its \<open>main\<close> does to the state through the system calls, with its exit status.

  \<open>h n\<close> is what the \<open>n\<close>-th call of the program reads from the outside: the interrupts taken while
  it waits, the contents of the kernel's uninitialised locals, and the byte an \<open>inb\<close> returns.
  \<open>lit\<close> gives the addresses of the string literals, \<open>buf\<close> is the address of the local buffer.
\<close>

subsection \<open>Programs\<close>

record 's sys_env =
  during :: "('s \<Rightarrow> 's option) list"
  locals :: mem
  port :: u8

abbreviation nl :: "string \<Rightarrow> u8 list" where
  "nl str \<equiv> ascii str @ [0x0A]"

text \<open>One round of the loop of \<open>cat\<close>; the second component is the exit status, if it is left.\<close>

definition cat_step :: "(nat \<Rightarrow> 'a kernel_scheme sys_env) \<Rightarrow> (u8 list \<Rightarrow> u32) \<Rightarrow> u32 \<Rightarrow> int \<Rightarrow> nat \<Rightarrow>
    'a kernel_scheme \<Rightarrow> ('a kernel_scheme \<times> int option) option" where
  "cat_step h lit buf i n s =
    do { (s, cnt) \<leftarrow> sys_read (during (h n)) (locals (h n)) i buf 1024 s;
         if cnt = 0 then Some (s, Some 0)
         else if cnt = -1 then
           do { s \<leftarrow> ece391_fdputs (port (h (n + 1))) 1 (lit (nl ''file read failed'')) s; Some (s, Some 3) }
         else
           do { (s, r) \<leftarrow> sys_write (port (h (n + 1))) 1 buf (of_int cnt) s;
                Some (s, if r = -1 then Some 3 else None) } }"

partial_function (option) cat_loop :: "(nat \<Rightarrow> 'a kernel_scheme sys_env) \<Rightarrow> (u8 list \<Rightarrow> u32) \<Rightarrow> u32 \<Rightarrow> int \<Rightarrow> nat \<Rightarrow>
    'a kernel_scheme \<Rightarrow> ('a kernel_scheme \<times> int) option" where
  "cat_loop h lit buf i n s =
    do { (s, r) \<leftarrow> cat_step h lit buf i n s;
         case r of None \<Rightarrow> cat_loop h lit buf i (n + 2) s | Some v \<Rightarrow> Some (s, v) }"

definition cat :: "(nat \<Rightarrow> 'a kernel_scheme sys_env) \<Rightarrow> (u8 list \<Rightarrow> u32) \<Rightarrow> u32 \<Rightarrow>
    'a kernel_scheme \<Rightarrow> ('a kernel_scheme \<times> int) option" where
  "cat h lit buf s =
    do { (s, r) \<leftarrow> getargs buf 1024 s;
         if 0 \<noteq> r then
           do { s \<leftarrow> ece391_fdputs (port (h 1)) 1 (lit (nl ''could not read arguments'')) s; Some (s, 3) }
         else
           do { (s, i) \<leftarrow> sys_open (locals (h 1)) buf s;
                if -1 = i then
                  do { s \<leftarrow> ece391_fdputs (port (h 2)) 1 (lit (nl ''file not found'')) s; Some (s, 2) }
                else cat_loop h lit buf i 2 s } }"

definition ls_step :: "(nat \<Rightarrow> 'a kernel_scheme sys_env) \<Rightarrow> (u8 list \<Rightarrow> u32) \<Rightarrow> u32 \<Rightarrow> int \<Rightarrow> nat \<Rightarrow>
    'a kernel_scheme \<Rightarrow> ('a kernel_scheme \<times> int option) option" where
  "ls_step h lit buf i n s =
    do { (s, cnt) \<leftarrow> sys_read (during (h n)) (locals (h n)) i buf 32 s;
         if cnt = 0 then Some (s, Some 0)
         else if cnt = -1 then
           do { s \<leftarrow> ece391_fdputs (port (h (n + 1))) 1 (lit (nl ''directory entry read failed'')) s; Some (s, Some 3) }
         else
           do { let s = set_vmem ((vmem s)(buf + of_int cnt := 0x0A)) s;
                (s, r) \<leftarrow> sys_write (port (h (n + 1))) 1 buf (of_int (cnt + 1)) s;
                Some (s, if r = -1 then Some 3 else None) } }"

partial_function (option) ls_loop :: "(nat \<Rightarrow> 'a kernel_scheme sys_env) \<Rightarrow> (u8 list \<Rightarrow> u32) \<Rightarrow> u32 \<Rightarrow> int \<Rightarrow> nat \<Rightarrow>
    'a kernel_scheme \<Rightarrow> ('a kernel_scheme \<times> int) option" where
  "ls_loop h lit buf i n s =
    do { (s, r) \<leftarrow> ls_step h lit buf i n s;
         case r of None \<Rightarrow> ls_loop h lit buf i (n + 2) s | Some v \<Rightarrow> Some (s, v) }"

definition ls :: "(nat \<Rightarrow> 'a kernel_scheme sys_env) \<Rightarrow> (u8 list \<Rightarrow> u32) \<Rightarrow> u32 \<Rightarrow>
    'a kernel_scheme \<Rightarrow> ('a kernel_scheme \<times> int) option" where
  "ls h lit buf s =
    do { (s, i) \<leftarrow> sys_open (locals (h 0)) (lit (ascii ''.'')) s;
         if -1 = i then
           do { s \<leftarrow> ece391_fdputs (port (h 1)) 1 (lit (nl ''directory open failed'')) s; Some (s, 2) }
         else ls_loop h lit buf i 1 s }"

subsection \<open>Loops that print a sequence of chunks\<close>

text \<open>
  \<open>cat\<close> and \<open>ls\<close> read and print until a read returns 0.  \<open>ok c s\<close>: chunk \<open>c\<close> is next.
\<close>

locale printing_loop =
  fixes loop :: "nat \<Rightarrow> 's \<Rightarrow> ('s \<times> int) option"
    and step :: "nat \<Rightarrow> 's \<Rightarrow> ('s \<times> int option) option"
    and ok :: "nat \<Rightarrow> 's \<Rightarrow> bool" and fin :: "'s \<Rightarrow> bool"
    and out :: "'s \<Rightarrow> screen" and chunks :: "u8 list list"
  assumes unfold: "loop n s = do { (s, r) \<leftarrow> step n s; case r of None \<Rightarrow> loop (n + 2) s | Some v \<Rightarrow> Some (s, v) }"
    and more: "ok c s \<Longrightarrow> c < length chunks \<Longrightarrow>
      \<exists>s'. step n s = Some (s', None) \<and> ok (Suc c) s' \<and> out s' = fold screen_putc (chunks ! c) (out s)"
    and stop: "ok (length chunks) s \<Longrightarrow> \<exists>s'. step n s = Some (s', Some 0) \<and> fin s' \<and> out s' = out s"
begin

lemma runs_from:
  "ok c s \<Longrightarrow> c + k = length chunks \<Longrightarrow>
    \<exists>s'. loop n s = Some (s', 0) \<and> fin s' \<and> out s' = fold screen_putc (concat (drop c chunks)) (out s)"
proof (induction k arbitrary: c n s)
  case 0
  then obtain s' where "step n s = Some (s', Some 0)" "fin s'" "out s' = out s" using stop by auto
  then show ?case using 0 by (subst unfold) simp
next
  case (Suc k)
  then have c: "c < length chunks" by simp
  obtain s1 where s1: "step n s = Some (s1, None)" "ok (Suc c) s1" "out s1 = fold screen_putc (chunks ! c) (out s)"
    using more [OF Suc.prems(1) c] by blast
  obtain s' where "loop (n + 2) s1 = Some (s', 0)" "fin s'"
    "out s' = fold screen_putc (concat (drop (Suc c) chunks)) (out s1)"
    using Suc.IH [OF s1(2), of "n + 2"] Suc.prems(2) by auto
  then show ?case using s1 by (subst unfold) (simp add: Cons_nth_drop_Suc [OF c, symmetric])
qed

lemma prints_all: "ok 0 s \<Longrightarrow> \<exists>s'. loop n s = Some (s', 0) \<and> fin s' \<and> out s' = fold screen_putc (concat chunks) (out s)"
  using runs_from [of 0 s "length chunks" n] by simp

end

subsection \<open>cat\<close>

text \<open>What \<open>cat\<close> reads, piece by piece: a file of at most 1024 bytes at once, of a longer one the full
  kilobytes.\<close>

definition cat_chunks :: "u8 list \<Rightarrow> u8 list list" where
  "cat_chunks fl = (if length fl \<le> 1024 then (if fl = [] then [] else [fl])
     else map (\<lambda>j. take 1024 (drop (1024 * j) fl)) [0..<length fl div 1024])"

definition cat_output :: "u8 list \<Rightarrow> u8 list" where
  "cat_output fl = (if length fl \<le> 1024 then fl else take (1024 * (length fl div 1024)) fl)"

lemma concat_take_drop: "concat (map (\<lambda>j. take c (drop (c * j) xs)) [0..<q]) = take (c * q) xs"
proof (induction q)
  case (Suc q)
  have "c * Suc q = c * q + c" by simp
  then show ?case using Suc by (simp only: take_add upt_Suc_append map_append concat_append le0) simp
qed simp

lemma concat_cat_chunks: "concat (cat_chunks fl) = cat_output fl"
  by (simp add: cat_chunks_def cat_output_def concat_take_drop)

definition cat_pos :: "u8 list \<Rightarrow> nat \<Rightarrow> nat" where
  "cat_pos fl c = min (1024 * c) (length fl)"

lemma cat_chunk:
  assumes "c < length (cat_chunks fl)"
  shows "cat_chunks fl ! c \<noteq> []" "length (cat_chunks fl ! c) \<le> 1024"
    "cat_pos fl c + length (cat_chunks fl ! c) = cat_pos fl (Suc c)" "cat_pos fl (Suc c) \<le> length fl"
proof -
  have "cat_chunks fl ! c \<noteq> [] \<and> length (cat_chunks fl ! c) \<le> 1024 \<and>
    cat_pos fl c + length (cat_chunks fl ! c) = cat_pos fl (Suc c)"
  proof (cases "length fl \<le> 1024")
    case True
    then show ?thesis using assms by (auto simp: cat_chunks_def cat_pos_def split: if_splits)
  next
    case False
    then have "c < length fl div 1024" using assms by (simp add: cat_chunks_def)
    then have "1024 * c + 1024 \<le> length fl" by auto
    then show ?thesis using False \<open>c < length fl div 1024\<close> by (auto simp: cat_chunks_def cat_pos_def min_def)
  qed
  then show "cat_chunks fl ! c \<noteq> []" "length (cat_chunks fl ! c) \<le> 1024"
    "cat_pos fl c + length (cat_chunks fl ! c) = cat_pos fl (Suc c)" by simp_all
  show "cat_pos fl (Suc c) \<le> length fl" by (simp add: cat_pos_def)
qed

definition cat_at :: "'a kernel_scheme \<Rightarrow> nat \<Rightarrow> nat \<Rightarrow> nat \<Rightarrow> u32 \<Rightarrow> nat \<Rightarrow> u8 list \<Rightarrow> u32 \<Rightarrow> nat \<Rightarrow> 'a kernel_scheme \<Rightarrow> bool" where
  "cat_at s0 k n i node sz fl buf c s \<longleftrightarrow> tame_here s0 s \<and> foreground s k n \<and> reads_file s i node (of_nat (cat_pos fl c)) \<and>
     program_at s node sz fl \<and> user_buf s buf 1024 sz"

lemma user_buf_less: "user_buf s buf n sz \<Longrightarrow> c \<le> n \<Longrightarrow> user_buf s buf c sz"
  by (auto simp: user_buf_def sep_def)

lemma cat_reads:
  assumes a: "cat_at s0 k n i node sz fl buf c s" and c: "c < length (cat_chunks fl)"
  shows "read_data s (vmem s) node (of_nat (cat_pos fl c)) buf 1024 =
    (overlay (vmem s) buf (length (cat_chunks fl ! c)) (\<lambda>j. cat_chunks fl ! c ! j), of_nat (length (cat_chunks fl ! c)))"
proof -
  have p: "program_at s node sz fl" and u: "user_buf s buf 1024 sz" using a by (simp_all add: cat_at_def)
  have L: "length fl = unat (inode_length s (vmem s) node)" by (rule program_at_length [OF p])
  show ?thesis
  proof (cases "length fl \<le> 1024")
    case True
    then have ch: "c = 0" "cat_chunks fl = [fl]" "fl \<noteq> []" using c by (auto simp: cat_chunks_def split: if_splits)
    have img: "file_in_image s (vmem s) sz node (unat (inode_length s (vmem s) node))" "file_contents s (vmem s) node = fl"
      using p L by (simp_all add: program_at_def)
    have sep: "sep buf (unat (inode_length s (vmem s) node)) (dentry_addr s) sz"
      using user_buf_less [OF u True] by (simp add: user_buf_def L)
    have z: "0 < inode_length s (vmem s) node" "inode_length s (vmem s) node \<le> 1024"
      using True length_greater_0_conv [THEN iffD2, OF ch(3)] unfolding L by (simp_all add: word_less_nat_alt word_le_nat_alt)
    have "file_byte s (vmem s) node j = fl ! j" if "j < length fl" for j
      using that img(2) L by (auto simp: file_contents_def)
    then have "overlay (vmem s) buf (length fl) (file_byte s (vmem s) node) = overlay (vmem s) buf (length fl) (\<lambda>j. fl ! j)"
      by (intro overlay_cong) simp
    then show ?thesis
      using read_data_whole(1) [OF img(1) sep z] ch by (simp add: cat_pos_def flip: L) (simp add: L)
  next
    case False
    then have q: "c < length fl div 1024" using c by (simp add: cat_chunks_def)
    then have le: "1024 * c + 1024 \<le> length fl" by auto
    have pos: "cat_pos fl c = 1024 * c" using le by (simp add: cat_pos_def)
    have u0: "unat (of_nat (1024 * c) :: u32) = 1024 * c"
      using le L unat_lt32 [of "inode_length s (vmem s) node"] by (intro unat_of_nat32) simp
    have "read_data s (vmem s) node (of_nat (1024 * c)) buf 1024 =
        (overlay (vmem s) buf 1024 (\<lambda>j. fl ! (1024 * c + j)), 1024)"
      using program_read [OF p, of buf 1024 "of_nat (1024 * c)", unfolded u0] u le by (simp add: user_buf_def)
    moreover have "cat_chunks fl ! c = take 1024 (drop (1024 * c) fl)" using False q by (simp add: cat_chunks_def)
    moreover have "length (take 1024 (drop (1024 * c) fl)) = 1024" using le by simp
    ultimately show ?thesis unfolding pos using le by (auto intro!: overlay_cong)
  qed
qed

lemma reads_file_putc: "reads_file (fold putc xs s) i node pos = reads_file s i node pos"
  by (simp add: reads_file_def fold_putc_running)

lemma user_buf_window: "user_buf s buf n sz \<Longrightarrow> c \<le> n \<Longrightarrow> \<forall>j<c. in_user_window (buf + of_nat j)"
  by (simp add: user_buf_def)

lemma user_buf_cong: "dentry_addr s' = dentry_addr s \<Longrightarrow> user_buf s' buf n sz = user_buf s buf n sz"
  by (simp add: user_buf_def)

lemma bytes_of: "(\<forall>j<length xs. m (buf + of_nat j) = xs ! j) \<Longrightarrow> bytes m buf (length xs) = xs"
  by (intro nth_equalityI) (simp_all add: bytes_def)

lemma cat_more:
  fixes s :: "'a kernel_scheme"
  assumes a: "cat_at s0 k n i node sz fl buf c s" and c: "c < length (cat_chunks fl)"
  shows "\<exists>s'. cat_step h lit buf (int i) m s = Some (s', None) \<and> cat_at s0 k n i node sz fl buf (Suc c) s' \<and>
    screen_of s' = fold screen_putc (cat_chunks fl ! c) (screen_of s)"
proof -
  define ch where "ch = cat_chunks fl ! c"
  have ch: "ch \<noteq> []" "length ch \<le> 1024" "cat_pos fl c + length ch = cat_pos fl (Suc c)" "cat_pos fl (Suc c) \<le> length fl"
    using cat_chunk [OF c] by (simp_all add: ch_def)
  have s: "foreground s k n" "reads_file s i node (of_nat (cat_pos fl c))" "program_at s node sz fl" "user_buf s buf 1024 sz"
    "tame_here s0 s"
    using a by (simp_all add: cat_at_def)
  have q: "of_nat (cat_pos fl c) + of_nat (length ch) = (of_nat (cat_pos fl (Suc c)) :: u32)"
    unfolding ch(3) [symmetric] by simp
  have "cat_pos fl (Suc c) < 4294967296"
    using ch(4) program_at_length [OF s(3)] unat_lt32 [of "inode_length s (vmem s) node"] by simp
  then have nq: "\<not> unat (of_nat (cat_pos fl (Suc c)) :: u32) > length fl"
    using ch(4) by (simp add: unat_of_nat32)
  from foreground_file_read [OF s(1-3) user_buf_less [OF s(4) ch(2)] cat_reads [OF a c, folded ch_def],
      of "during (h m)" "locals (h m)", unfolded q] nq
  obtain s1 where s1: "sys_read (during (h m)) (locals (h m)) (int i) buf 1024 s = Some (s1, int (length ch))"
    "foreground s1 k n" "reads_file s1 i node (of_nat (cat_pos fl (Suc c)))" "program_at s1 node sz fl"
    "dentry_addr s1 = dentry_addr s" "screen_of s1 = screen_of s" "\<forall>j<length ch. vmem s1 (buf + of_nat j) = ch ! j"
    "tame_here s s1"
    by auto
  have w: "sys_write (port (h (m + 1))) 1 buf (of_nat (length ch)) s1 = Some (fold putc ch s1, int (length ch))"
    using foreground_write [OF s1(2) user_buf_window [OF s(4) ch(2)]] ch(1,2) by (simp add: bytes_of [OF s1(7)])
  let ?t = "fold putc ch s1"
  have "cat_step h lit buf (int i) m s = Some (?t, None)"
    using ch(1) w by (simp add: cat_step_def s1(1))
  moreover have "cat_at s0 k n i node sz fl buf (Suc c) ?t"
    using s1 s(4) tame_here_trans [OF tame_here_trans [OF s(5) s1(8)] here_tame [OF here_fold_putc]] foreground_putc [OF s1(2)] program_at_putc [OF s1(2,4)]
    by (simp add: cat_at_def reads_file_putc user_buf_def frame_simps)
  moreover have "screen_of ?t = fold screen_putc ch (screen_of s)"
    using s1(2,6) by (simp add: fold_putc_refines foreground_def)
  ultimately show ?thesis unfolding ch_def by blast
qed

text \<open>The last read: at the end of the file, or short of it when the rest is no full kilobyte.\<close>

lemma file_in_image_block:
  assumes "file_in_image s m sz node l" "1024 * q < l"
  shows "file_in_image s m sz node (1024 * q + 1024)"
proof -
  have "\<exists>j'<l. j' div 4096 = j div 4096" if "j < 1024 * q + 1024" for j
  proof (cases "j < l")
    case False
    have "j div 1024 = q" using that False assms(2) by (intro div_nat_eqI) simp_all
    then have "j div 4096 = 1024 * q div 4096"
      using div_mult2_eq [of j 1024 4] div_mult2_eq [of "1024 * q" 1024 4] by simp
    then show ?thesis using assms(2) by metis
  qed blast
  then show ?thesis using assms(1) unfolding file_in_image_def by metis
qed

lemma cat_stop:
  fixes s :: "'a kernel_scheme"
  assumes a: "cat_at s0 k n i node sz fl buf (length (cat_chunks fl)) s"
  shows "\<exists>s'. cat_step h lit buf (int i) m s = Some (s', Some 0) \<and> (tame_here s0 s' \<and> foreground s' k n) \<and> screen_of s' = screen_of s"
proof -
  define pos where "pos = cat_pos fl (length (cat_chunks fl))"
  have s: "foreground s k n" "reads_file s i node (of_nat pos)" "program_at s node sz fl" "user_buf s buf 1024 sz" "tame_here s0 s"
    using a by (simp_all add: cat_at_def pos_def)
  have L: "length fl = unat (inode_length s (vmem s) node)" by (rule program_at_length [OF s(3)])
  have le: "pos \<le> length fl" by (simp add: pos_def cat_pos_def)
  then have u: "unat (of_nat pos :: u32) = pos" using L unat_lt32 [of "inode_length s (vmem s) node"] by (intro unat_of_nat32) simp
  have "\<exists>c g. read_data s (vmem s) node (of_nat pos) buf 1024 = (overlay (vmem s) buf c g, of_nat c) \<and> c \<le> 1024 \<and>
    (c = 0 \<or> unat (of_nat pos + of_nat c :: u32) > length fl)"
  proof (cases "pos = length fl")
    case True
    then have "inode_length s (vmem s) node \<le> of_nat pos" using L u by (simp add: word_le_nat_alt)
    moreover have "node \<le> num_inode s (vmem s)"
      using s(3) by (auto simp: program_at_def file_in_image_def word_le_nat_alt)
    ultimately have "read_data s (vmem s) node (of_nat pos) buf 1024 = (vmem s, 0)" by (intro read_data_error)
    then show ?thesis by (intro exI [of _ 0]) (simp add: overlay_def)
  next
    case False
    have big: "1024 < length fl" "pos = 1024 * (length fl div 1024)"
    proof -
      show b: "1024 < length fl"
        using False by (auto simp: pos_def cat_pos_def cat_chunks_def split: if_splits)
      then have "length (cat_chunks fl) = length fl div 1024" by (simp add: cat_chunks_def)
      then show "pos = 1024 * (length fl div 1024)" by (simp add: pos_def cat_pos_def)
    qed
    have lt: "pos < length fl" "length fl < pos + 1024" using False le big by auto
    have "file_in_image s (vmem s) sz node (length fl)" using s(3) by (simp add: program_at_def)
    then have img: "file_in_image s (vmem s) sz node (pos + 1024)"
      using lt(1) unfolding big(2) by (rule file_in_image_block)
    have r: "1024 = read_count s (vmem s) node 1024" using big(1) by (simp add: read_count_def flip: L)
    have "read_data s (vmem s) node (of_nat pos) buf 1024 =
        (overlay (vmem s) buf 1024 (\<lambda>j. file_byte s (vmem s) node (unat (of_nat pos :: u32) + j)), of_nat 1024)"
    proof (rule read_data_overlay [OF _ _ _ r])
      show "file_in_image s (vmem s) sz node (unat (of_nat pos :: u32) + 1024)" using img u by simp
      show "sep buf 1024 (dentry_addr s) sz" using s(4) by (simp add: user_buf_def)
      show "of_nat pos < inode_length s (vmem s) node" using lt L u by (simp add: word_less_nat_alt)
    qed
    moreover have "unat (of_nat pos + of_nat 1024 :: u32) = pos + 1024"
    proof -
      have "(pos + 1024 - 1) div 4096 < 1023" using img unfolding file_in_image_def by (metis add_gr_0 diff_less zero_less_numeral zero_less_one)
      then have "pos + 1024 < 4294967296" by simp
      then show ?thesis using u by (simp add: unat_word_ariths)
    qed
    ultimately show ?thesis using lt(2) by (intro exI [of _ 1024]) auto
  qed
  then obtain c g where d: "read_data s (vmem s) node (of_nat pos) buf 1024 = (overlay (vmem s) buf c g, of_nat c)" "c \<le> 1024"
    "c = 0 \<or> unat (of_nat pos + of_nat c :: u32) > length fl" by blast
  from foreground_file_read [OF s(1-3) user_buf_less [OF s(4) d(2)] d(1), of "during (h m)" "locals (h m)"] d(3)
  obtain s1 where "sys_read (during (h m)) (locals (h m)) (int i) buf 1024 s = Some (s1, 0)" "foreground s1 k n"
    "screen_of s1 = screen_of s" "tame_here s s1" by fastforce
  then show ?thesis using tame_here_trans [OF s(5)] by (simp add: cat_step_def)
qed

interpretation cat_run: printing_loop "cat_loop h lit buf (int i)" "cat_step h lit buf (int i)" "cat_at s0 k n i node sz fl buf"
  "\<lambda>s. tame_here s0 s \<and> foreground s k n" screen_of "cat_chunks fl"
proof unfold_locales
  fix m c and s :: "'a kernel_scheme"
  show "cat_loop h lit buf (int i) m s = do { (s, r) \<leftarrow> cat_step h lit buf (int i) m s;
      case r of None \<Rightarrow> cat_loop h lit buf (int i) (m + 2) s | Some v \<Rightarrow> Some (s, v) }"
    by (rule cat_loop.simps)
qed (fact cat_more cat_stop)+

text \<open>The process has the argument \<open>as\<close>.\<close>

definition has_arg :: "'a kernel_scheme \<Rightarrow> nat \<Rightarrow> u8 list \<Rightarrow> bool" where
  "has_arg s n as \<longleftrightarrow> (\<exists>r. pcb_arg (pcb_of s n) = as @ 0 # r) \<and> arg_size (pcb_of s n) = int (length as) \<and>
     as \<noteq> [] \<and> 0 \<notin> set as \<and> length as < 1024"

text \<open>An image in the kernel page is not touched by a write to the user window.\<close>

lemma image_keeps:
  assumes p: "program_at s node sz fl" and u: "user_buf s buf c sz" and x: "x < sz"
  shows "vmem (set_vmem (overlay (vmem s) buf c f) s) (dentry_addr s + of_nat x) = vmem s (dentry_addr s + of_nat x)"
proof -
  have k: "kernel_range (dentry_addr s) sz" "frame_ok s" using p by (simp_all add: program_at_def)
  then have "image_kernel s sz" using kernel_range_view [OF k] by (simp add: image_kernel_def)
  then show ?thesis using image_after_write(1) [OF _ u] x by blast
qed

lemma program_at_dir:
  assumes "program_at s node sz fl"
  shows "file_sys s = dentry_addr s" "4096 \<le> sz"
  using assms by (auto simp: program_at_def file_in_image_def)

lemma cat_run_file:
  fixes s :: "'a kernel_scheme"
  assumes f: "foreground s k n" and a: "has_arg s n as" and e: "entry_at s (vmem s) as 2 node"
    and p: "program_at s node sz fl" and u: "user_buf s buf 1024 sz" and i: "free_slot (running_table s) = Some i"
  shows "\<exists>s'. cat h lit buf s = Some (s', 0) \<and> tame_here s s' \<and> foreground s' k n \<and>
    screen_of s' = fold screen_putc (cat_output fl) (screen_of s)"
proof -
  have as: "as \<noteq> []" "0 \<notin> set as" "length as < 1024" "arg_size (pcb_of s n) \<noteq> 0"
    using a by (auto simp: has_arg_def)
  obtain r where r: "pcb_arg (pcb_of s n) = as @ 0 # r" using a by (auto simp: has_arg_def)
  have u1: "user_buf s buf (Suc (length as)) sz" using user_buf_less [OF u] as(3) by simp
  have w: "\<forall>j<Suc (length as). in_user_window (buf + of_nat j)" using u1 by (simp add: user_buf_def)
  have b: "buf \<noteq> 0" using w [rule_format, of 0] by (auto simp: in_user_window_def)
  let ?s1 = "set_vmem (overlay (vmem s) buf (Suc (length as)) (bytes_at as)) s"
  have g: "getargs buf 1024 s = Some (?s1, 0)"
    using foreground_getargs [OF f r as(2) _ as(4) b] as(3) by simp
  note s1 = user_store [where g = "bytes_at as", OF f w]
  have h: "holds_str (view (vmem ?s1) buf) as"
    using as s1(3) by (auto simp: holds_str_def bytes_at_def)
  have e1: "entry_at ?s1 (vmem ?s1) as 2 node"
    using e image_keeps [OF p u1] program_at_dir [OF p] by (subst entry_at_cong [of _ s _ "vmem s"]) (simp_all add: frame_simps)
  have i1: "free_slot (running_table ?s1) = Some i" using i by (simp add: set_vmem_running)
  obtain s2 g2 where s2: "sys_open (locals (h 1)) buf ?s1 = Some (s2, int i)" "s2 = ?s1\<lparr>pcbs := g2\<rparr>" "foreground s2 k n"
    "running_table s2 = (running_table ?s1)(i \<mapsto> Regular node 0)" "tame_here ?s1 s2"
    using foreground_open [OF s1(1) h as(1) _ b e1 i1, of "locals (h 1)"] as(3) by (auto simp: opened_def)
  have "i < 8" using find_least [OF i [unfolded free_slot_def]] by simp
  have "program_at s2 node sz fl" unfolding s2(2)
    using u1 by (intro program_at_pcbs program_at_write [OF p]) (simp add: user_buf_def)
  moreover have "reads_file s2 i node 0" using s2(3,4) \<open>i < 8\<close> by (simp add: reads_file_def foreground_def)
  moreover have "user_buf s2 buf 1024 sz" using u by (simp add: s2(2) user_buf_def frame_simps)
  ultimately have at: "cat_at s k n i node sz fl buf 0 s2"
    using s2(3) tame_here_trans [OF tame_set_vmem s2(5)] by (simp add: cat_at_def cat_pos_def)
  have "screen_of s2 = screen_of s" using s1(2) by (simp add: s2(2))
  then show ?thesis
    using cat_run.prints_all [OF at, of h lit 2] s2(1) by (simp add: cat_def g concat_cat_chunks)
qed

subsection \<open>ls\<close>

definition ls_at :: "'a kernel_scheme \<Rightarrow> nat \<Rightarrow> nat \<Rightarrow> nat \<Rightarrow> u8 list list \<Rightarrow> u32 \<Rightarrow> nat \<Rightarrow> 'a kernel_scheme \<Rightarrow> bool" where
  "ls_at s0 k n i names buf c s \<longleftrightarrow> tame_here s0 s \<and> foreground s k n \<and> i < 8 \<and> running_table s i = Some Directory \<and>
     dir_read_loc s = int c \<and> directory s (vmem s) names \<and> kernel_range (file_sys s) (64 + 64 * length names) \<and>
     (\<forall>j<33. in_user_window (buf + of_nat j))"

lemma ls_at_store:
  fixes s :: "'a kernel_scheme"
  assumes a: "ls_at s0 k n i names buf c s" and l: "l \<le> 33"
  shows "ls_at s0 k n i names buf c (set_vmem (overlay (vmem s) buf l g) s)"
    and "ls_at s0 k n i names buf c (fold putc xs s)"
proof -
  have s: "foreground s k n" "directory s (vmem s) names" "kernel_range (file_sys s) (64 + 64 * length names)"
    using a by (simp_all add: ls_at_def)
  have b: "\<forall>j<l. in_user_window (buf + of_nat j)" using a l by (simp add: ls_at_def)
  let ?t = "set_vmem (overlay (vmem s) buf l g) s"
  have "directory ?t (vmem ?t) names"
    using kernel_keeps [OF s(3) foreground_frame [OF s(1)] _ b]
    by (intro directory_cong [OF _ _ s(2)]) (simp_all add: frame_simps)
  moreover have "tame_here s0 ?t" by (rule tame_here_trans [OF _ tame_set_vmem]) (use a in \<open>simp add: ls_at_def\<close>)
  ultimately show "ls_at s0 k n i names buf c ?t"
    using a user_store(1) [OF s(1) b, of g] by (simp add: ls_at_def set_vmem_running frame_simps)
  have "directory (fold putc xs s) (vmem (fold putc xs s)) names"
    using kernel_keeps_putc [OF s(1,3)] by (intro directory_cong [OF _ _ s(2)]) (simp_all add: frame_simps)
  moreover have "tame_here s0 (fold putc xs s)"
    by (rule tame_here_trans [OF _ here_tame [OF here_fold_putc]]) (use a in \<open>simp add: ls_at_def\<close>)
  ultimately show "ls_at s0 k n i names buf c (fold putc xs s)"
    using a foreground_putc [OF s(1)] by (simp add: ls_at_def fold_putc_running frame_simps)
qed

text \<open>The position in the directory.\<close>

lemma dir_pos_simps:
  fixes s :: "'a kernel_scheme"
  shows "vmem (s\<lparr>dir_read_loc := l\<rparr>) = vmem s" "screen_of (s\<lparr>dir_read_loc := l\<rparr>) = screen_of s"
    "foreground (s\<lparr>dir_read_loc := l\<rparr>) k n = foreground s k n" "running_table (s\<lparr>dir_read_loc := l\<rparr>) = running_table s"
    "directory (s\<lparr>dir_read_loc := l\<rparr>) m names = directory s m names"
proof -
  have r: "running_pcb (s\<lparr>dir_read_loc := l\<rparr>) = running_pcb s" by (rule running_pcb_cong) simp_all
  have t: "fd_table (s\<lparr>dir_read_loc := l\<rparr>) = fd_table s" by (simp add: fun_eq_iff fd_table_def)
  show "vmem (s\<lparr>dir_read_loc := l\<rparr>) = vmem s" by (simp add: fun_eq_iff vmem_def vaddr_def user_frame_def)
  show "screen_of (s\<lparr>dir_read_loc := l\<rparr>) = screen_of s" by (simp add: screen_of_def)
  show "running_table (s\<lparr>dir_read_loc := l\<rparr>) = running_table s" by (cases "running_pcb s") (simp_all add: running_table_def r t)
  show "foreground (s\<lparr>dir_read_loc := l\<rparr>) k n = foreground s k n"
    by (simp add: foreground_def shown_def user_frame_def running_ok_def fds_ok_def proc_block_def tables_ok_def
        init_operation_table_def screen_ok_def r t)
  show "directory (s\<lparr>dir_read_loc := l\<rparr>) m names = directory s m names"
    by (simp add: directory_def num_dentry_def entry_name_def dentry_ptr_def)
qed

lemma tame_dir_pos: "tame_here s t \<Longrightarrow> tame_here s (t\<lparr>dir_read_loc := l\<rparr>)"
  by (erule tame_here_trans) (rule here_tame, rule here_same, simp_all)

lemma ls_at_next: "ls_at s0 k n i names buf c s \<Longrightarrow> ls_at s0 k n i names buf c' (s\<lparr>dir_read_loc := int c'\<rparr>)"
  by (simp add: ls_at_def dir_pos_simps tame_dir_pos)

lemma upd_overlay:
  assumes "l < c" "c \<le> 4294967296"
  shows "m(buf + of_nat l := v) = overlay m buf c (\<lambda>j. if j = l then v else m (buf + of_nat j))"
proof
  fix x :: u32
  have "x = buf + of_nat l \<longleftrightarrow> unat (x - buf) = l"
  proof
    assume "unat (x - buf) = l"
    then have "x - buf = of_nat l" by (metis of_nat_unat32)
    then show "x = buf + of_nat l" by (simp add: algebra_simps)
  qed (use assms in \<open>simp add: unat_of_nat32\<close>)
  then show "(m(buf + of_nat l := v)) x = overlay m buf c (\<lambda>j. if j = l then v else m (buf + of_nat j)) x"
    using assms(1) by (auto simp: overlay_def)
qed

lemma ls_more:
  fixes s :: "'a kernel_scheme"
  assumes a: "ls_at s0 k n i names buf c s" and c: "c < length (map (\<lambda>nm. nm @ [0x0A]) names)"
  shows "\<exists>s'. ls_step h lit buf (int i) m s = Some (s', None) \<and> ls_at s0 k n i names buf (Suc c) s' \<and>
    screen_of s' = fold screen_putc (map (\<lambda>nm. nm @ [0x0A]) names ! c) (screen_of s)"
proof -
  define nm where "nm = names ! c"
  have s: "foreground s k n" "i < 8" "running_table s i = Some Directory" "dir_read_loc s = int c" "directory s (vmem s) names"
    using a by (simp_all add: ls_at_def)
  have c': "c < length names" using c by simp
  obtain f where f: "dir_read (locals (h m)) buf s (vmem s) =
      Some (s\<lparr>dir_read_loc := int (Suc c)\<rparr>, overlay (vmem s) buf 33 f, of_nat (length nm))"
    "\<forall>j<length nm. f j = nm ! j" "nm \<noteq> []" "length nm \<le> 32"
    using directory_read [OF s(5,4) c', of "locals (h m)" buf] by (auto simp: nm_def)
  let ?s0 = "s\<lparr>dir_read_loc := int (Suc c)\<rparr>"
  define s1 where "s1 = set_vmem (overlay (vmem ?s0) buf 33 f) ?s0"
  have l: "sint (of_nat (length nm) :: u32) = int (length nm)" using f(4) by (intro sint_of_nat32) simp
  have r: "sys_read (during (h m)) (locals (h m)) (int i) buf 32 s = Some (s1, int (length nm))"
    unfolding foreground_dir_read [OF s(1-3)] f(1) by (simp add: l s1_def dir_pos_simps)
  have a1: "ls_at s0 k n i names buf (Suc c) s1" unfolding s1_def by (rule ls_at_store(1) [OF ls_at_next [OF a] order_refl])
  have b: "\<forall>j<33. in_user_window (buf + of_nat j)" using a by (simp add: ls_at_def)
  have f0: "foreground ?s0 k n" using s(1) by (simp add: dir_pos_simps)
  note st1 = user_store [where g = f, OF f0 b, folded s1_def]
  text \<open>The line feed goes behind the name.\<close>
  let ?g = "\<lambda>j. if j = length nm then 0x0A else vmem s1 (buf + of_nat j)"
  have o: "(vmem s1)(buf + of_nat (length nm) := 0x0A) = overlay (vmem s1) buf 33 ?g"
    using f(4) by (intro upd_overlay) simp_all
  define s2 where "s2 = set_vmem (overlay (vmem s1) buf 33 ?g) s1"
  have a2: "ls_at s0 k n i names buf (Suc c) s2" unfolding s2_def by (rule ls_at_store(1) [OF a1 order_refl])
  note st2 = user_store [where g = ?g, OF st1(1) b, folded s2_def]
  have by2: "bytes (vmem s2) buf (Suc (length nm)) = nm @ [0x0A]"
  proof (rule nth_equalityI)
    fix j assume "j < length (bytes (vmem s2) buf (Suc (length nm)))"
    then have j: "j < Suc (length nm)" by simp
    then have "bytes (vmem s2) buf (Suc (length nm)) ! j = ?g j" using f(4) st2(3) by (simp add: bytes_def del: upt_Suc)
    also have "\<dots> = (nm @ [0x0A]) ! j"
      using j f(2,4) st1(3) [of j] by (auto simp: nth_append less_Suc_eq)
    finally show "bytes (vmem s2) buf (Suc (length nm)) ! j = (nm @ [0x0A]) ! j" .
  qed simp
  let ?t = "fold putc (nm @ [0x0A]) s2"
  have w: "sys_write (port (h (m + 1))) 1 buf (of_nat (Suc (length nm))) s2 = Some (?t, int (Suc (length nm)))"
    using foreground_write [OF st2(1), of "Suc (length nm)" buf "port (h (m + 1))"] b f(4) unfolding by2 by simp
  have "ls_step h lit buf (int i) m s = Some (?t, None)"
    using f(3) w unfolding ls_step_def r by (simp add: o add.commute flip: s2_def)
  moreover have "ls_at s0 k n i names buf (Suc c) ?t" by (rule ls_at_store(2) [OF a2 order_refl])
  moreover have "screen_of ?t = fold screen_putc (nm @ [0x0A]) (screen_of s)"
  proof -
    have "screen_ok s2" using st2(1) by (simp add: foreground_def)
    then have "screen_of ?t = fold screen_putc (nm @ [0x0A]) (screen_of s2)" by (rule fold_putc_refines)
    then show ?thesis unfolding st2(2) st1(2) dir_pos_simps .
  qed
  ultimately show ?thesis using c' by (intro exI [of _ ?t]) (simp add: nm_def)
qed

lemma ls_stop:
  fixes s :: "'a kernel_scheme"
  assumes a: "ls_at s0 k n i names buf (length (map (\<lambda>nm. nm @ [0x0A]) names)) s"
  shows "\<exists>s'. ls_step h lit buf (int i) m s = Some (s', Some 0) \<and>
    (tame_here s0 s' \<and> foreground s' k n \<and> dir_read_loc s' = 0) \<and> screen_of s' = screen_of s"
proof -
  have s: "foreground s k n" "i < 8" "running_table s i = Some Directory" "dir_read_loc s = int (length names)"
    "unat (num_dentry s (vmem s)) = length names"
    using a by (simp_all add: ls_at_def directory_def)
  have "dir_read (locals (h m)) buf s (vmem s) = Some (s\<lparr>dir_read_loc := 0\<rparr>, vmem s, 0)"
    using s(4,5) unat_lt32 [of "num_dentry s (vmem s)"] by (intro dir_read_end) simp_all
  then have "sys_read (during (h m)) (locals (h m)) (int i) buf 32 s = Some (s\<lparr>dir_read_loc := 0\<rparr>, 0)"
    unfolding foreground_dir_read [OF s(1-3)] using set_vmem_same [of "s\<lparr>dir_read_loc := 0\<rparr>"] by (simp add: dir_pos_simps)
  moreover have "tame_here s0 (s\<lparr>dir_read_loc := 0\<rparr>)" using a by (simp add: ls_at_def tame_dir_pos)
  ultimately show ?thesis using s(1) by (simp add: ls_step_def dir_pos_simps)
qed

interpretation ls_run: printing_loop "ls_loop h lit buf (int i)" "ls_step h lit buf (int i)" "ls_at s0 k n i names buf"
  "\<lambda>s. tame_here s0 s \<and> foreground s k n \<and> dir_read_loc s = 0" screen_of "map (\<lambda>nm. nm @ [0x0A]) names"
proof unfold_locales
  fix m c and s :: "'a kernel_scheme"
  show "ls_loop h lit buf (int i) m s = do { (s, r) \<leftarrow> ls_step h lit buf (int i) m s;
      case r of None \<Rightarrow> ls_loop h lit buf (int i) (m + 2) s | Some v \<Rightarrow> Some (s, v) }"
    by (rule ls_loop.simps)
qed (fact ls_more ls_stop)+

lemma ls_run_dir:
  fixes s :: "'a kernel_scheme"
  assumes f: "foreground s k n" and d: "directory s (vmem s) names" "kernel_range (file_sys s) 4096" "length names \<le> 63" "dir_read_loc s = 0"
    and e: "entry_at s (vmem s) (ascii ''.'') 1 node" and b: "\<forall>j<33. in_user_window (buf + of_nat j)"
    and l: "holds_str (view (vmem s) (lit (ascii ''.''))) (ascii ''.'')" "lit (ascii ''.'') \<noteq> 0"
    and i: "free_slot (running_table s) = Some i"
  shows "\<exists>s'. ls h lit buf s = Some (s', 0) \<and> tame_here s s' \<and> foreground s' k n \<and> dir_read_loc s' = 0 \<and>
    screen_of s' = fold screen_putc (concat (map (\<lambda>nm. nm @ [0x0A]) names)) (screen_of s)"
proof -
  obtain s1 g where s1: "sys_open (locals (h 0)) (lit (ascii ''.'')) s = Some (s1, int i)" "s1 = s\<lparr>pcbs := g\<rparr>" "foreground s1 k n"
    "running_table s1 = (running_table s)(i \<mapsto> Directory)" "tame_here s s1"
    using foreground_open [OF f l(1) _ _ l(2) e i, of "locals (h 0)"] by (auto simp: opened_def ascii_def)
  have "i < 8" using find_least [OF i [unfolded free_slot_def]] by simp
  moreover have "directory s1 (vmem s1) names" using d(1) by (simp add: s1(2) directory_def num_dentry_def entry_name_def dentry_ptr_def)
  moreover have "kernel_range (file_sys s1) (64 + 64 * length names)" using d(2,3) by (simp add: s1(2) kernel_range_def)
  ultimately have at: "ls_at s k n i names buf 0 s1" using s1(3-5) b d(4) by (simp add: ls_at_def s1(2))
  have "screen_of s1 = screen_of s" by (simp add: s1(2))
  then show ?thesis using ls_run.prints_all [OF at, of h lit 1] s1(1) by (simp add: ls_def)
qed

end
