(* ===== verification/Commands.thy ===== *)
theory Commands
  imports User_Programs
begin

text \<open>
  A command from beginning to end: \<open>execute\<close> loads the program from the image and enters it, its
  \<open>main\<close> makes its system calls, and \<open>halt\<close> returns to the shell.
\<close>

subsection \<open>The state in which a program starts\<close>

definition can_start :: "exec_env \<Rightarrow> cstr \<Rightarrow> u8 list \<Rightarrow> 'a kernel_scheme \<Rightarrow> nat \<Rightarrow> u8 list \<Rightarrow>
    (nat \<Rightarrow> nat list) \<Rightarrow> nat \<Rightarrow> nat \<Rightarrow> bool" where
  "can_start e c w s sz prog ch k n \<longleftrightarrow> command_ok e c w \<and> command_file e w s sz prog \<and> take 4 prog = executable \<and>
     chains s ch \<and> shown s k \<and> free_pid ch k = Some n \<and> screen_ok s \<and> tables_ok s"

text \<open>What the new program finds of the state \<open>s\<close> the command was given in.\<close>

definition begun :: "'a kernel_scheme \<Rightarrow> 'a kernel_scheme \<Rightarrow> nat \<Rightarrow> nat \<Rightarrow> nat \<Rightarrow> bool" where
  "begun s t k n sz \<longleftrightarrow> foreground t k n \<and> kernel_range (dentry_addr s) sz \<and> file_sys t = file_sys s \<and> dentry_addr t = dentry_addr s \<and>
     dir_read_loc t = dir_read_loc s \<and> screen_of t = screen_of s \<and>
     (\<forall>x < sz. phys t (dentry_addr s + of_nat x) = phys s (dentry_addr s + of_nat x) \<and>
        vmem t (dentry_addr s + of_nat x) = vmem s (dentry_addr s + of_nat x))"

lemma launched_fields:
  "op_tables (launched e k n par fl as s) = op_tables s" "file_sys (launched e k n par fl as s) = file_sys s"
  "dentry_addr (launched e k n par fl as s) = dentry_addr s" "dir_read_loc (launched e k n par fl as s) = dir_read_loc s"
  "screen_x (launched e k n par fl as s) = screen_x s" "screen_y (launched e k n par fl as s) = screen_y s"
  "current_id (launched e k n par fl as s) = current_id s"
  by (simp_all add: launched_def Let_def started_def loaded_def head_read_def set_vmem_def map_to_user_kernel)

lemma launched_phys:
  assumes p: "kernel_range (e_bufp e) 4" "frame_ok s" and l: "length fl \<le> 0x3B8000"
    and a: "\<not> unat (a - e_bufp e) < 4" "\<not> in_frame (frame_of (of_nat n)) a"
  shows "phys (launched e k n par fl as s) a = phys s a"
proof -
  let ?s2 = "head_read (e_bufp e) fl 24 (head_read (e_bufp e) fl 0 s)"
  have "frame_ok (head_read (e_bufp e) fl 0 s)" using p(2) by (simp add: head_read_def frame_simps)
  from head_read_phys [OF p(1) this a(1)] head_read_phys [OF p a(1)]
  have "phys ?s2 a = phys s a" by (rule trans)
  moreover have "phys (loaded n fl ?s2) a = phys ?s2 a"
    unfolding loaded_def Let_def
    by (subst set_vmem_block) (use window_bytes l a(2) in \<open>simp_all add: user_frame_load frame_simps\<close>)
  ultimately show ?thesis by (simp add: launched_def Let_def started_frame)
qed

lemma fresh_fds_flags: "length old = 8 \<Longrightarrow> 2 \<le> i \<Longrightarrow> i < 8 \<Longrightarrow> flags (fresh_fds old ! i) = 0"
  using fresh_fds_nth(2) [of old i] by simp

lemma execute_launched:
  assumes "can_start e c w s sz prog ch k n"
  shows "execute e (Some c) s =
    Some (launched e k n (if ch k = [] then - 1 else current_pid (terminals s ! k)) prog (cmd_args w) (cli s), Enter_user (entry_of prog) asm_hex)"
proof -
  have a: "command_ok e c w" "command_file e w s sz prog" "take 4 prog = executable" "chains s ch" "shown s k" "free_pid ch k = Some n"
    using assms by (simp_all add: can_start_def)
  obtain node where d: "entry_node s (vmem s) (cmd_name w) = Some node" "program_at (cli s) node sz prog"
    using a(2) by (auto simp: command_file_def frame_simps)
  have w: "0 \<notin> set (cmd_args w)" "length (cmd_args w) < 128"
    using a(1) by (auto simp: command_ok_def holds_str_def cmd_args_def dest: in_set_dropD)
  have s: "stack_buf (cli s) (e_bufp e) sz" "28 \<le> length prog" "length prog \<le> 0x3B8000" "chains (cli s) ch" "shown (cli s) k"
    using a by (simp_all add: command_file_def frame_simps)
  have t: "terminals (cli s) = terminals s" by (simp add: cli_def)
  show ?thesis
    unfolding execute_words [OF a(1)] d(1) option.case
    using load_program_launched [OF d(2) s(1-3) a(3) s(4,5) a(6) w] unfolding t .
qed

lemma command_starts:
  assumes "can_start e c w s sz prog ch k n"
  shows "\<exists>t. execute e (Some c) s = Some (t, Enter_user (entry_of prog) asm_hex) \<and> begun s t k n sz \<and>
    chains t (ch(k := ch k @ [n])) \<and> runs t k n prog (cmd_args w) (e_esp e) (e_ebp e)"
proof -
  have a: "command_ok e c w" "command_file e w s sz prog" "take 4 prog = executable" "chains s ch" "shown s k" "free_pid ch k = Some n"
    "screen_ok s" "tables_ok s"
    using assms by (simp_all add: can_start_def)
  define t where "t = launched e k n (if ch k = [] then - 1 else current_pid (terminals s ! k)) prog (cmd_args w) (cli s)"
  have x: "execute e (Some c) s = Some (t, Enter_user (entry_of prog) asm_hex)"
    unfolding t_def by (rule execute_launched [OF assms])
  have t: "chains t (ch(k := ch k @ [n]))" "runs t k n prog (cmd_args w) (e_esp e) (e_ebp e)"
    using execute_loads [OF a(1-6)] x by auto
  have k3: "k < 3" using a(5) by (simp add: shown_def)
  have n6: "n < 6" by (rule free_pid_fresh(1) [OF a(4) k3 a(6)])
  have f: "op_tables t = op_tables s" "file_sys t = file_sys s" "dentry_addr t = dentry_addr s" "dir_read_loc t = dir_read_loc s"
    "screen_x t = screen_x s" "screen_y t = screen_y s" "current_id t = current_id s"
    unfolding t_def launched_fields by (simp_all add: cli_def)
  obtain node where d: "program_at s node sz prog" "stack_buf s (e_bufp e) sz" "length prog \<le> 0x3B8000"
    using a(2) by (auto simp: command_file_def)
  have img: "kernel_range (dentry_addr s) sz" "frame_ok s" "kernel_range (e_bufp e) 4" "sep (e_bufp e) 4 (dentry_addr s) sz"
    using d(1,2) by (simp_all add: program_at_def stack_buf_def)
  have ph: "phys t a = phys s a" if "\<not> unat (a - e_bufp e) < 4" "\<not> in_frame (frame_of (of_nat n)) a" for a
  proof -
    have "frame_ok (cli s)" using img(2) by (simp add: frame_ok_def user_frame_def cli_def)
    from launched_phys [OF img(3) this d(3) that] show ?thesis unfolding t_def by (rule trans) (simp add: cli_def)
  qed
  have fr: "frame_ok t" using t(2) n6 by (auto simp: runs_def frame_ok_def)
  have im: "phys t (dentry_addr s + of_nat x) = phys s (dentry_addr s + of_nat x) \<and>
      vmem t (dentry_addr s + of_nat x) = vmem s (dentry_addr s + of_nat x)" if "x < sz" for x
  proof -
    have u: "user_frame t = frame_of (of_nat n)" using t(2) by (simp add: runs_def)
    have "phys t (dentry_addr s + of_nat x) = phys s (dentry_addr s + of_nat x)"
      using kernel_range_view(2) [OF img(1) fr that] sep_notin [OF img(4) that] unfolding u by (intro ph)
    then show ?thesis
      using kernel_range_vmem(1) [OF img(1) fr that] kernel_range_vmem(1) [OF img(1,2) that] by simp
  qed
  have "screen_of t = screen_of s"
  proof -
    have "phys t a = phys s a" if "in_video a" for a
    proof (rule ph)
      show "\<not> unat (a - e_bufp e) < 4"
        using video_kernel [OF img(3), of "unat (a - e_bufp e)"] that by auto
      show "\<not> in_frame (frame_of (of_nat n)) a" by (rule video_frame [OF that n6])
    qed
    then show ?thesis using f(5,6) by (intro screen_of_video) simp_all
  qed
  moreover have "foreground t k n"
  proof -
    have b: "length (terminals t) = 3" "length (fd (pcb_of t n)) = 8" using t(1) n6 by (simp_all add: chains_def blocks_ok_def)
    have r: "running_pcb t = Some (pcb_ptr (of_nat n))" "running_table t = [0 \<mapsto> Stream_in, 1 \<mapsto> Stream_out]"
      "curr_terminal t = of_nat k" "current_pcb t = pcb_ptr (of_nat n)" "user_frame t = frame_of (of_nat n)"
      using t(2) by (simp_all add: runs_def)
    have "length (fd (pcb_of (cli s) n)) = 8" using a(4) n6 by (simp add: chains_def blocks_ok_def cli_def)
    then have fl: "flags (fd (pcb_of t n) ! i) = 0" if "2 \<le> i" "i < 8" for i
      using that fresh_fds_flags by (simp add: t_def launched_def Let_def started_def new_block_def loaded_frame)
    have "fds_ok t (pcb_ptr (of_nat n))"
      using r(1,2) b(2) pcb_ptr_slots [OF n6] fl by (simp add: fds_ok_def proc_block_def running_table_def)
    moreover have "tables_ok t" using a(8) f(1) by (simp add: tables_ok_def init_operation_table_def)
    ultimately show ?thesis
      using a(5,7) r b n6 f(5-7) by (simp add: foreground_def running_ok_def shown_def screen_ok_def)
  qed
  ultimately have "begun s t k n sz" using f im img(1) by (simp add: begun_def)
  then show ?thesis using x t by blast
qed

subsection \<open>The end of a command\<close>

text \<open>A program that makes quiet calls only and halts with \<open>status\<close> leaves the chains as they were; its
  parent continues behind its \<open>execute\<close>.\<close>

lemma command_ends:
  assumes s: "can_start e c w s sz prog ch k n"
    and t: "chains t (ch(k := ch k @ [n]))" "runs t k n prog as esp ebp" and q: "tame_here t t'" and p: "ch k = xs @ [p]"
  shows "\<exists>s'. halt e' status t' = Some (s', Resume esp ebp (uint status)) \<and> chains s' ch"
proof -
  have k: "k < 3" using s by (simp add: can_start_def shown_def)
  have "tame t t'" using q by (simp add: tame_here_def)
  then have t': "chains t' (ch(k := ch k @ [n]))" "curr_terminal t' = curr_terminal t" "\<And>m. same_block (pcb_of t m) (pcb_of t' m)"
    using tame_chains [OF t(1)] by (auto simp: tame_def)
  have c: "curr_terminal t' = of_nat k" "old_esp (pcb_of t' n) = esp" "old_ebp (pcb_of t' n) = ebp"
    using t(2) t'(2) t'(3) [of n] by (simp_all add: runs_def same_block_def)
  have "(ch(k := ch k @ [n])) k = xs @ [p, n]" using p by simp
  from halt_pops [OF t'(1) k c(1) this, of e' status]
  obtain s' where "halt e' status t' = Some (s', Resume esp ebp (uint status))"
    "chains s' ((ch(k := ch k @ [n]))(k := xs @ [p]))"
    unfolding c by blast
  moreover have "(ch(k := ch k @ [n]))(k := xs @ [p]) = ch" using p by auto
  ultimately show ?thesis by auto
qed

subsection \<open>cat\<close>

lemma begun_user_buf: "begun s t k n sz \<Longrightarrow> user_buf t buf c sz = user_buf s buf c sz"
  by (simp add: begun_def user_buf_def)

lemma begun_file:
  assumes b: "begun s t k n sz" and p: "program_at s node sz fl"
  shows "program_at t node sz fl"
  using b by (intro program_at_cong [OF p]) (auto simp: begun_def intro: foreground_frame)

lemma begun_entry:
  assumes b: "begun s t k n sz" and d: "file_sys s = dentry_addr s" "4096 \<le> sz"
  shows "entry_at t (vmem t) nm ty node = entry_at s (vmem s) nm ty node"
  using b d by (intro entry_at_cong) (auto simp: begun_def)

lemma command_program:
  assumes "can_start e c w s sz prog ch k n"
  obtains node where "program_at s node sz prog" "file_sys s = dentry_addr s" "4096 \<le> sz" "kernel_range (dentry_addr s) sz"
proof -
  obtain node where p: "program_at s node sz prog" using assms by (auto simp: can_start_def command_file_def)
  then have "kernel_range (dentry_addr s) sz" by (simp add: program_at_def)
  with p show thesis using program_at_dir [OF p] by (intro that)
qed

lemma slot_two: "free_slot [0 \<mapsto> Stream_in, 1 \<mapsto> Stream_out] = Some 2"
  by (simp add: free_slot_def)

lemma cat_command:
  assumes s: "can_start e c w s sz prog ch k n" and as: "cmd_args w \<noteq> []" and e: "entry_at s (vmem s) (cmd_args w) 2 node"
    and p: "program_at s node sz fl" and u: "user_buf s buf 1024 sz"
  shows "\<exists>s1 s2. execute e (Some c) s = Some (s1, Enter_user (entry_of prog) asm_hex) \<and>
    cat h lit buf s1 = Some (s2, 0) \<and> screen_of s2 = fold screen_putc (cat_output fl) (screen_of s) \<and>
    (\<forall>xs p. ch k = xs @ [p] \<longrightarrow> (\<exists>s3. halt e' 0 s2 = Some (s3, Resume (e_esp e) (e_ebp e) 0) \<and> chains s3 ch))"
proof -
  obtain t where t: "execute e (Some c) s = Some (t, Enter_user (entry_of prog) asm_hex)" "begun s t k n sz"
    "chains t (ch(k := ch k @ [n]))" "runs t k n prog (cmd_args w) (e_esp e) (e_ebp e)"
    using command_starts [OF s] by blast
  have w: "0 \<notin> set (cmd_args w)" "length (cmd_args w) < 128"
    using s by (auto simp: can_start_def command_ok_def holds_str_def cmd_args_def dest: in_set_dropD)
  have a: "has_arg t n (cmd_args w)" using t(4) as w by (simp add: has_arg_def runs_def)
  have f: "foreground t k n" "screen_of t = screen_of s" using t(2) by (simp_all add: begun_def)
  have en: "entry_at t (vmem t) (cmd_args w) 2 node"
    using e begun_entry [OF t(2) program_at_dir [OF p]] by simp
  have i: "free_slot (running_table t) = Some 2" using t(4) slot_two by (simp add: runs_def)
  have ub: "user_buf t buf 1024 sz" using u begun_user_buf [OF t(2)] by simp
  obtain t2 where t2: "cat h lit buf t = Some (t2, 0)" "tame_here t t2" "screen_of t2 = fold screen_putc (cat_output fl) (screen_of t)"
    using cat_run_file [OF f(1) a en begun_file [OF t(2) p] ub i] by blast
  have "\<exists>s3. halt e' 0 t2 = Some (s3, Resume (e_esp e) (e_ebp e) 0) \<and> chains s3 ch" if "ch k = xs @ [q]" for xs q
    using command_ends [OF s t(3,4) t2(2) that, of e' 0] by simp
  then show ?thesis using t(1) t2(1,3) f(2) by (intro exI [of _ t] exI [of _ t2]) simp
qed

subsection \<open>ls\<close>

text \<open>A string literal lies in the bytes of the program, which are loaded at 0x08048000.\<close>

definition literal_at :: "u8 list \<Rightarrow> u32 \<Rightarrow> u8 list \<Rightarrow> bool" where
  "literal_at prog p xs \<longleftrightarrow> (\<exists>off. p = read_buf + of_nat off \<and> off + length xs < length prog \<and>
     take (Suc (length xs)) (drop off prog) = xs @ [0])"

lemma literal_holds:
  assumes b: "bytes m read_buf (length prog) = prog" and l: "length prog \<le> 0x3B8000" and p: "literal_at prog p xs" "0 \<notin> set xs"
  shows "holds_str (view m p) xs" "p \<noteq> 0"
proof -
  obtain off where o: "p = read_buf + of_nat off" "off + length xs < length prog" "take (Suc (length xs)) (drop off prog) = xs @ [0]"
    using p(1) by (auto simp: literal_at_def)
  have m: "m (p + of_nat j) = (xs @ [0]) ! j" if "j \<le> length xs" for j
  proof -
    have "m (read_buf + of_nat (off + j)) = bytes m read_buf (length prog) ! (off + j)"
      using o(2) that by (simp add: bytes_def del: of_nat_add)
    also have "\<dots> = take (Suc (length xs)) (drop off prog) ! j" using o(2) that by (simp add: b)
    finally show ?thesis by (simp add: o(1,3) add.assoc)
  qed
  then show "holds_str (view m p) xs"
    using o(2) l p(2) by (simp add: holds_str_def nth_append)
  show "p \<noteq> 0"
  proof -
    have "in_user_window p" using window_bytes [of off "length prog"] o(1,2) l by simp
    then show ?thesis by (auto simp: in_user_window_def)
  qed
qed

lemma ls_command:
  assumes s: "can_start e c w s sz prog ch k n" and d: "directory s (vmem s) names" "length names \<le> 63" "dir_read_loc s = 0"
    and e: "entry_at s (vmem s) (ascii ''.'') 1 node" and l: "literal_at prog (lit (ascii ''.'')) (ascii ''.'')"
    and b: "\<forall>j<33. in_user_window (buf + of_nat j)"
  shows "\<exists>s1 s2. execute e (Some c) s = Some (s1, Enter_user (entry_of prog) asm_hex) \<and>
    ls h lit buf s1 = Some (s2, 0) \<and>
    screen_of s2 = fold screen_putc (concat (map (\<lambda>nm. nm @ [0x0A]) names)) (screen_of s) \<and>
    (\<forall>xs p. ch k = xs @ [p] \<longrightarrow> (\<exists>s3. halt e' 0 s2 = Some (s3, Resume (e_esp e) (e_ebp e) 0) \<and> chains s3 ch))"
proof -
  obtain t where t: "execute e (Some c) s = Some (t, Enter_user (entry_of prog) asm_hex)" "begun s t k n sz"
    "chains t (ch(k := ch k @ [n]))" "runs t k n prog (cmd_args w) (e_esp e) (e_ebp e)"
    using command_starts [OF s] by blast
  obtain nd where p: "program_at s nd sz prog" "file_sys s = dentry_addr s" "4096 \<le> sz" "kernel_range (dentry_addr s) sz"
    using command_program [OF s] .
  have f: "foreground t k n" "screen_of t = screen_of s" "file_sys t = file_sys s" "dir_read_loc t = 0"
    using t(2) d(3) by (simp_all add: begun_def)
  have "length prog \<le> 0x3B8000" using s by (simp add: can_start_def command_file_def)
  moreover have "bytes (vmem t) read_buf (length prog) = prog" using t(4) by (simp add: runs_def)
  ultimately have h: "holds_str (view (vmem t) (lit (ascii ''.''))) (ascii ''.'')" "lit (ascii ''.'') \<noteq> 0"
    using literal_holds [OF _ _ l] by (simp_all add: ascii_def)
  have en: "entry_at t (vmem t) (ascii ''.'') 1 node" using e begun_entry [OF t(2) p(2,3)] by simp
  have i: "free_slot (running_table t) = Some 2" using t(4) slot_two by (simp add: runs_def)
  have dt: "directory t (vmem t) names"
    by (rule directory_cong [OF f(3) _ d(1)]) (use t(2) p(2,3) d(2) in \<open>simp add: begun_def\<close>)
  have "kernel_range (file_sys t) 4096" using p(2-4) f(3) by (simp add: kernel_range_def)
  from ls_run_dir [where lit = lit, OF f(1) dt this d(2) f(4) en b h i]
  obtain t2 where t2: "ls h lit buf t = Some (t2, 0)" "tame_here t t2"
    "screen_of t2 = fold screen_putc (concat (map (\<lambda>nm. nm @ [0x0A]) names)) (screen_of t)" by blast
  have "\<exists>s3. halt e' 0 t2 = Some (s3, Resume (e_esp e) (e_ebp e) 0) \<and> chains s3 ch" if "ch k = xs @ [q]" for xs q
    using command_ends [OF s t(3,4) t2(2) that, of e' 0] by simp
  then show ?thesis using t(1) t2(1,3) f(2) by (intro exI [of _ t] exI [of _ t2]) simp
qed

subsection \<open>An image with \<open>cat\<close> and \<open>ls\<close>\<close>

text \<open>The directory \<open>.\<close>, two programs \<open>cat\<close> and \<open>ls\<close> with the same 30 bytes, the string literal
  \<open>.\<close> last in them, and a text file \<open>note\<close> of three bytes.\<close>

definition home_image :: mem where
  "home_image = (\<lambda>_. 0)(0x400000 := 4, 0x400004 := 2, 0x400008 := 2,
    0x400040 := 0x2E, 0x400060 := 1,
    0x400080 := 0x63, 0x400081 := 0x61, 0x400082 := 0x74, 0x4000A0 := 2,
    0x4000C0 := 0x6C, 0x4000C1 := 0x73, 0x4000E0 := 2,
    0x400100 := 0x6E, 0x400101 := 0x6F, 0x400102 := 0x74, 0x400103 := 0x65, 0x400120 := 2, 0x400124 := 1,
    0x401000 := 30, 0x402000 := 3, 0x402004 := 1,
    0x403000 := 0x7F, 0x403001 := 0x45, 0x403002 := 0x4C, 0x403003 := 0x46,
    0x403018 := 0x18, 0x403019 := 0x80, 0x40301A := 0x04, 0x40301B := 0x08, 0x40301C := 0x2E,
    0x404000 := 0x68, 0x404001 := 0x69, 0x404002 := 0x0A)"

definition home_file :: "u8 list" where
  "home_file = shell_file @ [0x2E, 0]"

definition note_file :: "u8 list" where
  "note_file = nl ''hi''"

definition kernel_home :: kernel where
  "kernel_home = kernel_up\<lparr>phys := home_image\<rparr>"

lemma kernel_home_simps [simp]:
  "phys kernel_home = home_image" "user_frame kernel_home = 0x800000" "dentry_addr kernel_home = 0x400000"
  "file_sys kernel_home = 0x400000" "current_id kernel_home = 1" "curr_terminal kernel_home = 0"
  "dir_read_loc kernel_home = 0" "op_tables kernel_home = op_tables kernel_up"
  "terminals kernel_home = terminals kernel_up" "pcbs kernel_home = pcbs kernel_up"
  "process_array kernel_home = [1, 0, 0, 0, 0, 0]"
  by (simp_all add: kernel_home_def user_frame_def) (simp_all add: user_frame_def [symmetric])

lemma vmem_kernel_home [simp]: "vmem kernel_home = home_image"
  by (rule vmem_image) (auto simp: home_image_def)

lemma home_image_words:
  "num_dentry kernel_home home_image = 4" "num_inode kernel_home home_image = 2"
  "inode_length kernel_home home_image 0 = 30" "data_block_index kernel_home home_image 0 0 = 0"
  "inode_length kernel_home home_image 1 = 3" "data_block_index kernel_home home_image 1 0 = 1"
  by (simp_all add: num_dentry_def num_inode_def inode_length_def data_block_index_def load32_def home_image_def)

lemma home_contents: "file_contents kernel_home home_image 0 = home_file" "file_contents kernel_home home_image 1 = note_file"
proof -
  have u: "[0..<30] = [0, 1, 2, 3, 4, 5, 6, 7, 8, 9, 10, 11, 12, 13, 14, 15, 16, 17, 18, 19, 20, 21, 22, 23, 24, 25, 26, 27, 28, 29 :: nat]"
    "[0..<3] = [0, 1, 2 :: nat]"
    by (simp_all add: upt_rec)
  have "file_contents kernel_home home_image 0 = map (\<lambda>i. home_image (0x403000 + of_nat i)) [0..<30]"
    unfolding file_contents_def home_image_words
    by (rule map_cong) (auto simp: home_image_words file_byte_def cur_pos_def)
  also have "\<dots> = home_file"
    unfolding u home_file_def shell_file_def by (simp add: home_image_def)
  finally show "file_contents kernel_home home_image 0 = home_file" .
  have "file_contents kernel_home home_image 1 = map (\<lambda>i. home_image (0x404000 + of_nat i)) [0..<3]"
    unfolding file_contents_def home_image_words
    by (rule map_cong) (auto simp: home_image_words file_byte_def cur_pos_def)
  also have "\<dots> = note_file"
    unfolding u note_file_def by (simp add: home_image_def ascii_def)
  finally show "file_contents kernel_home home_image 1 = note_file" .
qed

lemma home_entries:
  "entry_name kernel_home home_image 0 = ascii ''.''" "entry_name kernel_home home_image 1 = ascii ''cat''"
  "entry_name kernel_home home_image 2 = ascii ''ls''" "entry_name kernel_home home_image 3 = ascii ''note''"
  by (simp_all add: entry_name_def numeral_eq_Suc dentry_ptr_def ascii_def) (simp_all add: home_image_def)

lemma home_entry_words:
  "load32 home_image (dentry_ptr kernel_home (of_nat 0) + 32) = 1" "load32 home_image (dentry_ptr kernel_home (of_nat 0) + 36) = 0"
  "load32 home_image (dentry_ptr kernel_home (of_nat 1) + 32) = 2" "load32 home_image (dentry_ptr kernel_home (of_nat 1) + 36) = 0"
  "load32 home_image (dentry_ptr kernel_home (of_nat 2) + 32) = 2" "load32 home_image (dentry_ptr kernel_home (of_nat 2) + 36) = 0"
  "load32 home_image (dentry_ptr kernel_home (of_nat 3) + 32) = 2" "load32 home_image (dentry_ptr kernel_home (of_nat 3) + 36) = 1"
  by (simp_all add: load32_def home_image_def dentry_ptr_def)

lemma find_entry:
  "find P [0..<63] = (if P 0 then Some 0 else if P 1 then Some 1 else if P 2 then Some 2 else if P 3 then Some 3 else find P [4..<63])"
proof -
  have "[0..<63] = 0 # 1 # 2 # 3 # [4 :: nat..<63]" by (simp add: upt_conv_Cons del: upt_rec_numeral)
  then show ?thesis by (simp del: upt_rec_numeral)
qed

lemma home_found:
  "entry_node kernel_home home_image (ascii ''cat'') = Some 0" "entry_node kernel_home home_image (ascii ''ls'') = Some 0"
  "entry_at kernel_home home_image (ascii ''.'') 1 0" "entry_at kernel_home home_image (ascii ''note'') 2 1"
  using home_entries home_entry_words
  by (simp_all add: entry_node_def entry_at_def find_entry ascii_def del: upt_rec_numeral of_nat_numeral)

lemma all_less_4: "(\<forall>j<4. P j) \<longleftrightarrow> P 0 \<and> P 1 \<and> P 2 \<and> P (3 :: nat)"
  by (simp add: numeral_eq_Suc less_Suc_eq all_conj_distrib)

lemma home_names: "directory kernel_home home_image [ascii ''.'', ascii ''cat'', ascii ''ls'', ascii ''note'']"
  using home_entries
  by (simp add: directory_def home_image_words ascii_def all_less_4 numeral_2_eq_2 [symmetric] numeral_3_eq_3 [symmetric])

lemma home_program: "program_at kernel_home 0 0x5000 home_file" "program_at kernel_home 1 0x5000 note_file"
proof -
  have "length home_file = 30" "length note_file = 3" by (simp_all add: home_file_def shell_file_def note_file_def ascii_def)
  then have "file_in_image kernel_home home_image 0x5000 0 (length home_file)" "file_in_image kernel_home home_image 0x5000 1 (length note_file)"
    by (simp_all add: file_in_image_def home_image_words)
  moreover have "frame_ok kernel_home" by (simp add: frame_ok_def frame_of_def) (rule exI [of _ 0], simp)
  ultimately show "program_at kernel_home 0 0x5000 home_file" "program_at kernel_home 1 0x5000 note_file"
    by (simp_all add: program_at_def kernel_range_def home_contents)
qed

lemma kernel_home_chains: "chains kernel_home ((\<lambda>_. [])(0 := [0]))"
  using kernel_shell_chains by (simp add: chains_def blocks_ok_def chain_of_def)

lemma home_starts:
  assumes "command_ok wit_env c w" "cmd_name w = ascii ''cat'' \<or> cmd_name w = ascii ''ls''"
  shows "can_start wit_env c w kernel_home 0x5000 home_file ((\<lambda>_. [])(0 := [0])) 0 3"
proof -
  have "command_file wit_env w kernel_home 0x5000 home_file"
    using home_found(1,2) home_program(1) assms(2)
    by (auto simp: command_file_def stack_buf_def wit_env_def kernel_range_def sep_def home_file_def shell_file_def)
  moreover have "take 4 home_file = executable" by (simp add: home_file_def shell_file_def executable_def)
  moreover have "shown kernel_home 0" using wit_shown(1) by (simp add: shown_def)
  moreover have "screen_ok kernel_home" using kernel_up_screen by (simp add: screen_ok_def kernel_home_def)
  moreover have "tables_ok kernel_home" using kernel_up_ok(1) by (simp add: running_ok_def tables_ok_def init_operation_table_def)
  ultimately show ?thesis using assms(1) kernel_home_chains wit_shown(2) by (simp add: can_start_def)
qed

lemma home_user_buf: "user_buf kernel_home 0x8300000 1024 0x5000"
proof -
  have "in_user_window (0x8300000 + of_nat j)" if "j < 1024" for j
    using that by (simp add: in_user_window_offset unat_of_nat32 unat_word_ariths)
  then show ?thesis by (simp add: user_buf_def sep_def)
qed


lemma home_entry: "entry_of home_file = 0x8048018"
  by (simp add: home_file_def shell_file_def entry_of_def load32_def)

lemma home_literal: "literal_at home_file (read_buf + 28) (ascii ''.'')"
  unfolding literal_at_def by (rule exI [of _ 28]) (simp add: home_file_def shell_file_def ascii_def)

subsection \<open>Properties\<close>

text \<open>C15: A command whose program is \<open>ls\<close>, run on the terminal that is shown while no other listing
  is in progress: \<open>main\<close> prints the names of all directory entries, in the order of the image and
  each on a line of its own, and ends with exit status 0; \<open>halt\<close> continues the parent with the chains
  of processes as before.  The entries may have names of 32 characters, which the image does not
  terminate, as long as these are regular files.\<close>

theorem ls_lists_directory:
  assumes "can_start e c w s sz prog ch k n" and "directory s (vmem s) names" "length names \<le> 63" "dir_read_loc s = 0"
    and "entry_at s (vmem s) (ascii ''.'') 1 node" and "literal_at prog (lit (ascii ''.'')) (ascii ''.'')"
    and "\<forall>j<33. in_user_window (buf + of_nat j)"
  shows "\<exists>s1 s2. execute e (Some c) s = Some (s1, Enter_user (entry_of prog) asm_hex) \<and>
    ls h lit buf s1 = Some (s2, 0) \<and>
    screen_of s2 = fold screen_putc (concat (map (\<lambda>nm. nm @ [0x0A]) names)) (screen_of s) \<and>
    (\<forall>xs p. ch k = xs @ [p] \<longrightarrow> (\<exists>s3. halt e' 0 s2 = Some (s3, Resume (e_esp e) (e_ebp e) 0) \<and> chains s3 ch))"
  by (rule ls_command [where lit = lit, OF assms])

abbreviation ls_line :: "u8 list" where "ls_line \<equiv> ascii ''ls''"

lemma ls_line_words: "cmd_name ls_line = ascii ''ls''" "cmd_args ls_line = []"
  by (simp_all add: cmd_name_def cmd_args_def ascii_def)

lemma ls_line_ok: "command_ok wit_env (array_str (ls_line @ [0])) ls_line"
  using array_str_holds [of ls_line "[]"] ls_line_words by (simp add: command_ok_def ascii_def wit_env_def)

theorem ls_lists_directory_witness:
  "\<exists>s1 s2 s3. execute wit_env (Some (array_str (ls_line @ [0]))) kernel_home = Some (s1, Enter_user 0x8048018 asm_hex) \<and>
    ls (\<lambda>_. \<lparr>during = [], locals = (\<lambda>_. 0), port = 0\<rparr>) (\<lambda>_. read_buf + 28) 0x8300000 s1 = Some (s2, 0) \<and>
    screen_of s2 = fold screen_putc (nl ''.'' @ nl ''cat'' @ nl ''ls'' @ nl ''note'') (screen_of kernel_home) \<and>
    halt wit_env 0 s2 = Some (s3, Resume 0x7FDF00 0x7FDF40 0) \<and> chains s3 ((\<lambda>_. [])(0 := [0]))"
proof -
  have "\<forall>j<33. in_user_window (0x8300000 + of_nat j)" using home_user_buf by (simp add: user_buf_def)
  moreover have "directory kernel_home (vmem kernel_home) [ascii ''.'', ascii ''cat'', ascii ''ls'', ascii ''note'']"
    "entry_at kernel_home (vmem kernel_home) (ascii ''.'') 1 0"
    using home_names home_found(3) by simp_all
  ultimately show ?thesis
    using ls_lists_directory [where h = "\<lambda>_. \<lparr>during = [], locals = (\<lambda>_. 0), port = 0\<rparr>" and lit = "\<lambda>_. read_buf + 28" and e' = wit_env
       and buf = "0x8300000" and names = "[ascii ''.'', ascii ''cat'', ascii ''ls'', ascii ''note'']",
       OF home_starts [OF ls_line_ok disjI2 [OF ls_line_words(1)]] _ _ _ _ home_literal]
    by (auto simp: home_entry wit_env_def)
qed

end
