(* ===== verification/Shell.thy ===== *)
theory Shell
  imports Commands
begin

text \<open>
  Programs that talk with the user: the shell (\<open>syscalls/ece391shell.c\<close>), \<open>hello\<close> and \<open>testprint\<close>.
  \<open>h n\<close>, \<open>lit\<close> and \<open>buf\<close> are as in \<open>User_Programs\<close>.
\<close>

subsection \<open>Programs\<close>

definition testprint :: "(nat \<Rightarrow> 'a kernel_scheme sys_env) \<Rightarrow> (u8 list \<Rightarrow> u32) \<Rightarrow>
    'a kernel_scheme \<Rightarrow> ('a kernel_scheme \<times> int) option" where
  "testprint h lit s =
    do { s \<leftarrow> ece391_fdputs (port (h 0)) 1 (lit (nl ''Hello, if this ran, the program was correct. Yay!'')) s;
         Some (s, 0) }"

definition hello :: "(nat \<Rightarrow> 'a kernel_scheme sys_env) \<Rightarrow> (u8 list \<Rightarrow> u32) \<Rightarrow> u32 \<Rightarrow>
    'a kernel_scheme \<Rightarrow> ('a kernel_scheme \<times> int) option" where
  "hello h lit buf s =
    do { s \<leftarrow> ece391_fdputs (port (h 0)) 1 (lit (ascii ''Hi, what's your name? '')) s;
         (s, cnt) \<leftarrow> sys_read (during (h 1)) (locals (h 1)) 0 buf 1023 s;
         if -1 = cnt then
           do { s \<leftarrow> ece391_fdputs (port (h 2)) 1 (lit (nl ''Can't read name from keyboard.'')) s; Some (s, 3) }
         else
           do { let s = set_vmem ((vmem s)(buf + of_int cnt := 0)) s;
                s \<leftarrow> ece391_fdputs (port (h 2)) 1 (lit (ascii ''Hello, '')) s;
                s \<leftarrow> ece391_fdputs (port (h 3)) 1 buf s;
                Some (s, 0) } }"

text \<open>One turn of the loop of the shell, up to \<open>execute\<close>: what it does with the line.\<close>

datatype shell_act = Shell_exits int | Shell_ignores | Shell_executes

definition shell_line :: "(nat \<Rightarrow> 'a kernel_scheme sys_env) \<Rightarrow> (u8 list \<Rightarrow> u32) \<Rightarrow> u32 \<Rightarrow>
    'a kernel_scheme \<Rightarrow> ('a kernel_scheme \<times> shell_act) option" where
  "shell_line h lit buf s =
    do { s \<leftarrow> ece391_fdputs (port (h 0)) 1 (lit (ascii ''391OS> '')) s;
         (s, cnt) \<leftarrow> sys_read (during (h 1)) (locals (h 1)) 0 buf 1023 s;
         if -1 = cnt then
           do { s \<leftarrow> ece391_fdputs (port (h 2)) 1 (lit (nl ''read from keyboard failed'')) s; Some (s, Shell_exits 3) }
         else
           do { let cnt = (if cnt > 0 \<and> 0x0A = vmem s (buf + of_int (cnt - 1)) then cnt - 1 else cnt);
                let s = set_vmem ((vmem s)(buf + of_int cnt := 0)) s;
                d \<leftarrow> ece391_strcmp (vmem s) buf (lit (ascii ''exit''));
                Some (s, if 0 = d then Shell_exits 0 else if 0 = vmem s buf then Shell_ignores else Shell_executes) } }"

text \<open>What the shell prints when \<open>execute\<close> returns, at once or from \<open>halt\<close> of the program.\<close>

definition shell_report :: "u8 \<Rightarrow> (u8 list \<Rightarrow> u32) \<Rightarrow> int \<Rightarrow> 'a kernel_scheme \<Rightarrow> 'a kernel_scheme option" where
  "shell_report prev lit rval s =
    (if -1 = rval then ece391_fdputs prev 1 (lit (nl ''no such command'')) s
     else if 256 = rval then ece391_fdputs prev 1 (lit (nl ''program terminated by exception'')) s
     else if 0 \<noteq> rval then ece391_fdputs prev 1 (lit (nl ''program terminated abnormally'')) s
     else Some s)"

text \<open>A whole turn.  \<open>Shell_enters\<close>: the machine is now in the program; the shell goes on with
  \<open>shell_report\<close> when \<open>halt\<close> resumes it.\<close>

datatype shell_next = Shell_loops | Shell_ends int | Shell_enters u32 u32

definition shell_turn :: "exec_env \<Rightarrow> (nat \<Rightarrow> 'a kernel_scheme sys_env) \<Rightarrow> (u8 list \<Rightarrow> u32) \<Rightarrow> u32 \<Rightarrow>
    'a kernel_scheme \<Rightarrow> ('a kernel_scheme \<times> shell_next) option" where
  "shell_turn e h lit buf s =
    do { (s, a) \<leftarrow> shell_line h lit buf s;
         case a of
           Shell_exits v \<Rightarrow> Some (s, Shell_ends v)
         | Shell_ignores \<Rightarrow> Some (s, Shell_loops)
         | Shell_executes \<Rightarrow>
             do { (s, r) \<leftarrow> execute e (Some (view (vmem s) buf)) s;
                  case r of
                    Returned v \<Rightarrow> do { s \<leftarrow> shell_report (port (h 2)) lit v s; Some (s, Shell_loops) }
                  | Enter_user entry sp \<Rightarrow> Some (s, Shell_enters entry sp) } }"

subsection \<open>What printing and reading leave alone\<close>

definition spared :: "nat \<Rightarrow> 'a kernel_scheme \<Rightarrow> 'a kernel_scheme \<Rightarrow> bool" where
  "spared n s s' \<longleftrightarrow> tame_here s s' \<and> pcbs s' = pcbs s \<and> op_tables s' = op_tables s \<and> file_sys s' = file_sys s \<and>
     dentry_addr s' = dentry_addr s \<and> dir_read_loc s' = dir_read_loc s \<and>
     (\<forall>a. \<not> in_video a \<longrightarrow> \<not> in_frame (frame_of (of_nat n)) a \<longrightarrow> phys s' a = phys s a)"

lemma spared_refl [simp]: "spared n s s"
  by (simp add: spared_def)

lemma spared_trans [trans]: "spared n s s' \<Longrightarrow> spared n s' s'' \<Longrightarrow> spared n s s''"
  unfolding spared_def using tame_here_trans by auto

lemma spared_putc: "foreground s k n \<Longrightarrow> spared n s (fold putc xs s)"
  using here_tame [OF here_fold_putc, of s xs]
  by (simp add: spared_def fold_putc_kernel frame_simps fold_putc_phys_frame foreground_def)

lemma spared_store:
  assumes "foreground s k n" "\<forall>j<c. in_user_window (buf + of_nat j)"
  shows "spared n s (set_vmem (overlay (vmem s) buf c g) s)"
  using assms tame_set_vmem [of s] unfolding spared_def by (auto simp: frame_simps foreground_def intro: set_vmem_block)

lemma spared_upd: "(\<And>t. calm_term t (g t)) \<Longrightarrow> spared n s (upd_term j g s)"
  using here_tame [OF here_upd, of g s j] by (simp add: spared_def) (simp add: upd_term_def)

lemma window_putc:
  assumes f: "foreground s k n" and v: "in_user_window va"
  shows "vmem (fold putc xs s) va = vmem s va"
proof -
  have "vaddr (fold putc xs s) va = vaddr s va" by (simp add: vaddr_def fold_putc_running)
  then show ?thesis
    using f foreground_vaddr [OF f v] by (simp add: vmem_def fold_putc_phys_frame foreground_def)
qed

text \<open>A string of the program's own memory.\<close>

definition literal :: "'a kernel_scheme \<Rightarrow> (u8 list \<Rightarrow> u32) \<Rightarrow> u8 list \<Rightarrow> bool" where
  "literal s lit xs \<longleftrightarrow> holds_str (view (vmem s) (lit xs)) xs \<and> (\<forall>j\<le>length xs. in_user_window (lit xs + of_nat j))"

lemma foreground_puts:
  assumes f: "foreground s k n" and l: "holds_str (view (vmem s) p) xs" "\<forall>j<length xs. in_user_window (p + of_nat j)"
    and x: "xs \<noteq> []" "length xs < 2147483648"
  shows "ece391_fdputs prev 1 p s = Some (fold putc xs s)"
proof -
  have "strlen (view (vmem s) p) = Some (of_nat (length xs))" using l(1) by (rule strlen_holds)
  moreover have "bytes (vmem s) p (length xs) = xs" using l(1) by (intro bytes_of) (simp add: holds_str_def)
  ultimately show ?thesis
    using foreground_write [OF f l(2) _ x(2), of prev] x(1) by (simp add: ece391_fdputs_def ece391_strlen_eq)
qed

subsection \<open>Reading a line\<close>

lemma terminal_read_waited:
  assumes "spin_while read_waits env (sti s) = Some t"
  shows "terminal_read env buf s = terminal_read [] buf t"
proof -
  have "\<not> read_waits t" using assms by (rule spin_while_exit)
  moreover have "read_waits (sti t) = read_waits t" by (simp add: read_waits_def cur_ix_def term_ix_def sti_def)
  moreover have "cli (sti t) = cli t" by (simp add: cli_def sti_def)
  ultimately show ?thesis using assms by (simp add: terminal_read_def)
qed

lemma foreground_stdin:
  assumes "foreground s k n"
  shows "sys_read env junk 0 buf nb s = terminal_read env buf s"
proof -
  obtain p where p: "running_pcb s = Some p" "fds_ok s p" "proc_block s p" "tables_ok s"
    using assms by (auto simp: foreground_def running_ok_def fds_ok_def)
  have "fd_abs (fd (pcbs s p) ! 0) = Some Stream_in" using p(2) by (simp add: fds_ok_def fd_table_def)
  then have "flags (fd (pcbs s p) ! 0) \<noteq> 0" "op_table (fd (pcbs s p) ! 0) = Stdin_table"
    by (cases "op_table (fd (pcbs s p) ! 0)"; auto simp: fd_abs_def split: if_splits)+
  then show ?thesis using p by (simp add: sys_read_def proc_block_fd tables_ok_at [OF p(4)] call_read_def)
qed

lemma foreground_intr:
  fixes s :: "'a kernel_scheme"
  shows "foreground (s\<lparr>intr := b\<rparr>) k n = foreground s k n"
proof -
  have "fd_table (s\<lparr>intr := b\<rparr>) = fd_table s" "running_pcb (s\<lparr>intr := b\<rparr>) = running_pcb s"
    by (simp_all add: fun_eq_iff fd_table_def running_pcb_def term_ix_def)
  then show ?thesis
    by (simp add: foreground_def shown_def screen_ok_def user_frame_def running_ok_def fds_ok_def proc_block_def
        tables_ok_def init_operation_table_def)
qed

lemma foreground_upd_term:
  fixes s :: "'a kernel_scheme"
  assumes f: "foreground s k n" and g: "\<And>t. cur_pcb (g t) = cur_pcb t"
  shows "foreground (upd_term j g s) k n" "screen_of (upd_term j g s) = screen_of s"
proof -
  have t: "cur_pcb (terminals (upd_term j g s) ! i) = cur_pcb (terminals s ! i)" for i
    using g by (cases "j < length (terminals s)"; cases "i = j") (simp_all add: upd_term_def list_update_beyond)
  have r: "running_pcb (upd_term j g s) = running_pcb s"
    by (simp add: running_pcb_def term_ix_def t) (simp add: upd_term_def)
  have x: "fd_table (upd_term j g s) = fd_table s" by (simp add: fun_eq_iff fd_table_def upd_term_def)
  have "running_ok (upd_term j g s) = running_ok s"
    by (simp add: running_ok_def r fds_ok_def x) (simp add: proc_block_def tables_ok_def init_operation_table_def upd_term_def)
  then show "foreground (upd_term j g s) k n"
    using f r by (simp add: foreground_def) (simp add: shown_def user_frame_def screen_ok_def upd_term_def)
  show "screen_of (upd_term j g s) = screen_of s" by (simp add: screen_of_def upd_term_def)
qed

lemma foreground_line:
  fixes t :: "'a kernel_scheme"
  assumes f: "foreground t k n" and l: "line_ready t k w" and b: "\<forall>j<length w. in_user_window (buf + of_nat j)"
  shows "\<exists>t'. terminal_read [] buf t = Some (t', int (length w)) \<and> foreground t' k n \<and> screen_of t' = screen_of t \<and>
    vmem t' = vmem (set_vmem (overlay (vmem t) buf (length w) ((!) w)) t) \<and> spared n t t'"
proof -
  let ?g = "\<lambda>t. t\<lparr>t_buf := replicate 128 0, t_buf_index := 0, read_flag := 0\<rparr>"
  let ?t0 = "t\<lparr>intr := False\<rparr>"
  let ?t1 = "set_vmem (overlay (vmem ?t0) buf (length w) ((!) w)) ?t0"
  let ?t' = "upd_term k ?g ?t1"
  have f0: "foreground ?t0 k n" using f by (simp add: foreground_intr)
  note s1 = user_store [OF f0 b, where g = "(!) w"]
  note s2 = foreground_upd_term [OF s1(1), of ?g k]
  have r: "terminal_read [] buf t = Some (?t', int (length w))" using terminal_read_ready [OF l, of "[]" buf] by simp
  moreover have "screen_of ?t' = screen_of t" using s1(2) s2(2) by (simp add: screen_of_def)
  moreover have v: "vmem ?t' = vmem (set_vmem (overlay (vmem t) buf (length w) ((!) w)) t)"
    by (simp add: fun_eq_iff vmem_def vaddr_def user_frame_def set_vmem_def upd_term_def)
  moreover have "tame_here t ?t'" by (rule here_tame [OF here_terminal_read [OF r]])
  then have "spared n t ?t'"
    using spared_store [OF f0 b, of "(!) w"] by (simp add: spared_def) (simp add: upd_term_def)
  ultimately show ?thesis using s2(1) by auto
qed

text \<open>
  The user types: while the program waits, interrupts bring the line \<open>w\<close> into the terminal, and \<open>t\<close> is the
  state in which the wait ends.  The process is then again the running one, with its memory as it was.
\<close>

definition types_line :: "('a kernel_scheme \<Rightarrow> 'a kernel_scheme option) list \<Rightarrow> nat \<Rightarrow> nat \<Rightarrow> u8 list \<Rightarrow>
    'a kernel_scheme \<Rightarrow> 'a kernel_scheme \<Rightarrow> bool" where
  "types_line env k n w s t \<longleftrightarrow> spin_while read_waits env (sti s) = Some t \<and> foreground t k n \<and> line_ready t k w \<and>
     (\<forall>va. in_user_window va \<longrightarrow> vmem t va = vmem s va)"

lemma foreground_read_line:
  fixes s :: "'a kernel_scheme"
  assumes f: "foreground s k n" and w: "types_line env k n w s t" and b: "\<forall>j<c. in_user_window (buf + of_nat j)" and c: "128 \<le> c"
  shows "\<exists>t'. sys_read env junk 0 buf nb s = Some (t', int (length w)) \<and> foreground t' k n \<and> screen_of t' = screen_of t \<and>
    spared n t t' \<and> (\<forall>j<length w. vmem t' (buf + of_nat j) = w ! j) \<and>
    (\<forall>va. in_user_window va \<longrightarrow> c \<le> unat (va - buf) \<longrightarrow> vmem t' va = vmem s va)"
proof -
  have t: "spin_while read_waits env (sti s) = Some t" "foreground t k n" "line_ready t k w" "length w < 128"
    "\<And>va. in_user_window va \<Longrightarrow> vmem t va = vmem s va"
    using w by (auto simp: types_line_def line_ready_def)
  have b': "\<forall>j<length w. in_user_window (buf + of_nat j)" using b c t(4) by simp
  obtain t' where t': "terminal_read [] buf t = Some (t', int (length w))" "foreground t' k n" "screen_of t' = screen_of t"
    "vmem t' = vmem (set_vmem (overlay (vmem t) buf (length w) ((!) w)) t)" "spared n t t'"
    using foreground_line [OF t(2,3) b'] by blast
  have "sys_read env junk 0 buf nb s = Some (t', int (length w))"
    using t'(1) by (simp add: foreground_stdin [OF f] terminal_read_waited [OF t(1)])
  moreover have "\<forall>j<length w. vmem t' (buf + of_nat j) = w ! j"
    using b' t(4) by (simp add: t'(4) vmem_set_window overlay_inside)
  moreover have "vmem t' va = vmem s va" if "in_user_window va" "c \<le> unat (va - buf)" for va
    using that c t(4,5) by (simp add: t'(4) vmem_set_window overlay_outside)
  ultimately show ?thesis using t' by blast
qed

lemma line_size_fits: "(128 :: nat) \<le> 1024" by simp

text \<open>The NUL behind the line.\<close>

lemma foreground_terminate:
  fixes s :: "'a kernel_scheme"
  assumes f: "foreground s k n" and b: "\<forall>j<1024. in_user_window (buf + of_nat j)"
    and v: "\<forall>j<length v. vmem s (buf + of_nat j) = v ! j" "0 \<notin> set v" "length v < 1024"
  defines "s' \<equiv> set_vmem ((vmem s)(buf + of_nat (length v) := 0)) s"
  shows "foreground s' k n" "screen_of s' = screen_of s" "spared n s s'" "holds_str (view (vmem s') buf) v"
    "in_user_window va \<Longrightarrow> 1024 \<le> unat (va - buf) \<Longrightarrow> vmem s' va = vmem s va"
proof -
  let ?g = "\<lambda>j. if j = length v then 0 else vmem s (buf + of_nat j)"
  have s': "s' = set_vmem (overlay (vmem s) buf 1024 ?g) s"
    unfolding s'_def using v(3) by (simp add: upd_overlay [of _ 1024])
  note st = user_store [OF f b, where g = ?g, folded s']
  show "foreground s' k n" "screen_of s' = screen_of s" by (fact st(1,2))+
  show "spared n s s'" unfolding s' by (rule spared_store [OF f b])
  have at: "vmem s' (buf + of_nat j) = ?g j" if "j < 1024" for j using st(3) [OF that] by simp
  show "holds_str (view (vmem s') buf) v"
    using v at by (simp add: holds_str_def)
  show "in_user_window va \<Longrightarrow> 1024 \<le> unat (va - buf) \<Longrightarrow> vmem s' va = vmem s va"
    by (simp add: s' vmem_set_window overlay_outside)
qed

lemma literal_far:
  assumes l: "literal s lit xs" and eq: "\<forall>j\<le>length xs. vmem s' (lit xs + of_nat j) = vmem s (lit xs + of_nat j)"
  shows "literal s' lit xs"
  using assms by (simp add: literal_def holds_str_def)

lemma literal_putc:
  assumes f: "foreground s k n" and l: "literal s lit xs"
  shows "literal (fold putc ys s) lit xs"
  by (rule literal_far [OF l]) (use l window_putc [OF f] in \<open>simp add: literal_def\<close>)

subsection \<open>A turn of the shell\<close>

definition strip_line :: "u8 list \<Rightarrow> u8 list" where
  "strip_line w = (if w \<noteq> [] \<and> last w = 0x0A then butlast w else w)"

text \<open>A literal outside the buffer of \<open>c\<close> bytes.\<close>

definition apart :: "nat \<Rightarrow> (u8 list \<Rightarrow> u32) \<Rightarrow> u32 \<Rightarrow> u8 list \<Rightarrow> bool" where
  "apart c lit buf xs \<longleftrightarrow> (\<forall>j\<le>length xs. c \<le> unat (lit xs + of_nat j - buf))"

abbreviation prompt :: "u8 list" where "prompt \<equiv> ascii ''391OS> ''"

definition shell_waits :: "(u8 list \<Rightarrow> u32) \<Rightarrow> u32 \<Rightarrow> 'a kernel_scheme \<Rightarrow> nat \<Rightarrow> nat \<Rightarrow> bool" where
  "shell_waits lit buf s k n \<longleftrightarrow> foreground s k n \<and> (\<forall>j<1024. in_user_window (buf + of_nat j)) \<and> 
     (\<forall>x \<in> {prompt, ascii ''exit'', nl ''no such command''}. literal s lit x \<and> apart 1024 lit buf x)"

lemma shell_line_reads:
  fixes s :: "'a kernel_scheme"
  assumes s: "shell_waits lit buf s k n" and w: "types_line (during (h 1)) k n w (fold putc prompt s) t"
  shows "\<exists>s'. shell_line h lit buf s =
      Some (s', if strip_line w = ascii ''exit'' then Shell_exits 0 else if strip_line w = [] then Shell_ignores else Shell_executes) \<and>
    foreground s' k n \<and> holds_str (view (vmem s') buf) (strip_line w) \<and> screen_of s' = screen_of t \<and> spared n t s' \<and>
    (\<forall>va. in_user_window va \<longrightarrow> 1024 \<le> unat (va - buf) \<longrightarrow> vmem s' va = vmem s va)"
proof -
  define v where "v = strip_line w"
  have f: "foreground s k n" and b: "\<forall>j<1024. in_user_window (buf + of_nat j)" and lp: "literal s lit prompt"
    and lx: "literal s lit (ascii ''exit'')" "apart 1024 lit buf (ascii ''exit'')"
    using s by (simp_all add: shell_waits_def)
  have wl: "0 \<notin> set w" "length w < 128" using w by (simp_all add: types_line_def line_ready_def)
  have p: "ece391_fdputs (port (h 0)) 1 (lit prompt) s = Some (fold putc prompt s)"
    using lp by (intro foreground_puts [OF f]) (auto simp: literal_def ascii_def)
  obtain t' where t': "sys_read (during (h 1)) (locals (h 1)) 0 buf 1023 (fold putc prompt s) = Some (t', int (length w))"
    "foreground t' k n" "screen_of t' = screen_of t" "spared n t t'" "\<forall>j<length w. vmem t' (buf + of_nat j) = w ! j"
    "\<And>va. in_user_window va \<Longrightarrow> 1024 \<le> unat (va - buf) \<Longrightarrow> vmem t' va = vmem s va"
    using foreground_read_line [OF foreground_putc [OF f] w b] window_putc [OF f] by (metis line_size_fits)
  have c: "(if int (length w) > 0 \<and> 0x0A = vmem t' (buf + of_int (int (length w) - 1)) then int (length w) - 1 else int (length w)) = int (length v)"
  proof (cases w rule: rev_cases)
    case (snoc u x)
    then have "vmem t' (buf + of_nat (length u)) = x" using t'(5) by simp
    then show ?thesis using snoc by (simp add: v_def strip_line_def)
  qed (simp add: v_def strip_line_def)
  have v: "\<forall>j<length v. vmem t' (buf + of_nat j) = v ! j" "0 \<notin> set v" "length v < 1024"
    using t'(5) wl by (auto simp: v_def strip_line_def nth_butlast dest: in_set_butlastD)
  define s2 where "s2 = set_vmem ((vmem t')(buf + of_nat (length v) := 0)) t'"
  note s2 = foreground_terminate [OF t'(2) b v, folded s2_def]
  have far: "vmem s2 va = vmem s va" if "in_user_window va" "1024 \<le> unat (va - buf)" for va
    using s2(5) [OF that] t'(6) [OF that] by simp
  have "literal s2 lit (ascii ''exit'')"
    using lx by (intro literal_far [OF lx(1)]) (auto simp: literal_def apart_def intro!: far)
  then obtain d where d: "ece391_strcmp (vmem s2) buf (lit (ascii ''exit'')) = Some d" "d = 0 \<longleftrightarrow> v = ascii ''exit''"
    using ece391_strcmp_holds [OF s2(4), of "lit (ascii ''exit'')" "ascii ''exit''"] by (auto simp: literal_def)
  have z: "vmem s2 buf = 0 \<longleftrightarrow> v = []"
    using s2(4) by (cases v) (auto simp: holds_str_def)
  have "shell_line h lit buf s = Some (s2, if v = ascii ''exit'' then Shell_exits 0 else if v = [] then Shell_ignores else Shell_executes)"
    unfolding shell_line_def p t'(1) bind.bind_lunit prod.case c Let_def of_int_of_nat_eq s2_def [symmetric] d(1)
    using d(2) z by auto
  moreover have "spared n t s2" using t'(4) s2(3) by (rule spared_trans)
  moreover have "screen_of s2 = screen_of t" using s2(2) t'(3) by simp
  ultimately show ?thesis using s2(1,4) far unfolding v_def by blast
qed

text \<open>The image is spared: its bytes, its entries, its programs.\<close>

lemma spared_image:
  assumes q: "spared n t s" "n < 6" "frame_ok s" and d: "kernel_range (dentry_addr t) sz" "frame_ok t" "x < sz"
  shows "phys s (dentry_addr t + of_nat x) = phys t (dentry_addr t + of_nat x)"
    and "vmem s (dentry_addr t + of_nat x) = vmem t (dentry_addr t + of_nat x)"
proof -
  have "unat (frame_of (of_nat n)) = (n + 2) * 4194304" using q(2) by (rule frame_of_unat)
  then have "\<not> in_frame (frame_of (of_nat n)) (dentry_addr t + of_nat x)"
    using kernel_range_nth [OF d(1,3)] d(1,3) q(2) unat_sub_if' [of "dentry_addr t + of_nat x" "frame_of (of_nat n)"]
    by (simp add: in_frame_def kernel_range_def)
  then show "phys s (dentry_addr t + of_nat x) = phys t (dentry_addr t + of_nat x)"
    using q(1) video_kernel [OF d(1,3)] by (simp add: spared_def)
  then show "vmem s (dentry_addr t + of_nat x) = vmem t (dentry_addr t + of_nat x)"
    using kernel_range_vmem(1) [OF d] kernel_range_vmem(1) [OF d(1) q(3) d(3)] by simp
qed

lemma spared_entry:
  assumes q: "spared n t s" "n < 6" "frame_ok s" and d: "kernel_range (dentry_addr t) 4096" "frame_ok t" "file_sys t = dentry_addr t"
  shows "entry_at s (vmem s) nm ty nd = entry_at t (vmem t) nm ty nd"
  using q(1) d(3) spared_image(2) [OF q d(1,2)] by (intro entry_at_cong) (auto simp: spared_def)

lemma entry_node_at: "length nm \<le> 32 \<Longrightarrow> entry_node s m nm = Some node \<longleftrightarrow> (\<exists>ty. entry_at s m nm ty node)"
  by (auto simp: entry_node_def entry_at_def)

lemma spared_node:
  assumes q: "spared n t s" "n < 6" "frame_ok s" and d: "kernel_range (dentry_addr t) 4096" "frame_ok t" "file_sys t = dentry_addr t"
    and l: "length nm \<le> 32"
  shows "entry_node s (vmem s) nm = entry_node t (vmem t) nm"
proof -
  have "entry_node s (vmem s) nm = Some node \<longleftrightarrow> entry_node t (vmem t) nm = Some node" for node
    using spared_entry [OF q d] by (simp add: entry_node_at [OF l])
  then show ?thesis by (metis not_Some_eq)
qed

lemma spared_program:
  assumes q: "spared n t s" "n < 6" "frame_ok s" and p: "program_at t node sz fl"
  shows "program_at s node sz fl" "entry_at s (vmem s) nm ty nd = entry_at t (vmem t) nm ty nd"
proof -
  have d: "kernel_range (dentry_addr t) sz" "frame_ok t" "file_sys t = dentry_addr t" "4096 \<le> sz"
    using p program_at_dir [OF p] by (simp_all add: program_at_def)
  show "program_at s node sz fl"
    using q spared_image(1) [OF q d(1,2)] by (intro program_at_cong [OF p]) (simp_all add: spared_def)
  show "entry_at s (vmem s) nm ty nd = entry_at t (vmem t) nm ty nd"
    using d by (intro spared_entry [OF q _ d(2,3)]) (simp add: kernel_range_def)
qed

text \<open>A command that could start in \<open>t\<close> can start in \<open>s\<close>.\<close>

lemma spared_starts:
  assumes st: "can_start e c v t sz prog ch k m" and q: "spared n t s" and f: "foreground s k n" and h: "holds_str c' v"
  shows "can_start e c' v s sz prog ch k m"
proof -
  have a: "command_ok e c v" "command_file e v t sz prog" "take 4 prog = executable" "chains t ch" "free_pid ch k = Some m" "tables_ok t"
    using st by (simp_all add: can_start_def)
  have ok: "command_ok e c' v" using a(1) h by (simp add: command_ok_def)
  obtain node where d: "entry_node t (vmem t) (cmd_name v) = Some node" "program_at t node sz prog"
    using a(2) by (auto simp: command_file_def)
  have n: "n < 6" "frame_ok s" using f foreground_frame [OF f] by (simp_all add: foreground_def)
  have "length (cmd_name v) \<le> 32" using ok by (simp add: command_ok_def)
  then have "entry_node s (vmem s) (cmd_name v) = Some node"
    using d(1) by (simp add: entry_node_at spared_program(2) [OF q n d(2)])
  moreover have "stack_buf s (e_bufp e) sz" using a(2) q by (simp add: command_file_def stack_buf_def spared_def)
  ultimately have "command_file e v s sz prog"
    using a(2) spared_program(1) [OF q n d(2)] by (auto simp: command_file_def)
  moreover have "chains s ch" using tame_chains [OF a(4)] q by (simp add: spared_def tame_here_def)
  moreover have "tables_ok s" using a(6) q by (simp add: tables_ok_def init_operation_table_def spared_def)
  ultimately show ?thesis using ok a(3,5) f by (simp add: can_start_def foreground_def)
qed

lemma shell_runs:
  fixes s :: "'a kernel_scheme"
  assumes s: "shell_waits lit buf s k n" and w: "types_line (during (h 1)) k n w (fold putc prompt s) t"
    and v: "v = strip_line w" "v \<noteq> []" "v \<noteq> ascii ''exit''" and st: "can_start e (array_str (v @ [0])) v t sz prog ch k m"
  shows "\<exists>u. (\<forall>s1 entry sp. execute e (Some (view (vmem u) buf)) u = Some (s1, Enter_user entry sp) \<longrightarrow>
      shell_turn e h lit buf s = Some (s1, Shell_enters entry sp)) \<and>
    can_start e (view (vmem u) buf) v u sz prog ch k m \<and> foreground u k n \<and> spared n t u \<and> screen_of u = screen_of t"
proof -
  obtain u where u: "shell_line h lit buf s = Some (u, Shell_executes)" "foreground u k n" "holds_str (view (vmem u) buf) v"
    "screen_of u = screen_of t" "spared n t u"
    using shell_line_reads [where h = h, OF s w] v by auto
  show ?thesis
    using u spared_starts [OF st u(5,2,3)] by (intro exI [of _ u]) (simp add: shell_turn_def)
qed

lemma shell_enters:
  fixes s :: "'a kernel_scheme"
  assumes "shell_waits lit buf s k n" and "types_line (during (h 1)) k n w (fold putc prompt s) t"
    and "v = strip_line w" "v \<noteq> []" "v \<noteq> ascii ''exit''" and "can_start e (array_str (v @ [0])) v t sz prog ch k m"
  shows "\<exists>s1. shell_turn e h lit buf s = Some (s1, Shell_enters (entry_of prog) asm_hex) \<and>
    chains s1 (ch(k := ch k @ [m])) \<and> runs s1 k m prog (cmd_args v) (e_esp e) (e_ebp e) \<and> screen_of s1 = screen_of t"
proof -
  obtain u where u: "\<And>s1 entry sp. execute e (Some (view (vmem u) buf)) u = Some (s1, Enter_user entry sp) \<Longrightarrow>
      shell_turn e h lit buf s = Some (s1, Shell_enters entry sp)"
    "can_start e (view (vmem u) buf) v u sz prog ch k m" "screen_of u = screen_of t"
    using shell_runs [where h = h, OF assms] by blast
  from command_starts [OF u(2)] u(1,3) show ?thesis by (fastforce simp: begun_def)
qed

lemma shell_unknown:
  fixes s :: "'a kernel_scheme"
  assumes s: "shell_waits lit buf s k n" and w: "types_line (during (h 1)) k n w (fold putc prompt s) t"
    and v: "v = strip_line w" "v \<noteq> []" "v \<noteq> ascii ''exit''" and c: "command_ok e (array_str (v @ [0])) v"
    and i: "file_sys t = dentry_addr t" "kernel_range (dentry_addr t) 4096" and none: "entry_node t (vmem t) (cmd_name v) = None"
  shows "\<exists>s1. shell_turn e h lit buf s = Some (s1, Shell_loops) \<and> shell_waits lit buf s1 k n \<and> tame_here t s1 \<and>
    screen_of s1 = fold screen_putc (nl ''no such command'') (screen_of t)"
proof -
  define msg where "msg = nl ''no such command''"
  obtain u where u: "shell_line h lit buf s = Some (u, Shell_executes)" "foreground u k n" "holds_str (view (vmem u) buf) v"
    "screen_of u = screen_of t" "spared n t u" "\<And>va. in_user_window va \<Longrightarrow> 1024 \<le> unat (va - buf) \<Longrightarrow> vmem u va = vmem s va"
    using shell_line_reads [where h = h, OF s w] v by auto
  have n: "n < 6" "frame_ok u" "frame_ok t"
    using u(2) foreground_frame [OF u(2)] w foreground_frame by (auto simp: foreground_def types_line_def)
  have le: "length (cmd_name v) \<le> 32" and ok: "command_ok e (view (vmem u) buf) v" using c u(3) by (simp_all add: command_ok_def)
  have "entry_node u (vmem u) (cmd_name v) = entry_node t (vmem t) (cmd_name v)"
    by (rule spared_node [OF u(5) n(1,2) i(2) n(3) i(1) le])
  then have x: "execute e (Some (view (vmem u) buf)) u = Some (cli u, Returned (-1))"
    unfolding execute_words [OF ok] by (simp add: none)
  have lits: "literal s lit y" "apart 1024 lit buf y" if "y \<in> {prompt, ascii ''exit'', msg}" for y
    using s that by (auto simp: shell_waits_def msg_def)
  have c0: "vmem (cli u) = vmem u" "screen_of (cli u) = screen_of u" and f1: "foreground (cli u) k n"
    using u(2) by (simp_all add: cli_def foreground_intr screen_of_def)
  have lu: "literal (cli u) lit y" if "y \<in> {prompt, ascii ''exit'', msg}" for y
    using lits [OF that] by (intro literal_far [OF lits(1) [OF that]]) (auto simp: c0 literal_def apart_def intro!: u(6))
  have p: "ece391_fdputs (port (h 2)) 1 (lit msg) (cli u) = Some (fold putc msg (cli u))"
    using lu [of msg] by (intro foreground_puts [OF f1]) (auto simp: literal_def msg_def ascii_def)
  let ?s1 = "fold putc msg (cli u)"
  have "literal ?s1 lit y" if "y \<in> {prompt, ascii ''exit'', msg}" for y
    using f1 lu [OF that] by (rule literal_putc)
  then have "shell_waits lit buf ?s1 k n"
    using lits foreground_putc [OF f1, of msg] s [unfolded shell_waits_def, folded msg_def]
    unfolding shell_waits_def msg_def [symmetric] by blast
  moreover have "tame_here t ?s1"
  proof -
    have "tame_here t u" using u(5) by (simp add: spared_def)
    also have "tame_here u (cli u)" by (intro here_tame here_console)
    also have "tame_here (cli u) ?s1" by (rule here_tame [OF here_fold_putc])
    finally show ?thesis .
  qed
  moreover have "screen_of ?s1 = fold screen_putc msg (screen_of t)"
    using f1 by (simp add: fold_putc_refines foreground_def c0 u(4))
  ultimately show ?thesis using u(1) x p unfolding msg_def by (auto simp: shell_turn_def shell_report_def)
qed

text \<open>A whole command: typed at the shell, run, and back.\<close>

lemma shell_cat:
  fixes s :: "'a kernel_scheme"
  assumes s: "shell_waits lit buf s k n" and w: "types_line (during (h 1)) k n w (fold putc prompt s) t"
    and v: "v = strip_line w" "v \<noteq> []" "v \<noteq> ascii ''exit''" and st: "can_start e (array_str (v @ [0])) v t sz prog ch k m"
    and as: "cmd_args v \<noteq> []" and en: "entry_at t (vmem t) (cmd_args v) 2 node"
    and p: "program_at t node sz fl" and b: "user_buf t cbuf 1024 sz" and ch: "ch k = xs @ [n]"
  shows "\<exists>s1 s2 s3. shell_turn e h lit buf s = Some (s1, Shell_enters (entry_of prog) asm_hex) \<and>
    cat h' lit' cbuf s1 = Some (s2, 0) \<and> screen_of s2 = fold screen_putc (cat_output fl) (screen_of t) \<and>
    halt e' 0 s2 = Some (s3, Resume (e_esp e) (e_ebp e) 0) \<and> chains s3 ch \<and> shell_report prev lit 0 s3 = Some s3"
proof -
  obtain u where u: "\<And>s1 entry sp. execute e (Some (view (vmem u) buf)) u = Some (s1, Enter_user entry sp) \<Longrightarrow>
      shell_turn e h lit buf s = Some (s1, Shell_enters entry sp)"
    "can_start e (view (vmem u) buf) v u sz prog ch k m" "foreground u k n" "spared n t u" "screen_of u = screen_of t"
    using shell_runs [where h = h, OF s w v st] by blast
  have n: "n < 6" "frame_ok u" using u(3) foreground_frame [OF u(3)] by (simp_all add: foreground_def)
  note pr = spared_program [OF u(4) n p]
  have "entry_at u (vmem u) (cmd_args v) 2 node" using en pr(2) by simp
  moreover have "user_buf u cbuf 1024 sz" using b u(4) by (simp add: user_buf_def spared_def)
  ultimately obtain s1 s2 where "execute e (Some (view (vmem u) buf)) u = Some (s1, Enter_user (entry_of prog) asm_hex)"
    "cat h' lit' cbuf s1 = Some (s2, 0)" "screen_of s2 = fold screen_putc (cat_output fl) (screen_of u)"
    "\<exists>s3. halt e' 0 s2 = Some (s3, Resume (e_esp e) (e_ebp e) 0) \<and> chains s3 ch"
    using cat_command [OF u(2) as _ pr(1), of cbuf h' lit' e'] ch by blast
  then show ?thesis using u(1,5) by (auto simp: shell_report_def)
qed

lemma testprint_prints:
  fixes s :: "'a kernel_scheme"
  defines "msg \<equiv> nl ''Hello, if this ran, the program was correct. Yay!''"
  assumes f: "foreground s k n" and l: "literal s lit msg"
  shows "testprint h lit s = Some (fold putc msg s, 0)"
proof -
  have "ece391_fdputs (port (h 0)) 1 (lit msg) s = Some (fold putc msg s)"
    using l by (intro foreground_puts [OF f]) (auto simp: literal_def msg_def ascii_def)
  then show ?thesis unfolding testprint_def msg_def [symmetric] by simp
qed

text \<open>\<open>hello\<close> greets with the line as it was typed.\<close>

lemma hello_greets:
  fixes s :: "'a kernel_scheme"
  defines "ask \<equiv> ascii ''Hi, what's your name? ''" and "greet \<equiv> ascii ''Hello, ''"
  assumes f: "foreground s k n" and b: "\<forall>j<1024. in_user_window (buf + of_nat j)" and l: "literal s lit ask"
    and g: "literal s lit greet" "apart 1024 lit buf greet"
    and w: "types_line (during (h 1)) k n w (fold putc ask s) t" "w \<noteq> []"
  shows "\<exists>s'. hello h lit buf s = Some (s', 0) \<and> foreground s' k n \<and> screen_of s' = fold screen_putc (greet @ w) (screen_of t)"
proof -
  have wl: "0 \<notin> set w" "length w < 128" using w by (simp_all add: types_line_def line_ready_def)
  have p: "ece391_fdputs (port (h 0)) 1 (lit ask) s = Some (fold putc ask s)"
    using l by (intro foreground_puts [OF f]) (auto simp: literal_def ascii_def ask_def)
  obtain t' where t': "sys_read (during (h 1)) (locals (h 1)) 0 buf 1023 (fold putc ask s) = Some (t', int (length w))"
    "foreground t' k n" "screen_of t' = screen_of t" "\<forall>j<length w. vmem t' (buf + of_nat j) = w ! j"
    "\<And>va. in_user_window va \<Longrightarrow> 1024 \<le> unat (va - buf) \<Longrightarrow> vmem t' va = vmem s va"
    using foreground_read_line [OF foreground_putc [OF f] w(1) b] window_putc [OF f] by (metis line_size_fits)
  have "length w < 1024" using wl(2) by simp
  define s2 where "s2 = set_vmem ((vmem t')(buf + of_nat (length w) := 0)) t'"
  note s2 = foreground_terminate [OF t'(2) b t'(4) wl(1) \<open>length w < 1024\<close>, folded s2_def]
  have "literal s2 lit greet"
    using g by (intro literal_far [OF g(1)]) (auto simp: literal_def apart_def s2(5) t'(5))
  then have p2: "ece391_fdputs (port (h 2)) 1 (lit greet) s2 = Some (fold putc greet s2)"
    by (intro foreground_puts [OF s2(1)]) (auto simp: literal_def ascii_def greet_def)
  let ?s3 = "fold putc greet s2"
  note f3 = foreground_putc [OF s2(1), of greet]
  have v3: "vmem ?s3 (buf + of_nat j) = vmem s2 (buf + of_nat j)" if "j < 1024" for j
    using window_putc [OF s2(1)] b that by blast
  have "holds_str (view (vmem ?s3) buf) w"
    using s2(4) wl(2) v3 by (auto simp: holds_str_def)
  then have p3: "ece391_fdputs (port (h 3)) 1 buf ?s3 = Some (fold putc w ?s3)"
    using b wl(2) w(2) by (intro foreground_puts [OF f3]) auto
  have "hello h lit buf s = Some (fold putc w ?s3, 0)"
    unfolding hello_def ask_def [symmetric] greet_def [symmetric] p t'(1) bind.bind_lunit prod.case
    using p2 p3 by (simp flip: s2_def)
  moreover have "screen_of (fold putc w ?s3) = fold screen_putc (greet @ w) (screen_of t)"
  proof -
    have "screen_ok s2" "screen_ok ?s3" using s2(1) f3 by (simp_all add: foreground_def)
    then show ?thesis using s2(2) t'(3) by (simp add: fold_putc_refines)
  qed
  ultimately show ?thesis using foreground_putc [OF f3] by blast
qed

subsection \<open>States for the witnesses\<close>

text \<open>String literals one behind the other.\<close>

definition place :: "u8 list list \<Rightarrow> u8 list" where
  "place ts = concat (map (\<lambda>x. x @ [0]) ts)"

fun place_of :: "u8 list list \<Rightarrow> u8 list \<Rightarrow> nat" where
  "place_of [] x = 0"
| "place_of (y # ys) x = (if x = y then 0 else Suc (length y) + place_of ys x)"

lemma place_at:
  "x \<in> set ts \<Longrightarrow> place_of ts x + length x < length (place ts) \<and> (\<forall>j\<le>length x. place ts ! (place_of ts x + j) = (x @ [0]) ! j)"
  by (induction ts) (auto simp: place_def nth_append)

text \<open>The first shell with the literals \<open>ts\<close> in its memory, and the line \<open>w\<close> typed ahead.\<close>

definition user_lit :: "u8 list list \<Rightarrow> u8 list \<Rightarrow> u32" where
  "user_lit ts x = 0x8048100 + of_nat (place_of ts x)"

definition kernel_talk :: "u8 list list \<Rightarrow> u8 list \<Rightarrow> kernel" where
  "kernel_talk ts w = upd_term 0 (\<lambda>t. t\<lparr>t_buf := w @ replicate (128 - length w) 0, t_buf_index := of_nat (length w), read_flag := 1\<rparr>)
     (set_vmem (overlay (vmem kernel_home) 0x8048100 (length (place ts)) ((!) (place ts))) kernel_home)"

lemma kernel_home_foreground: "foreground kernel_home 0 0"
proof -
  have "fd_table kernel_home = fd_table kernel_up" "running_pcb kernel_home = running_pcb kernel_up"
    by (simp_all add: fun_eq_iff fd_table_def running_pcb_def term_ix_def)
  then have "running_ok kernel_home = running_ok kernel_up"
    by (simp add: running_ok_def fds_ok_def proc_block_def tables_ok_def init_operation_table_def)
  moreover have "current_pcb kernel_home = current_pcb kernel_up" "screen_ok kernel_home = screen_ok kernel_up"
    by (simp_all add: kernel_home_def screen_ok_def)
  ultimately show ?thesis
    using kernel_up_ok(1,2) \<open>running_pcb kernel_home = running_pcb kernel_up\<close>
    by (simp add: foreground_def shown_def frame_of_def)
qed

lemma talk_window: "j < 4096 \<Longrightarrow> in_user_window (0x8048100 + of_nat j)"
  by (simp add: in_user_window_offset unat_of_nat32 unat_word_ariths)

lemma kernel_talk_foreground:
  assumes "length (place ts) < 4096"
  shows "foreground (kernel_talk ts w) 0 0" "spared 0 kernel_home (kernel_talk ts w)"
    and "j < length (place ts) \<Longrightarrow> vmem (kernel_talk ts w) (0x8048100 + of_nat j) = place ts ! j"
proof -
  have b: "\<forall>j<length (place ts). in_user_window (0x8048100 + of_nat j)" using talk_window assms by simp
  note st = user_store [OF kernel_home_foreground b, where g = "(!) (place ts)"]
  show "foreground (kernel_talk ts w) 0 0"
    using st(1) unfolding kernel_talk_def by (intro foreground_upd_term) simp_all
  show "j < length (place ts) \<Longrightarrow> vmem (kernel_talk ts w) (0x8048100 + of_nat j) = place ts ! j"
    using st(3) assms by (simp add: kernel_talk_def)
  let ?s = "set_vmem (overlay (vmem kernel_home) 0x8048100 (length (place ts)) ((!) (place ts))) kernel_home"
  have "spared 0 kernel_home ?s" by (rule spared_store [OF kernel_home_foreground b])
  also have "spared 0 ?s (kernel_talk ts w)" unfolding kernel_talk_def by (rule spared_upd) (simp add: calm_term_def same_procs_def)
  finally show "spared 0 kernel_home (kernel_talk ts w)" .
qed

lemma talk_literal:
  assumes l: "length (place ts) < 4096" and x: "x \<in> set ts" "0 \<notin> set x"
  shows "literal (kernel_talk ts w) (user_lit ts) x" "apart 1024 (user_lit ts) 0x8300000 x"
proof -
  note p = place_at [OF x(1)]
  have a: "user_lit ts x + of_nat j = 0x8048100 + of_nat (place_of ts x + j)" for j by (simp add: user_lit_def)
  have lt: "place_of ts x + j < length (place ts)" if "j \<le> length x" for j using p that by simp
  have v: "vmem (kernel_talk ts w) (user_lit ts x + of_nat j) = (x @ [0]) ! j" if "j \<le> length x" for j
    unfolding a using kernel_talk_foreground(3) [OF l lt [OF that]] p that by simp
  show "literal (kernel_talk ts w) (user_lit ts) x"
  proof -
    have "in_user_window (0x8048100 + of_nat (place_of ts x + j))" if "j \<le> length x" for j
      using lt [OF that] l by (intro talk_window) simp
    moreover have "length x < 4294967296" using p l by simp
    ultimately show ?thesis
      using x(2) v unfolding literal_def holds_str_def view_apply a by (auto simp: nth_append simp del: of_nat_add)
  qed
  show "apart 1024 (user_lit ts) 0x8300000 x"
  proof -
    have "unat (of_nat (place_of ts x + j) :: u32) = place_of ts x + j" if "j \<le> length x" for j
      using lt [OF that] l by (intro unat_of_nat32) simp
    then show ?thesis
      unfolding apart_def a using lt l by (auto simp: unat_sub_if' unat_word_ariths simp del: of_nat_add) fastforce
  qed
qed

text \<open>The state behind the text \<open>ask\<close> in which the line is read.\<close>

definition talk_typed :: "u8 list list \<Rightarrow> u8 list \<Rightarrow> u8 list \<Rightarrow> kernel" where
  "talk_typed ts ask w = sti (fold putc ask (kernel_talk ts w))"

lemma talk_types:
  assumes "0 \<notin> set w" "length w < 128" "length (place ts) < 4096"
  shows "types_line [] 0 0 w (fold putc ask (kernel_talk ts w)) (talk_typed ts ask w)" "spared 0 kernel_home (talk_typed ts ask w)"
proof -
  note k = kernel_talk_foreground [OF assms(3), where w = w]
  have l: "line_ready (fold putc ask (kernel_talk ts w)) 0 w"
    using assms by (simp add: line_ready_def cur_ix_def term_ix_def frame_simps kernel_talk_def)
  moreover have "foreground (talk_typed ts ask w) 0 0" using foreground_putc [OF k(1)] by (simp add: talk_typed_def sti_def foreground_intr)
  ultimately show "types_line [] 0 0 w (fold putc ask (kernel_talk ts w)) (talk_typed ts ask w)"
    by (simp add: types_line_def talk_typed_def sti_def line_ready_def read_waits_def cur_ix_def term_ix_def)
  have "spared 0 kernel_home (kernel_talk ts w)" by (fact k(2))
  also have "spared 0 (kernel_talk ts w) (fold putc ask (kernel_talk ts w))" by (rule spared_putc [OF k(1)])
  also have "spared 0 (fold putc ask (kernel_talk ts w)) (talk_typed ts ask w)"
    using here_tame [OF here_console(12)] unfolding talk_typed_def by (simp add: spared_def) (simp add: sti_def)
  finally show "spared 0 kernel_home (talk_typed ts ask w)" .
qed

abbreviation shell_texts :: "u8 list list" where
  "shell_texts \<equiv> [prompt, ascii ''exit'', nl ''no such command'']"

lemma shell_texts_short: "length (place shell_texts) < 4096" by (simp add: place_def ascii_def)

lemma kernel_talk_waits: "shell_waits (user_lit shell_texts) 0x8300000 (kernel_talk shell_texts w) 0 0"
  using kernel_talk_foreground(1) [OF shell_texts_short] talk_literal [OF shell_texts_short] home_user_buf
  by (simp add: shell_waits_def user_buf_def) (simp add: ascii_def)

lemma talk_strip:
  "strip_line (nl ''cat note'') = ascii ''cat note''" "strip_line (nl ''cut note'') = ascii ''cut note''"
  by (simp_all add: strip_line_def ascii_def)

lemma home_missing:
  assumes "nm \<notin> {ascii ''.'', ascii ''cat'', ascii ''ls'', ascii ''note'', []}"
  shows "entry_node kernel_home home_image nm = None"
proof -
  have "entry_name kernel_home home_image j \<noteq> nm" if "j < 63" for j
  proof (cases "j < 4")
    case True
    then have "j = 0 \<or> j = 1 \<or> j = 2 \<or> j = 3" by auto
    then show ?thesis using home_entries assms by (elim disjE) auto
  next
    case False
    have "unat (dentry_ptr kernel_home (of_nat j)) = 4194368 + 64 * j"
      using that by (simp add: dentry_ptr_def unat_word_ariths unat_of_nat32)
    then have "home_image (dentry_ptr kernel_home (of_nat j)) = 0"
      using False that unfolding home_image_def fun_upd_def by (auto dest: arg_cong [where f = unat])
    then show ?thesis using assms by (auto simp: entry_name_def numeral_eq_Suc)
  qed
  then have "find (\<lambda>j. entry_name kernel_home home_image j = nm) [0..<63] = None"
    by (auto simp: find_None_iff)
  then show ?thesis by (simp add: entry_node_def)
qed

subsection \<open>Properties\<close>

text \<open>C12: A command typed at the shell, from the prompt to the next turn.  The shell waits for a line
  on the terminal that is shown; interrupts bring it a line (with or without the line feed) whose
  program is \<open>cat\<close> and whose argument is a regular file.  Then the shell executes it;
  \<open>main\<close> of \<open>cat\<close> ends with exit status 0, and the screen shows, behind what was typed, the contents of
  the file, or, when it is longer than 1024 bytes, its full kilobytes only; \<open>halt\<close> continues the shell
  behind its \<open>execute\<close> with result 0, the chains of processes are those of before, and the shell
  reports nothing.\<close>

theorem typed_cat_prints:
  fixes s :: "'a kernel_scheme"
  assumes "shell_waits lit buf s k n" and "types_line (during (h 1)) k n w (fold putc prompt s) t"
    and "v = strip_line w" "v \<noteq> []" "v \<noteq> ascii ''exit''" and "can_start e (array_str (v @ [0])) v t sz prog ch k m"
    and "cmd_args v \<noteq> []" and "entry_at t (vmem t) (cmd_args v) 2 node"
    and "program_at t node sz fl" and "user_buf t cbuf 1024 sz" and "ch k = xs @ [n]"
  shows "\<exists>s1 s2 s3. shell_turn e h lit buf s = Some (s1, Shell_enters (entry_of prog) asm_hex) \<and>
    cat h' lit' cbuf s1 = Some (s2, 0) \<and> screen_of s2 = fold screen_putc (cat_output fl) (screen_of t) \<and>
    halt e' 0 s2 = Some (s3, Resume (e_esp e) (e_ebp e) 0) \<and> chains s3 ch \<and> shell_report prev lit 0 s3 = Some s3"
  by (rule shell_cat [where h = h, OF assms])

abbreviation quiet_env :: "nat \<Rightarrow> kernel sys_env" where
  "quiet_env \<equiv> \<lambda>_. \<lparr>during = [], locals = (\<lambda>_. 0), port = 0\<rparr>"

theorem typed_cat_prints_witness:
  "\<exists>s1 s2 s3. shell_turn wit_env quiet_env (user_lit shell_texts) 0x8300000 (kernel_talk shell_texts (nl ''cat note'')) = Some (s1, Shell_enters 0x8048018 asm_hex) \<and>
    cat quiet_env (\<lambda>_. 0) 0x8300000 s1 = Some (s2, 0) \<and>
    screen_of s2 = fold screen_putc (nl ''hi'') (screen_of (talk_typed shell_texts prompt (nl ''cat note''))) \<and>
    halt wit_env 0 s2 = Some (s3, Resume 0x7FDF00 0x7FDF40 0) \<and> chains s3 ((\<lambda>_. [])(0 := [0]))"
proof -
  define w where "w = nl ''cat note''"
  define v where "v = ascii ''cat note''"
  have ty: "types_line (during (quiet_env 1)) 0 0 w (fold putc prompt (kernel_talk shell_texts w)) (talk_typed shell_texts prompt w)"
    and sp: "spared 0 kernel_home (talk_typed shell_texts prompt w)"
    using talk_types [OF _ _ shell_texts_short, of w prompt] by (simp_all add: w_def ascii_def)
  have f: "foreground (talk_typed shell_texts prompt w) 0 0" using ty by (simp add: types_line_def)
  note fr = foreground_frame [OF f]
  have vw: "v = strip_line w" "v \<noteq> []" "v \<noteq> ascii ''exit''" "cmd_name v = ascii ''cat''" "cmd_args v = ascii ''note''"
    by (simp_all add: v_def w_def talk_strip) (simp_all add: ascii_def cmd_name_def cmd_args_def)
  have hs: "holds_str (array_str (v @ [0])) v" by (rule array_str_holds) (simp_all add: v_def ascii_def)
  then have "command_ok wit_env (array_str (v @ [0])) v"
    using vw(4,5) by (simp add: command_ok_def ascii_def wit_env_def)
  from spared_starts [OF home_starts [OF this disjI1 [OF vw(4)]] sp f hs]
  have st: "can_start wit_env (array_str (v @ [0])) v (talk_typed shell_texts prompt w) 0x5000 home_file ((\<lambda>_. [])(0 := [0])) 0 3" .
  note pr = spared_program [OF sp _ fr home_program(2)]
  have "entry_at (talk_typed shell_texts prompt w) (vmem (talk_typed shell_texts prompt w)) (cmd_args v) 2 1" using pr(2) home_found(4) vw(5) by simp
  moreover have "user_buf (talk_typed shell_texts prompt w) 0x8300000 1024 0x5000"
    using home_user_buf sp by (simp add: user_buf_def spared_def)
  moreover have "((\<lambda>_. [])(0 := [0])) 0 = [] @ [0 :: nat]" "cmd_args v \<noteq> []" using vw(5) by (simp_all add: ascii_def)
  moreover have "cat_output note_file = nl ''hi''" by (simp add: cat_output_def note_file_def ascii_def)
  moreover have "program_at (talk_typed shell_texts prompt w) 1 0x5000 note_file" using pr(1) by simp
  ultimately show ?thesis
    using typed_cat_prints [where h = quiet_env and h' = quiet_env and lit' = "\<lambda>_. 0" and e' = wit_env and prev = 0,
        OF kernel_talk_waits ty vw(1-3) st]
    unfolding home_entry w_def [symmetric] by (fastforce simp: wit_env_def)
qed

text \<open>C14: When the first word of the line is the name of no file, the shell prints \<open>no such command\<close>
  behind the line and waits again: its literals and its descriptors are intact, and the chains of
  processes are what they were.\<close>

theorem shell_reports_unknown:
  fixes s :: "'a kernel_scheme"
  assumes "shell_waits lit buf s k n" and "types_line (during (h 1)) k n w (fold putc prompt s) t"
    and "v = strip_line w" "v \<noteq> []" "v \<noteq> ascii ''exit''" and "command_ok e (array_str (v @ [0])) v"
    and "file_sys t = dentry_addr t" "kernel_range (dentry_addr t) 4096" and "entry_node t (vmem t) (cmd_name v) = None"
  shows "\<exists>s1. shell_turn e h lit buf s = Some (s1, Shell_loops) \<and> shell_waits lit buf s1 k n \<and> tame_here t s1 \<and>
    screen_of s1 = fold screen_putc (nl ''no such command'') (screen_of t)"
  by (rule shell_unknown [where h = h, OF assms])

theorem shell_reports_unknown_witness:
  "\<exists>s1. shell_turn wit_env quiet_env (user_lit shell_texts) 0x8300000 (kernel_talk shell_texts (nl ''cut note'')) = Some (s1, Shell_loops) \<and>
    screen_of s1 = fold screen_putc (nl ''no such command'') (screen_of (talk_typed shell_texts prompt (nl ''cut note'')))"
proof -
  define w where "w = nl ''cut note''"
  define v where "v = ascii ''cut note''"
  have ty: "types_line (during (quiet_env 1)) 0 0 w (fold putc prompt (kernel_talk shell_texts w)) (talk_typed shell_texts prompt w)"
    and sp: "spared 0 kernel_home (talk_typed shell_texts prompt w)"
    using talk_types [OF _ _ shell_texts_short, of w prompt] by (simp_all add: w_def ascii_def)
  have fr: "frame_ok (talk_typed shell_texts prompt w)" "frame_ok kernel_home" using ty foreground_frame kernel_home_foreground by (auto simp: types_line_def)
  have vw: "v = strip_line w" "v \<noteq> []" "v \<noteq> ascii ''exit''" "cmd_name v = ascii ''cut''" "cmd_args v = ascii ''note''"
    by (simp_all add: v_def w_def talk_strip) (simp_all add: ascii_def cmd_name_def cmd_args_def)
  have "holds_str (array_str (v @ [0])) v" by (rule array_str_holds) (simp_all add: v_def ascii_def)
  then have ok: "command_ok wit_env (array_str (v @ [0])) v"
    using vw(4,5) by (simp add: command_ok_def ascii_def wit_env_def)
  have le: "length (cmd_name v) \<le> 32" by (simp add: vw(4) ascii_def)
  have a: "file_sys (talk_typed shell_texts prompt w) = dentry_addr (talk_typed shell_texts prompt w)" "kernel_range (dentry_addr (talk_typed shell_texts prompt w)) 4096"
    using sp by (simp_all add: spared_def kernel_range_def)
  have "entry_node (talk_typed shell_texts prompt w) (vmem (talk_typed shell_texts prompt w)) (cmd_name v) = entry_node kernel_home home_image (cmd_name v)"
    using spared_node [OF sp _ fr(1) _ fr(2) _ le] by (simp add: kernel_range_def)
  also have "\<dots> = None" unfolding vw(4) by (rule home_missing) (simp add: ascii_def)
  finally have "entry_node (talk_typed shell_texts prompt w) (vmem (talk_typed shell_texts prompt w)) (cmd_name v) = None" .
  from shell_reports_unknown [where h = quiet_env, OF kernel_talk_waits ty vw(1-3) ok a this]
  show ?thesis unfolding w_def [symmetric] by (elim ex_forward conjE) (rule conjI)
qed

end
