(* ===== verification/Counter.thy ===== *)
theory Counter
  imports Shell
begin

text \<open>
  The program \<open>counter\<close> (\<open>syscalls/ece391counter.c\<close>): it asks for a choice and prints the numbers from 1
  to 100, 10000 or 100000, each with the \<open>itoa\<close> of the user library.
\<close>

text \<open>The loop, with \<open>k\<close> rounds left; \<open>lit (nl [])\<close> is the address of the line feed.\<close>

fun counter_loop :: "(nat \<Rightarrow> 'a kernel_scheme sys_env) \<Rightarrow> (u8 list \<Rightarrow> u32) \<Rightarrow> u32 \<Rightarrow> nat \<Rightarrow> nat \<Rightarrow>
    'a kernel_scheme \<Rightarrow> 'a kernel_scheme option" where
  "counter_loop h lit buf i 0 s = Some s"
| "counter_loop h lit buf i (Suc k) s =
    do { m \<leftarrow> ece391_itoa (vmem s) (of_nat i + 1) buf 10;
         s \<leftarrow> ece391_fdputs (port (h (2 * i))) 1 buf (set_vmem m s);
         s \<leftarrow> ece391_fdputs (port (h (2 * i + 1))) 1 (lit (nl [])) s;
         counter_loop h lit buf (Suc i) k s }"

definition counter_max :: "u8 \<Rightarrow> nat" where
  "counter_max c = (if c = 0x30 then 100 else if c = 0x31 then 10000 else if c = 0x32 then 100000 else 0)"

definition counter :: "(nat \<Rightarrow> 'a kernel_scheme sys_env) \<Rightarrow> (u8 list \<Rightarrow> u32) \<Rightarrow> u32 \<Rightarrow>
    'a kernel_scheme \<Rightarrow> ('a kernel_scheme \<times> int) option" where
  "counter h lit buf s =
    do { s \<leftarrow> ece391_fdputs (port (h 0)) 1 (lit (nl ''Enter the Test Number: (0): 100, (1): 10000, (2): 100000'')) s;
         (s, cnt) \<leftarrow> sys_read (during (h 1)) (locals (h 1)) 0 buf 1023 s;
         if -1 = cnt then
           do { s \<leftarrow> ece391_fdputs (port (h 2)) 1 (lit (nl ''Can't read the number from keyboard.'')) s; Some (s, 3) }
         else
           do { let s = set_vmem ((vmem s)(buf + of_int cnt := 0)) s;
                len \<leftarrow> ece391_strlen (vmem s) buf;
                if len > 2 \<or> len = 2 \<and> (vmem s buf < 0x30 \<or> vmem s buf > 0x32) then
                  do { s \<leftarrow> ece391_fdputs (port (h 2)) 1 (lit (nl ''Wrong Choice!'')) s; Some (s, 0) }
                else
                  do { s \<leftarrow> counter_loop (\<lambda>n. h (n + 2)) lit buf 0 (counter_max (vmem s buf)) s; Some (s, 0) } } }"

subsection \<open>What it prints\<close>

definition numbers :: "nat \<Rightarrow> nat \<Rightarrow> u8 list" where
  "numbers i k = concat (map (\<lambda>j. itoa_str 10 (Suc j) @ [0x0A]) [i..<i + k])"

lemma numbers_Suc: "numbers i (Suc k) = (itoa_str 10 (Suc i) @ [0x0A]) @ numbers (Suc i) k"
  by (simp add: numbers_def upt_rec [of i])

lemma counter_prints:
  fixes s :: "'a kernel_scheme"
  assumes "foreground s k n" "\<forall>j<1024. in_user_window (buf + of_nat j)" "literal s lit (nl [])" "apart 1024 lit buf (nl [])"
    and "i + c < 4294967296"
  shows "\<exists>s'. counter_loop h lit buf i c s = Some s' \<and> foreground s' k n \<and>
    screen_of s' = fold screen_putc (numbers i c) (screen_of s)"
  using assms
proof (induction c arbitrary: i s)
  case 0
  then show ?case by (simp add: numbers_def)
next
  case (Suc c)
  define xs where "xs = itoa_str 10 (Suc i)"
  have v: "unat (of_nat i + 1 :: u32) = Suc i"
    using Suc.prems(5) unat_of_nat32 [of "Suc i"] by (simp add: add.commute)
  have "0 \<notin> set (itoa_str (unat (10 :: u32)) (unat (of_nat i + 1 :: u32))) \<and>
      length (itoa_str (unat (10 :: u32)) (unat (of_nat i + 1 :: u32))) \<le> 32"
    by (rule itoa_str_ok) simp_all
  then have xs: "0 \<notin> set xs" "length xs \<le> 32" by (simp_all add: v xs_def)
  have b: "\<forall>j<Suc (length xs). in_user_window (buf + of_nat j)" using Suc.prems(2) xs(2) by simp
  let ?s1 = "set_vmem (overlay (vmem s) buf (Suc (length xs)) (bytes_at xs)) s"
  note s1 = user_store [OF Suc.prems(1) b, where g = "bytes_at xs"]
  have it: "ece391_itoa (vmem s) (of_nat i + 1) buf 10 = Some (overlay (vmem s) buf (Suc (length xs)) (bytes_at xs))"
    using itoa_overlay [of 10 "vmem s" "of_nat i + 1" buf] by (simp add: ece391_itoa_eq v xs_def)
  have "xs \<noteq> []" using read_itoa_str [of 10 "Suc i"] by (auto simp: xs_def read_number_def)
  moreover have "holds_str (view (vmem ?s1) buf) xs"
    using s1(3) xs by (auto simp: holds_str_def bytes_at_def)
  ultimately have p1: "ece391_fdputs (port (h (2 * i))) 1 buf ?s1 = Some (fold putc xs ?s1)"
    using b xs(2) by (intro foreground_puts [OF s1(1)]) simp_all
  let ?s2 = "fold putc xs ?s1"
  note f2 = foreground_putc [OF s1(1), of xs]
  have far: "vmem ?s2 va = vmem s va" if "in_user_window va" "1024 \<le> unat (va - buf)" for va
    using that xs(2) by (simp add: window_putc [OF s1(1)] vmem_set_window overlay_outside)
  have l2: "literal ?s2 lit (nl [])"
    using Suc.prems(3,4) by (intro literal_far [OF Suc.prems(3)]) (auto simp: literal_def apart_def intro!: far)
  then have p2: "ece391_fdputs (port (h (2 * i + 1))) 1 (lit (nl [])) ?s2 = Some (fold putc (nl []) ?s2)"
    by (intro foreground_puts [OF f2]) (auto simp: literal_def ascii_def)
  let ?s3 = "fold putc (nl []) ?s2"
  note f3 = foreground_putc [OF f2, of "nl []"]
  note l3 = literal_putc [OF f2 l2, of "nl []"]
  have "Suc i + c < 4294967296" using Suc.prems(5) by simp
  from Suc.IH [OF f3 Suc.prems(2) l3 Suc.prems(4) this]
  obtain s' where s': "counter_loop h lit buf (Suc i) c ?s3 = Some s'" "foreground s' k n"
    "screen_of s' = fold screen_putc (numbers (Suc i) c) (screen_of ?s3)" by blast
  have "screen_of ?s3 = fold screen_putc (xs @ [0x0A]) (screen_of s)"
  proof -
    have "screen_ok ?s1" "screen_ok ?s2" using s1(1) f2 by (simp_all add: foreground_def)
    from fold_putc_refines [OF this(2), of "nl []"] fold_putc_refines [OF this(1), of xs]
    have "screen_of ?s3 = fold screen_putc (nl []) (fold screen_putc xs (screen_of ?s1))" by (simp only:)
    then show ?thesis using s1(2) by (simp add: ascii_def)
  qed
  then have "screen_of s' = fold screen_putc (numbers i (Suc c)) (screen_of s)"
    unfolding numbers_Suc s'(3) xs_def [symmetric] by simp
  moreover have "counter_loop h lit buf i (Suc c) s = Some s'"
    unfolding counter_loop.simps it bind.bind_lunit p1 p2 by (rule s'(1))
  ultimately show ?case using s'(2) by blast
qed

text \<open>The program returns with status 0 once a choice is typed, and has printed all the numbers.\<close>

lemma counter_counts:
  fixes s :: "'a kernel_scheme"
  defines "ask \<equiv> nl ''Enter the Test Number: (0): 100, (1): 10000, (2): 100000''"
  assumes f: "foreground s k n" and b: "\<forall>j<1024. in_user_window (buf + of_nat j)" and l: "literal s lit ask"
    and g: "literal s lit (nl [])" "apart 1024 lit buf (nl [])"
    and w: "types_line (during (h 1)) k n [c, 0x0A] (fold putc ask s) t" and c: "c \<in> {0x30, 0x31, 0x32}"
  shows "\<exists>s'. counter h lit buf s = Some (s', 0) \<and> foreground s' k n \<and>
    screen_of s' = fold screen_putc (numbers 0 (counter_max c)) (screen_of t)"
proof -
  define w where "w = [c, 0x0A]"
  have wl: "0 \<notin> set w" "length w = 2" using c by (auto simp: w_def)
  have p: "ece391_fdputs (port (h 0)) 1 (lit ask) s = Some (fold putc ask s)"
    using l by (intro foreground_puts [OF f]) (auto simp: literal_def ascii_def ask_def)
  obtain t' where t': "sys_read (during (h 1)) (locals (h 1)) 0 buf 1023 (fold putc ask s) = Some (t', int (length w))"
    "foreground t' k n" "screen_of t' = screen_of t" "\<forall>j<length w. vmem t' (buf + of_nat j) = w ! j"
    "\<And>va. in_user_window va \<Longrightarrow> 1024 \<le> unat (va - buf) \<Longrightarrow> vmem t' va = vmem s va"
    using foreground_read_line [OF foreground_putc [OF f] w b] window_putc [OF f] unfolding w_def by (metis line_size_fits)
  have "length w < 1024" using wl(2) by simp
  define s2 where "s2 = set_vmem ((vmem t')(buf + of_nat (length w) := 0)) t'"
  note s2 = foreground_terminate [OF t'(2) b t'(4) wl(1) \<open>length w < 1024\<close>, folded s2_def]
  have l2: "literal s2 lit (nl [])"
    using g by (intro literal_far [OF g(1)]) (auto simp: literal_def apart_def s2(5) t'(5))
  have len: "ece391_strlen (vmem s2) buf = Some 2" using strlen_holds [OF s2(4)] wl(2) by (simp add: ece391_strlen_eq)
  have b0: "vmem s2 buf = c" using s2(4) by (auto simp: holds_str_def w_def)
  have "0 + counter_max c < 4294967296" by (simp add: counter_max_def)
  from counter_prints [OF s2(1) b l2 g(2) this, of "\<lambda>n. h (n + 2)"]
  obtain s' where s': "counter_loop (\<lambda>n. h (n + 2)) lit buf 0 (counter_max c) s2 = Some s'" "foreground s' k n"
    "screen_of s' = fold screen_putc (numbers 0 (counter_max c)) (screen_of s2)" by blast
  have "\<not> (2 < (2 :: u32) \<or> 2 = (2 :: u32) \<and> (c < 0x30 \<or> 0x32 < c))" using c by auto
  then have "counter h lit buf s = Some (s', 0)"
    unfolding counter_def ask_def [symmetric] p t'(1) bind.bind_lunit prod.case Let_def of_int_of_nat_eq
      s2_def [symmetric] len b0 by (simp only: s'(1)) simp
  then show ?thesis using s' s2(2) t'(3) by auto
qed

end
