(* ===== verification/Syserr.thy ===== *)
theory Syserr
  imports Shell
begin

text \<open>
  The program \<open>syserr\<close> (\<open>syscalls/ece391syserr.c\<close>): eight tests that wrong system calls are refused.
  A test works on the state and its variable \<open>fail\<close>.
\<close>

subsection \<open>The program\<close>

abbreviation NEG_FD :: int where "NEG_FD \<equiv> -1073741823"
abbreviation BIG_FD :: int where "BIG_FD \<equiv> 1073741823"

text \<open>\<open>call_sys\<close> enters the kernel with a number and whatever the registers hold.  Its entry
  \<open>syscall_handler\<close> (\<open>interrupthandler.S\<close>) answers -1 unless the number is between 1 and 8.\<close>

definition call_sys :: "int \<Rightarrow> 'a kernel_scheme \<Rightarrow> ('a kernel_scheme \<times> int) option" where
  "call_sys num s = (if num < 1 \<or> 8 < num then Some (s, -1) else None)"

text \<open>\<open>if (-1 != call) { fail = 2; ece391_fdputs (1, msg); }\<close>\<close>

definition must_fail :: "u8 \<Rightarrow> (u8 list \<Rightarrow> u32) \<Rightarrow> u8 list \<Rightarrow> ('a kernel_scheme \<Rightarrow> ('a kernel_scheme \<times> int) option) \<Rightarrow>
    'a kernel_scheme \<times> int \<Rightarrow> ('a kernel_scheme \<times> int) option" where
  "must_fail prev lit msg call x =
    do { (s, r) \<leftarrow> call (fst x);
         if -1 \<noteq> r then do { s \<leftarrow> ece391_fdputs prev 1 (lit msg) s; Some (s, 2) } else Some (s, snd x) }"

definition verdict :: "u8 \<Rightarrow> (u8 list \<Rightarrow> u32) \<Rightarrow> string \<Rightarrow> 'a kernel_scheme \<times> int \<Rightarrow> ('a kernel_scheme \<times> int) option" where
  "verdict prev lit name x =
    do { s \<leftarrow> ece391_fdputs prev 1 (lit (nl (name @ (if snd x \<noteq> 0 then '': FAIL'' else '': PASS'')))) (fst x);
         Some (s, snd x) }"

text \<open>\<open>for (i = a; i < a + k; i++)\<close>\<close>

fun for_each :: "(nat \<Rightarrow> 'x \<Rightarrow> 'x option) \<Rightarrow> nat \<Rightarrow> nat \<Rightarrow> 'x \<Rightarrow> 'x option" where
  "for_each f i 0 x = Some x"
| "for_each f i (Suc k) x = do { x \<leftarrow> f i x; for_each f (Suc i) k x }"

definition err_fd :: "int \<Rightarrow> string \<Rightarrow> (nat \<Rightarrow> 'a kernel_scheme sys_env) \<Rightarrow> (u8 list \<Rightarrow> u32) \<Rightarrow> u32 \<Rightarrow>
    'a kernel_scheme \<Rightarrow> ('a kernel_scheme \<times> int) option" where
  "err_fd i name h lit buf s =
    do { x \<leftarrow> must_fail (port (h 1)) lit (nl ''read fail'') (sys_read (during (h 0)) (locals (h 0)) i buf 31) (s, 0);
         x \<leftarrow> must_fail (port (h 3)) lit (nl ''write fail'') (sys_write (port (h 2)) i buf 31) x;
         x \<leftarrow> must_fail (port (h 4)) lit (nl ''close fail'') (sys_close i) x;
         verdict (port (h 5)) lit name x }"

definition err_neg_fd :: "(nat \<Rightarrow> 'a kernel_scheme sys_env) \<Rightarrow> (u8 list \<Rightarrow> u32) \<Rightarrow> u32 \<Rightarrow>
    'a kernel_scheme \<Rightarrow> ('a kernel_scheme \<times> int) option" where
  "err_neg_fd = err_fd NEG_FD ''err_neg_fd''"

definition err_big_fd :: "(nat \<Rightarrow> 'a kernel_scheme sys_env) \<Rightarrow> (u8 list \<Rightarrow> u32) \<Rightarrow> u32 \<Rightarrow>
    'a kernel_scheme \<Rightarrow> ('a kernel_scheme \<times> int) option" where
  "err_big_fd = err_fd BIG_FD ''err_big_fd''"

text \<open>The second component counts the calls of \<open>open\<close> that failed.\<close>

definition open_dot :: "(nat \<Rightarrow> 'a kernel_scheme sys_env) \<Rightarrow> (u8 list \<Rightarrow> u32) \<Rightarrow> nat \<Rightarrow>
    'a kernel_scheme \<times> nat \<Rightarrow> ('a kernel_scheme \<times> nat) option" where
  "open_dot h lit i x =
    do { (s, r) \<leftarrow> sys_open (locals (h i)) (lit (ascii ''.'')) (fst x); Some (s, if -1 = r then snd x + 1 else snd x) }"

definition err_open_lots :: "(nat \<Rightarrow> 'a kernel_scheme sys_env) \<Rightarrow> (u8 list \<Rightarrow> u32) \<Rightarrow>
    'a kernel_scheme \<Rightarrow> ('a kernel_scheme \<times> int) option" where
  "err_open_lots h lit s =
    do { (s, cnt) \<leftarrow> for_each (open_dot h lit) 0 7 (s, 0);
         s \<leftarrow> for_each (\<lambda>i s. do { (s, r) \<leftarrow> sys_close (int i) s; Some s }) 2 6 s;
         verdict (port (h 8)) lit ''err_open_lots'' (s, if cnt = 1 then 0 else 2) }"

definition err_open :: "(nat \<Rightarrow> 'a kernel_scheme sys_env) \<Rightarrow> (u8 list \<Rightarrow> u32) \<Rightarrow>
    'a kernel_scheme \<Rightarrow> ('a kernel_scheme \<times> int) option" where
  "err_open h lit s =
    do { x \<leftarrow> must_fail (port (h 1)) lit (nl '''helloo' fail'') (sys_open (locals (h 0)) (lit (ascii ''helloo''))) (s, 0);
         x \<leftarrow> must_fail (port (h 3)) lit (nl '''shel' fail'') (sys_open (locals (h 2)) (lit (ascii ''shel''))) x;
         x \<leftarrow> must_fail (port (h 5)) lit (nl ''empty string fail'') (sys_open (locals (h 4)) (lit [])) x;
         verdict (port (h 6)) lit ''err_open'' x }"

definition err_unopened :: "(nat \<Rightarrow> 'a kernel_scheme sys_env) \<Rightarrow> (u8 list \<Rightarrow> u32) \<Rightarrow> u32 \<Rightarrow>
    'a kernel_scheme \<Rightarrow> ('a kernel_scheme \<times> int) option" where
  "err_unopened h lit buf s =
    do { x \<leftarrow> for_each (\<lambda>i. must_fail (port (h i)) lit (nl ''close unopened or invalid fd fail'') (sys_close (int i))) 0 8 (s, 0);
         x \<leftarrow> for_each (\<lambda>i. must_fail (port (h (10 + i))) lit (nl ''read from unopened fd fail'')
                (sys_read (during (h (20 + i))) (locals (h (20 + i))) (int i) buf 31)) 2 6 x;
         x \<leftarrow> for_each (\<lambda>i. must_fail (port (h (30 + i))) lit (nl ''write to unopened fd fail'')
                (sys_write (port (h (40 + i))) (int i) buf 31)) 2 6 x;
         verdict (port (h 50)) lit ''err_unopened'' x }"

definition err_vidmap :: "(nat \<Rightarrow> 'a kernel_scheme sys_env) \<Rightarrow> (u8 list \<Rightarrow> u32) \<Rightarrow>
    'a kernel_scheme \<Rightarrow> ('a kernel_scheme \<times> int) option" where
  "err_vidmap h lit s =
    do { x \<leftarrow> must_fail (port (h 0)) lit (nl ''Null pointer fail'') (\<lambda>s. Some (vidmap 0 s)) (s, 0);
         x \<leftarrow> must_fail (port (h 1)) lit (nl ''Kernel pointer fail fail'') (\<lambda>s. Some (vidmap 0x400000 s)) x;
         verdict (port (h 2)) lit ''err_vidmap'' x }"

definition err_stdin_out :: "(nat \<Rightarrow> 'a kernel_scheme sys_env) \<Rightarrow> (u8 list \<Rightarrow> u32) \<Rightarrow> u32 \<Rightarrow>
    'a kernel_scheme \<Rightarrow> ('a kernel_scheme \<times> int) option" where
  "err_stdin_out h lit buf s =
    do { x \<leftarrow> must_fail (port (h 1)) lit (nl ''write to stdin fail'') (sys_write (port (h 0)) 0 buf 31) (s, 0);
         x \<leftarrow> must_fail (port (h 3)) lit (nl ''read from stdout fail'') (sys_read (during (h 2)) (locals (h 2)) 1 buf 31) x;
         verdict (port (h 4)) lit ''err_stdin_out'' x }"

definition err_syscall_num :: "(nat \<Rightarrow> 'a kernel_scheme sys_env) \<Rightarrow> (u8 list \<Rightarrow> u32) \<Rightarrow>
    'a kernel_scheme \<Rightarrow> ('a kernel_scheme \<times> int) option" where
  "err_syscall_num h lit s =
    do { x \<leftarrow> must_fail (port (h 0)) lit (nl ''syscall 0 fail'') (call_sys 1073741823) (s, 0);
         x \<leftarrow> must_fail (port (h 1)) lit (nl ''big num syscall fail'') (call_sys (-1073741823)) x;
         x \<leftarrow> must_fail (port (h 2)) lit (nl ''neg num syscall fail'') (call_sys 0) x;
         verdict (port (h 3)) lit ''err_syscall_num'' x }"

text \<open>The tests by their numbers; \<open>bufs i\<close> is the address of the local buffer of test \<open>i\<close>.\<close>

definition syserr_test :: "(nat \<Rightarrow> 'a kernel_scheme sys_env) \<Rightarrow> (u8 list \<Rightarrow> u32) \<Rightarrow> (nat \<Rightarrow> u32) \<Rightarrow> nat \<Rightarrow>
    'a kernel_scheme \<Rightarrow> ('a kernel_scheme \<times> int) option" where
  "syserr_test h lit bufs i =
    (if i = 1 then err_neg_fd h lit (bufs 1) else if i = 2 then err_big_fd h lit (bufs 2)
     else if i = 3 then err_open_lots h lit else if i = 4 then err_open h lit
     else if i = 5 then err_unopened h lit (bufs 5) else if i = 6 then err_vidmap h lit
     else if i = 7 then err_stdin_out h lit (bufs 7) else err_syscall_num h lit)"

definition syserr :: "(nat \<Rightarrow> 'a kernel_scheme sys_env) \<Rightarrow> (u8 list \<Rightarrow> u32) \<Rightarrow> (nat \<Rightarrow> u32) \<Rightarrow>
    'a kernel_scheme \<Rightarrow> ('a kernel_scheme \<times> int) option" where
  "syserr h lit bufs s =
    do { s \<leftarrow> ece391_fdputs (port (h 0)) 1 (lit (ascii ''Choose from tests 1-8. 0 to run all: '')) s;
         (s, cnt) \<leftarrow> sys_read (during (h 1)) (locals (h 1)) 0 (bufs 0) 127 s;
         if -1 = cnt then do { s \<leftarrow> ece391_fdputs (port (h 2)) 1 (lit (nl ''Can't read test #'')) s; Some (s, 2) }
         else
           let select = uint (vmem s (bufs 0)) - 0x30
           in if select = 0 then
                do { (s, fail) \<leftarrow> for_each (\<lambda>i x. do { (s, r) \<leftarrow> syserr_test (\<lambda>n. h (100 * i + n)) lit bufs i (fst x);
                       Some (s, snd x + r) }) 1 8 (s, 0);
                     s \<leftarrow> ece391_fdputs (port (h 3)) 1 (lit (0x0A # nl (if fail \<noteq> 0 then ''Overall Tests: FAIL'' else ''Overall Tests: PASS''))) s;
                     Some (s, fail) }
              else if 1 \<le> select \<and> select \<le> 8 then syserr_test (\<lambda>n. h (100 + n)) lit bufs (nat select) s
              else do { s \<leftarrow> ece391_fdputs (port (h 2)) 1 (lit (ascii ''Invalid test number. Choose from tests 1-8 or 0'')) s;
                        Some (s, 0) } }"

subsection \<open>The kernel passes the tests\<close>

abbreviation fresh_table :: "nat \<Rightarrow> open_file option" where
  "fresh_table \<equiv> [0 \<mapsto> Stream_in, 1 \<mapsto> Stream_out]"

abbreviation test_names :: "string list" where
  "test_names \<equiv> [''err_neg_fd'', ''err_big_fd'', ''err_open_lots'', ''err_open'', ''err_unopened'', ''err_vidmap'',
     ''err_stdin_out'', ''err_syscall_num'']"

definition pass_line :: "string \<Rightarrow> u8 list" where
  "pass_line name = nl (name @ '': PASS'')"

definition overall_line :: "u8 list" where
  "overall_line = 0x0A # nl ''Overall Tests: PASS''"

definition syserr_texts :: "u8 list list" where
  "syserr_texts = [ascii ''.'', ascii ''helloo'', ascii ''shel'', [], overall_line] @ map pass_line test_names"

text \<open>The program has its literals and no open file, the directory can be opened, and the two
  misspelt names are no names.\<close>

definition tests_ready :: "(u8 list \<Rightarrow> u32) \<Rightarrow> 'a kernel_scheme \<Rightarrow> nat \<Rightarrow> nat \<Rightarrow> bool" where
  "tests_ready lit s k n \<longleftrightarrow> foreground s k n \<and> running_table s = fresh_table \<and> file_sys s = dentry_addr s \<and> kernel_range (dentry_addr s) 4096 \<and>
     (\<exists>node. entry_at s (vmem s) (ascii ''.'') 1 node) \<and>
     (\<forall>nm \<in> {ascii ''helloo'', ascii ''shel''}. entry_node s (vmem s) nm = None) \<and>
     (\<forall>x \<in> set syserr_texts. literal s lit x)"

lemma must_fail_refused: "call s = Some (s, -1) \<Longrightarrow> must_fail prev lit msg call (s, f) = Some (s, f)"
  by (simp add: must_fail_def)

lemma for_each_stays: "(\<And>j. i \<le> j \<Longrightarrow> j < i + k \<Longrightarrow> f j x = Some x) \<Longrightarrow> for_each f i k x = Some x"
  by (induction k arbitrary: i) auto

lemma tests_ready_putc:
  fixes s :: "'a kernel_scheme"
  assumes "tests_ready lit s k n"
  shows "tests_ready lit (fold putc xs s) k n"
proof -
  have f: "foreground s k n" and r: "kernel_range (dentry_addr s) 4096" "file_sys s = dentry_addr s" using assms by (simp_all add: tests_ready_def)
  have e: "entry_at (fold putc xs s) (vmem (fold putc xs s)) nm ty node = entry_at s (vmem s) nm ty node" for nm ty node
    using kernel_keeps_putc [OF f r(1)] r(2) by (intro entry_at_cong) (simp_all add: frame_simps)
  have "entry_node (fold putc xs s) (vmem (fold putc xs s)) nm = entry_node s (vmem s) nm" if "length nm \<le> 32" for nm
  proof -
    have "entry_node (fold putc xs s) (vmem (fold putc xs s)) nm = Some v \<longleftrightarrow> entry_node s (vmem s) nm = Some v" for v
      by (simp add: entry_node_at [OF that] e)
    then show ?thesis by (metis not_Some_eq)
  qed
  then show ?thesis
    using assms foreground_putc [OF f] literal_putc [OF f] by (simp add: tests_ready_def fold_putc_running e frame_simps ascii_def)
qed

lemma test_passes:
  fixes s :: "'a kernel_scheme"
  assumes s: "tests_ready lit s k n" and n: "name \<in> set test_names"
  shows "\<exists>s'. verdict prev lit name (s, 0) = Some (s', 0) \<and> tests_ready lit s' k n \<and>
    screen_of s' = fold screen_putc (pass_line name) (screen_of s)"
proof -
  have f: "foreground s k n" using s by (simp add: tests_ready_def)
  have "pass_line name \<in> set syserr_texts" using n by (auto simp: syserr_texts_def)
  then have l: "literal s lit (pass_line name)" using s by (simp add: tests_ready_def)
  have "length name < 20" using n by auto
  then have "ece391_fdputs prev 1 (lit (pass_line name)) s = Some (fold putc (pass_line name) s)"
    using l by (intro foreground_puts [OF f]) (auto simp: literal_def pass_line_def ascii_def)
  moreover have "screen_of (fold putc (pass_line name) s) = fold screen_putc (pass_line name) (screen_of s)"
    using f by (intro fold_putc_refines) (simp add: foreground_def)
  ultimately show ?thesis
    using tests_ready_putc [OF s, of "pass_line name"] by (simp add: verdict_def pass_line_def)
qed

text \<open>Calls that are refused.\<close>

lemma bad_fd_refused:
  "i < 0 \<or> 7 < i \<Longrightarrow> sys_read env junk i buf nb s = Some (s, -1)"
  "i < 0 \<or> 7 < i \<Longrightarrow> sys_write prev i buf nb s = Some (s, -1)"
  "i < 0 \<or> 7 < i \<Longrightarrow> sys_close i s = Some (s, -1)"
  by (auto simp: sys_read_def sys_write_def sys_close_def)

lemma unopened_refused:
  fixes s :: "'a kernel_scheme"
  assumes f: "foreground s k n" and t: "running_table s = fresh_table"
  shows "i < 8 \<Longrightarrow> sys_close (int i) s = Some (s, -1)"
    and "2 \<le> i \<Longrightarrow> i < 8 \<Longrightarrow> sys_read env junk (int i) buf nb s = Some (s, -1)"
    and "2 \<le> i \<Longrightarrow> i < 8 \<Longrightarrow> sys_write prev (int i) buf nb s = Some (s, -1)"
    and "sys_write prev 0 buf nb s = Some (s, -1)"
    and "sys_read env junk 1 buf nb s = Some (s, -1)"
proof -
  obtain p where p: "running_pcb s = Some p" "fds_ok s p" "proc_block s p" "tables_ok s"
    using f by (auto simp: foreground_def running_ok_def fds_ok_def)
  have sh: "shown_pcb s = Some p" using p(1) foreground_shown_pcb [OF f] by simp
  have closed: "flags (fd (pcbs s p) ! i) = 0" if "2 \<le> i" "i < 8" for i
    using fds_ok_free [OF p(2) that] t p(1) that by (simp add: running_table_def)
  show "i < 8 \<Longrightarrow> sys_close (int i) s = Some (s, -1)"
    using closed p close_protected [OF p(2,1), of "int i"] by (cases "i < 2") (simp_all add: sys_close_def proc_block_fd)
  show "2 \<le> i \<Longrightarrow> i < 8 \<Longrightarrow> sys_read env junk (int i) buf nb s = Some (s, -1)"
    using closed p by (simp add: sys_read_def proc_block_fd)
  show "2 \<le> i \<Longrightarrow> i < 8 \<Longrightarrow> sys_write prev (int i) buf nb s = Some (s, -1)"
    using closed p sh by (simp add: sys_write_def proc_block_fd)
  have "fd_abs (fd (pcbs s p) ! 0) = Some Stream_in" "fd_abs (fd (pcbs s p) ! 1) = Some Stream_out"
    using p(2) by (simp_all add: fds_ok_def fd_table_def)
  then have o: "op_table (fd (pcbs s p) ! 0) = Stdin_table" "op_table (fd (pcbs s p) ! 1) = Stdout_table"
    "flags (fd (pcbs s p) ! 0) \<noteq> 0" "flags (fd (pcbs s p) ! 1) \<noteq> 0"
    by (cases "op_table (fd (pcbs s p) ! 0)"; cases "op_table (fd (pcbs s p) ! 1)"; auto simp: fd_abs_def split: if_splits)+
  show "sys_write prev 0 buf nb s = Some (s, -1)"
    using o p sh by (simp add: sys_write_def proc_block_fd tables_ok_at [OF p(4)] call_write_def unvalid_operation_def)
  show "sys_read env junk 1 buf nb s = Some (s, -1)"
    using o p by (simp add: sys_read_def proc_block_fd tables_ok_at [OF p(4)] call_read_def unvalid_operation_def)
qed

lemma vidmap_refused: "vidmap 0 s = (s, -1)" "vidmap 0x400000 s = (s, -1)"
  by (simp_all add: vidmap_def)

lemma open_refused:
  fixes s :: "'a kernel_scheme"
  assumes f: "foreground s k n" and l: "literal s lit nm" and e: "nm = [] \<or> length nm \<le> 32 \<and> entry_node s (vmem s) nm = None"
  shows "sys_open junk (lit nm) s = Some (s, -1)"
proof (rule sys_open_nothing)
  show "running_ok s" using f by (simp add: foreground_def)
  have h: "holds_str (view (vmem s) (lit nm)) nm" "in_user_window (lit nm)"
    using l by (auto simp: literal_def dest: spec [of _ 0])
  then have "lit nm \<noteq> 0" by (auto simp: in_user_window_def)
  moreover have "chars (view (vmem s) (lit nm)) 0 32 = nm" if "nm \<noteq> []"
    using that e by (subst chars_name [OF h(1)]) auto
  ultimately show "names_nothing s (lit nm)"
    using h(1) e unfolding names_nothing_def entry_node_def by (cases "nm = []") auto
qed

subsection \<open>Opening the directory seven times\<close>

definition dirs :: "nat \<Rightarrow> nat \<Rightarrow> nat \<Rightarrow> open_file option" where
  "dirs a b j = (if j < 2 then fresh_table j else if a \<le> j \<and> j < b then Some Directory else None)"

lemma dirs_none: "b \<le> a \<Longrightarrow> dirs a b = fresh_table"
  by (auto simp: dirs_def fun_eq_iff)

lemma dirs_free: "free_slot (dirs 2 b) = (if 2 \<le> b \<and> b < 8 then Some b else if b < 2 then Some 2 else None)"
proof -
  have u: "[2..<8] = [2, 3, 4, 5, 6, 7 :: nat]" by (simp add: upt_rec)
  show ?thesis unfolding free_slot_def u by (auto simp: dirs_def)
qed

lemma dirs_open: "2 \<le> b \<Longrightarrow> (dirs 2 b)(b \<mapsto> Directory) = dirs 2 (Suc b)"
  by (auto simp: dirs_def fun_eq_iff)

lemma dirs_close: "2 \<le> a \<Longrightarrow> (dirs a b)(a := None) = dirs (Suc a) b"
  by (auto simp: dirs_def fun_eq_iff)

text \<open>States that differ in the control blocks only.\<close>

lemma pcbs_keep:
  fixes s :: "'a kernel_scheme"
  shows "literal (s\<lparr>pcbs := g\<rparr>) lit x = literal s lit x"
    "entry_at (s\<lparr>pcbs := g\<rparr>) m nm ty node = entry_at s m nm ty node" "entry_node (s\<lparr>pcbs := g\<rparr>) m nm = entry_node s m nm"
  by (simp_all add: literal_def entry_at_def entry_node_def entry_name_def dentry_ptr_def)

lemma foreground_close:
  fixes s :: "'a kernel_scheme"
  assumes f: "foreground s k n" and i: "2 \<le> i" "i < 8" "running_table s i \<noteq> None"
  shows "\<exists>g. sys_close (int i) s = Some (s\<lparr>pcbs := g\<rparr>, 0) \<and> foreground (s\<lparr>pcbs := g\<rparr>) k n \<and>
    running_table (s\<lparr>pcbs := g\<rparr>) = (running_table s)(i := None)"
proof -
  obtain p where p: "running_pcb s = Some p" "fds_ok s p" "tables_ok s"
    using f by (auto simp: foreground_def running_ok_def)
  note c = close_table [OF p(2,3,1) i(1,2)]
  define g where "g = pcbs (upd_fd p i (\<lambda>d. d\<lparr>flags := 0\<rparr>) s)"
  have u: "upd_fd p i (\<lambda>d. d\<lparr>flags := 0\<rparr>) s = s\<lparr>pcbs := g\<rparr>" by (simp add: g_def upd_fd_def upd_pcb_def)
  have "running_ok (s\<lparr>pcbs := g\<rparr>)" using c(3) p unfolding u by (auto simp: running_ok_def)
  then have "foreground (s\<lparr>pcbs := g\<rparr>) k n"
    by (intro foreground_cong [OF f]) (simp_all add: user_frame_def)
  moreover have "fd_table s p i \<noteq> None" using i(3) p(1) by (simp add: running_table_def)
  ultimately show ?thesis using c(1,2) p(1) unfolding u by (intro exI [of _ g]) (simp add: running_table_def)
qed

lemma open_dot_step:
  fixes s :: "'a kernel_scheme"
  assumes f: "foreground s k n" and l: "literal s lit (ascii ''.'')" and e: "entry_at s (vmem s) (ascii ''.'') 1 node"
    and t: "running_table s = dirs 2 b" "2 \<le> b" "b \<le> 8"
  shows "\<exists>g. open_dot h lit i (s, m) = Some (s\<lparr>pcbs := g\<rparr>, if b < 8 then m else m + 1) \<and> foreground (s\<lparr>pcbs := g\<rparr>) k n \<and>
    running_table (s\<lparr>pcbs := g\<rparr>) = dirs 2 (min (Suc b) 8)"
proof -
  have h: "holds_str (view (vmem s) (lit (ascii ''.''))) (ascii ''.'')" "lit (ascii ''.'') \<noteq> 0"
    using l by (auto simp: literal_def in_user_window_def dest: spec [of _ 0])
  show ?thesis
  proof (cases "b < 8")
    case True
    then have "free_slot (running_table s) = Some b" using t by (simp add: dirs_free)
    from foreground_open [OF f h(1) _ _ h(2) e this, of "locals (h i)"] True t show ?thesis
      by (auto simp: open_dot_def ascii_def opened_def dirs_open)
  next
    case False
    have ok: "running_ok s" using f by (simp add: foreground_def)
    have "names_file s (lit (ascii ''.'')) 1 node"
      using e h chars_name [OF h(1)] unfolding names_file_def entry_at_def by (auto simp: ascii_def)
    then have "sys_open (locals (h i)) (lit (ascii ''.'')) s = open_entry (1, node) s" by (rule sys_open_entry [OF ok])
    moreover have "free_slot (running_table s) = None" using False t by (simp add: dirs_free)
    ultimately have "open_dot h lit i (s, m) = Some (s, m + 1)"
      using open_entry_table [OF ok, of "(1, node)"] by (simp add: open_dot_def)
    then show ?thesis using f t False by (intro exI [of _ "pcbs s"]) simp
  qed
qed

lemma open_dots:
  fixes s :: "'a kernel_scheme"
  assumes "foreground s k n" "literal s lit (ascii ''.'')" "entry_at s (vmem s) (ascii ''.'') 1 node"
    and "running_table s = dirs 2 b" "2 \<le> b" "b + q = 8"
  shows "\<exists>g. for_each (open_dot h lit) i (Suc q) (s, m) = Some (s\<lparr>pcbs := g\<rparr>, m + 1) \<and> foreground (s\<lparr>pcbs := g\<rparr>) k n \<and>
    running_table (s\<lparr>pcbs := g\<rparr>) = dirs 2 8"
  using assms
proof (induction q arbitrary: b i s)
  case 0
  then show ?case using open_dot_step [of s k n lit node b h i m] by auto
next
  case (Suc q)
  obtain g where g: "open_dot h lit i (s, m) = Some (s\<lparr>pcbs := g\<rparr>, m)" "foreground (s\<lparr>pcbs := g\<rparr>) k n"
    "running_table (s\<lparr>pcbs := g\<rparr>) = dirs 2 (Suc b)"
    using open_dot_step [OF Suc.prems(1-5), of h i m] Suc.prems(6) by auto
  from Suc.IH [OF g(2) _ _ g(3), of "Suc i"] Suc.prems g(1) show ?case by (auto simp: pcbs_keep)
qed

lemma close_all:
  fixes s :: "'a kernel_scheme"
  assumes "foreground s k n" "running_table s = dirs a 8" "2 \<le> a" "a + q = 8"
  shows "\<exists>g. for_each (\<lambda>i s. do { (s, r) \<leftarrow> sys_close (int i) s; Some s }) a q s = Some (s\<lparr>pcbs := g\<rparr>) \<and>
    foreground (s\<lparr>pcbs := g\<rparr>) k n \<and> running_table (s\<lparr>pcbs := g\<rparr>) = fresh_table"
  using assms
proof (induction q arbitrary: a s)
  case 0
  moreover have "dirs 8 8 = fresh_table" by (rule dirs_none) simp
  ultimately show ?case by (intro exI [of _ "pcbs s"]) (simp del: fun_upd_apply)
next
  case (Suc q)
  have "running_table s a \<noteq> None" using Suc.prems(2-4) by (simp add: dirs_def)
  then obtain g where g: "sys_close (int a) s = Some (s\<lparr>pcbs := g\<rparr>, 0)" "foreground (s\<lparr>pcbs := g\<rparr>) k n"
    "running_table (s\<lparr>pcbs := g\<rparr>) = dirs (Suc a) 8"
    using foreground_close [OF Suc.prems(1,3), of] Suc.prems by (auto simp: dirs_close)
  from Suc.IH [OF g(2,3)] Suc.prems g(1) show ?case by auto
qed

subsection \<open>All tests\<close>

lemma syserr_test_passes:
  fixes s :: "'a kernel_scheme"
  assumes s: "tests_ready lit s k n" and i: "i < 8"
  shows "\<exists>s'. syserr_test h lit bufs (Suc i) s = Some (s', 0) \<and> tests_ready lit s' k n \<and>
    screen_of s' = fold screen_putc (pass_line (test_names ! i)) (screen_of s)"
proof -
  have f: "foreground s k n" "running_table s = fresh_table" using s by (simp_all add: tests_ready_def)
  note u = unopened_refused [OF f]
  have l: "literal s lit x" if "x \<in> set syserr_texts" for x using s that by (simp add: tests_ready_def)
  have o: "sys_open junk (lit nm) s = Some (s, -1)" if "nm \<in> {ascii ''helloo'', ascii ''shel'', []}" for nm junk
    using that s by (intro open_refused [OF f(1) l]) (auto simp: tests_ready_def syserr_texts_def ascii_def)
  note p = test_passes [OF s]
  have 3: "\<exists>s'. err_open_lots h lit s = Some (s', 0) \<and> tests_ready lit s' k n \<and>
    screen_of s' = fold screen_putc (pass_line ''err_open_lots'') (screen_of s)"
  proof -
    obtain node where e: "entry_at s (vmem s) (ascii ''.'') 1 node" using s by (auto simp: tests_ready_def)
    have d: "literal s lit (ascii ''.'')" by (rule l) (simp add: syserr_texts_def)
    have "running_table s = dirs 2 2" using f(2) by (simp add: dirs_none)
    from open_dots [OF f(1) d e this, of 6 h 0 0]
    obtain g where g: "for_each (open_dot h lit) 0 7 (s, 0) = Some (s\<lparr>pcbs := g\<rparr>, 1)" "foreground (s\<lparr>pcbs := g\<rparr>) k n"
      "running_table (s\<lparr>pcbs := g\<rparr>) = dirs 2 8" by auto
    from close_all [OF g(2,3), of 6]
    obtain g' where g': "for_each (\<lambda>i s. do { (s, r) \<leftarrow> sys_close (int i) s; Some s }) 2 6 (s\<lparr>pcbs := g\<rparr>) = Some (s\<lparr>pcbs := g'\<rparr>)"
      "foreground (s\<lparr>pcbs := g'\<rparr>) k n" "running_table (s\<lparr>pcbs := g'\<rparr>) = fresh_table" by auto
    have "tests_ready lit (s\<lparr>pcbs := g'\<rparr>) k n"
      using s g'(2,3) by (simp add: tests_ready_def pcbs_keep)
    from test_passes [OF this, of "''err_open_lots''" "port (h 8)"] g(1) g'(1) show ?thesis by (simp add: err_open_lots_def)
  qed
  have c: "i = 0 \<or> i = 1 \<or> i = 2 \<or> i = 3 \<or> i = 4 \<or> i = 5 \<or> i = 6 \<or> i = 7" using i by auto
  have 1: "err_fd j nm h lit buf s = verdict (port (h 5)) lit nm (s, 0)" if "j < 0 \<or> 7 < j" for j nm buf
    by (simp add: err_fd_def must_fail_refused bad_fd_refused [OF that])
  have 4: "err_open h lit s = verdict (port (h 6)) lit ''err_open'' (s, 0)"
    by (simp add: err_open_def must_fail_refused o)
  have 5: "err_unopened h lit buf s = verdict (port (h 50)) lit ''err_unopened'' (s, 0)" for buf
    by (simp add: err_unopened_def for_each_stays must_fail_refused u)
  have 6: "err_vidmap h lit s = verdict (port (h 2)) lit ''err_vidmap'' (s, 0)"
    by (simp add: err_vidmap_def must_fail_def vidmap_refused)
  have 7: "err_stdin_out h lit buf s = verdict (port (h 4)) lit ''err_stdin_out'' (s, 0)" for buf
    by (simp add: err_stdin_out_def must_fail_refused u)
  have 8: "err_syscall_num h lit s = verdict (port (h 3)) lit ''err_syscall_num'' (s, 0)"
    by (simp add: err_syscall_num_def must_fail_refused call_sys_def)
  show ?thesis
    using c by (elim disjE) (simp_all add: syserr_test_def err_neg_fd_def err_big_fd_def 1 3 4 5 6 7 8 p)
qed

lemma syserr_tests_pass:
  fixes s :: "'a kernel_scheme"
  assumes "tests_ready lit s k n" "i + q = 8"
  shows "\<exists>s'. for_each (\<lambda>i x. do { (s, r) \<leftarrow> syserr_test (\<lambda>n. h (100 * i + n)) lit bufs i (fst x); Some (s, snd x + r) }) (Suc i) q (s, 0) =
      Some (s', 0) \<and> tests_ready lit s' k n \<and>
    screen_of s' = fold screen_putc (concat (map pass_line (drop i test_names))) (screen_of s)"
  using assms
proof (induction q arbitrary: i s)
  case 0
  then show ?case by simp
next
  case (Suc q)
  then have i: "i < 8" by simp
  obtain s1 where s1: "syserr_test (\<lambda>n. h (100 * Suc i + n)) lit bufs (Suc i) s = Some (s1, 0)" "tests_ready lit s1 k n"
    "screen_of s1 = fold screen_putc (pass_line (test_names ! i)) (screen_of s)"
    using syserr_test_passes [OF Suc.prems(1) i] by blast
  have "drop i test_names = test_names ! i # drop (Suc i) test_names"
    using i by (intro Cons_nth_drop_Suc [symmetric]) simp
  then show ?case
    using Suc.IH [OF s1(2), of "Suc i"] Suc.prems(2) s1(1,3) by auto
qed

lemma syserr_run:
  fixes s :: "'a kernel_scheme"
  defines "ask \<equiv> ascii ''Choose from tests 1-8. 0 to run all: ''"
  assumes f: "foreground s k n" and l: "literal s lit ask" and b: "\<forall>j<128. in_user_window (bufs 0 + of_nat j)"
    and w: "types_line (during (h 1)) k n (0x30 # w) (fold putc ask s) t" and r: "tests_ready lit t k n"
    and ap: "\<forall>x \<in> set syserr_texts. apart 128 lit (bufs 0) x"
  shows "\<exists>s'. syserr h lit bufs s = Some (s', 0) \<and> foreground s' k n \<and>
    screen_of s' = fold screen_putc (concat (map pass_line test_names) @ overall_line) (screen_of t)"
proof -
  have p: "ece391_fdputs (port (h 0)) 1 (lit ask) s = Some (fold putc ask s)"
    using l by (intro foreground_puts [OF f]) (auto simp: literal_def ascii_def ask_def)
  obtain t' where t': "sys_read (during (h 1)) (locals (h 1)) 0 (bufs 0) 127 (fold putc ask s) = Some (t', int (length (0x30 # w)))"
    "foreground t' k n" "screen_of t' = screen_of t" "spared n t t'" "vmem t' (bufs 0) = 0x30"
    "\<And>va. in_user_window va \<Longrightarrow> 128 \<le> unat (va - bufs 0) \<Longrightarrow> vmem t' va = vmem (fold putc ask s) va"
    using foreground_read_line [where nb = 127 and junk = "locals (h 1)", OF foreground_putc [OF f] w b] by force
  have tw: "vmem t va = vmem (fold putc ask s) va" if "in_user_window va" for va using w that by (simp add: types_line_def)
  have ft: "foreground t k n" using r by (simp add: tests_ready_def)
  have "running_table t' = running_table t"
  proof -
    have "fd_table t' = fd_table t" using t'(4) by (simp add: fun_eq_iff fd_table_def spared_def)
    then show ?thesis using t'(2) ft by (simp add: running_table_def foreground_def)
  qed
  moreover have "literal t' lit x" if x: "x \<in> set syserr_texts" for x
  proof -
    have lx: "literal t lit x" "apart 128 lit (bufs 0) x" using r ap x by (simp_all add: tests_ready_def)
    show ?thesis by (rule literal_far [OF lx(1)]) (use lx in \<open>simp add: literal_def apart_def t'(6) tw\<close>)
  qed
  moreover have d: "n < 6" "frame_ok t'" "kernel_range (dentry_addr t) 4096" "frame_ok t" "file_sys t = dentry_addr t"
    using r foreground_frame [OF ft] foreground_frame [OF t'(2)] by (simp_all add: tests_ready_def foreground_def)
  then have "entry_at t' (vmem t') nm ty nd = entry_at t (vmem t) nm ty nd" for nm ty nd by (intro spared_entry [OF t'(4)])
  moreover have "entry_node t' (vmem t') nm = entry_node t (vmem t) nm" if "length nm \<le> 32" for nm
    by (rule spared_node [OF t'(4) d that])
  moreover have "file_sys t' = file_sys t" "dentry_addr t' = dentry_addr t" using t'(4) by (simp_all add: spared_def)
  ultimately have r': "tests_ready lit t' k n"
    using r t'(2) by (simp add: tests_ready_def ascii_def)
  obtain s1 where s1: "for_each (\<lambda>i x. do { (s, r) \<leftarrow> syserr_test (\<lambda>n. h (100 * i + n)) lit bufs i (fst x); Some (s, snd x + r) }) 1 8 (t', 0) =
      Some (s1, 0)" "tests_ready lit s1 k n" "screen_of s1 = fold screen_putc (concat (map pass_line test_names)) (screen_of t)"
    using syserr_tests_pass [OF r', of 0 8 h bufs] t'(3) by auto
  have f1: "foreground s1 k n" "literal s1 lit overall_line" using s1(2) by (simp_all add: tests_ready_def syserr_texts_def)
  have p2: "ece391_fdputs (port (h 3)) 1 (lit overall_line) s1 = Some (fold putc overall_line s1)"
    using f1(2) by (intro foreground_puts [OF f1(1)]) (auto simp: literal_def overall_line_def ascii_def)
  have "syserr h lit bufs s = Some (fold putc overall_line s1, 0)"
    unfolding syserr_def ask_def [symmetric] p t'(1) bind.bind_lunit prod.case Let_def t'(5)
    using s1(1) p2 by (simp add: overall_line_def)
  moreover have "screen_of (fold putc overall_line s1) = fold screen_putc overall_line (screen_of s1)"
    using f1(1) by (intro fold_putc_refines) (simp add: foreground_def)
  ultimately show ?thesis using foreground_putc [OF f1(1)] s1(3) by simp
qed

subsection \<open>Properties\<close>

text \<open>C13: The kernel passes the error tests of \<open>syserr\<close>.  When the user answers 0 on the terminal that
  is shown, a process without open files runs all eight tests (descriptors that are negative, too
  large or not open, the eighth \<open>open\<close>, misspelt and empty names, \<open>vidmap\<close> outside the user page,
  writing to the input and reading from the output, wrong call numbers), \<open>main\<close> ends with exit
  status 0 and the screen shows the eight lines \<open>PASS\<close> and the line of the overall result.\<close>

theorem syserr_passes:
  fixes s :: "'a kernel_scheme"
  assumes "foreground s k n" and "literal s lit (ascii ''Choose from tests 1-8. 0 to run all: '')"
    and "\<forall>j<128. in_user_window (bufs 0 + of_nat j)"
    and "types_line (during (h 1)) k n (0x30 # w) (fold putc (ascii ''Choose from tests 1-8. 0 to run all: '') s) t"
    and "tests_ready lit t k n" and "\<forall>x \<in> set syserr_texts. apart 128 lit (bufs 0) x"
  shows "\<exists>s'. syserr h lit bufs s = Some (s', 0) \<and> foreground s' k n \<and>
    screen_of s' = fold screen_putc (concat (map pass_line test_names) @ overall_line) (screen_of t)"
  by (rule syserr_run [where h = h and bufs = bufs, OF assms])

abbreviation ask_text :: "u8 list" where "ask_text \<equiv> ascii ''Choose from tests 1-8. 0 to run all: ''"
abbreviation all_texts :: "u8 list list" where "all_texts \<equiv> ask_text # syserr_texts"

lemma all_texts_ok: "length (place all_texts) < 4096" "\<forall>x \<in> set all_texts. 0 \<notin> set x"
  by (simp_all add: place_def syserr_texts_def overall_line_def pass_line_def ascii_def)

lemma kernel_talk_tests:
  assumes "0 \<notin> set w" "length w < 128"
  shows "tests_ready (user_lit all_texts) (talk_typed all_texts ask_text w) 0 0"
proof -
  let ?t = "talk_typed all_texts ask_text w"
  note k = kernel_talk_foreground [OF all_texts_ok(1), where w = w]
  note t = talk_types [OF assms all_texts_ok(1), of ask_text]
  have f: "foreground ?t 0 0" using t(1) by (simp add: types_line_def)
  have d: "(0 :: nat) < 6" "frame_ok ?t" "kernel_range (dentry_addr kernel_home) 4096" "frame_ok kernel_home"
    "file_sys kernel_home = dentry_addr kernel_home"
    using foreground_frame [OF f] foreground_frame [OF kernel_home_foreground] by (simp_all add: kernel_range_def)
  have "fd_table ?t = fd_table kernel_home" using t(2) by (simp add: fun_eq_iff fd_table_def spared_def)
  moreover have "fd_table kernel_home = fd_table kernel_up" by (simp add: fun_eq_iff fd_table_def)
  ultimately have "running_table ?t = fresh_table"
    using f kernel_up_ok(2,3) by (simp add: running_table_def foreground_def)
  moreover have "entry_at ?t (vmem ?t) (ascii ''.'') 1 0"
    using spared_entry [OF t(2) d] home_found(3) by simp
  moreover have "entry_node ?t (vmem ?t) nm = None" if "nm \<in> {ascii ''helloo'', ascii ''shel''}" for nm
    using spared_node [OF t(2) d, of nm] home_missing [of nm] that by (auto simp: ascii_def)
  moreover have "literal ?t (user_lit all_texts) x" if "x \<in> set syserr_texts" for x
  proof -
    have "literal (kernel_talk all_texts w) (user_lit all_texts) x"
      using that all_texts_ok by (intro talk_literal(1)) simp_all
    from literal_putc [OF k(1) this, of ask_text] show ?thesis by (simp add: talk_typed_def sti_def literal_def)
  qed
  ultimately show ?thesis
    using f t(2) d(3) by (auto simp: tests_ready_def spared_def)
qed

theorem syserr_passes_witness:
  "\<exists>s'. syserr quiet_env (user_lit all_texts) (\<lambda>_. 0x8300000) (kernel_talk all_texts [0x30, 0x0A]) = Some (s', 0) \<and>
    screen_of s' = fold screen_putc (concat (map pass_line test_names) @ overall_line) (screen_of (talk_typed all_texts ask_text [0x30, 0x0A]))"
proof -
  have w: "0 \<notin> set [0x30, 0x0A :: u8]" "length [0x30, 0x0A :: u8] < 128" by simp_all
  have "literal (kernel_talk all_texts [0x30, 0x0A]) (user_lit all_texts) ask_text"
    using all_texts_ok by (intro talk_literal(1)) simp_all
  moreover have "\<forall>j<128. in_user_window (0x8300000 + of_nat j)" using home_user_buf by (simp add: user_buf_def)
  moreover have "types_line (during (quiet_env 1)) 0 0 [0x30, 0x0A] (fold putc ask_text (kernel_talk all_texts [0x30, 0x0A]))
      (talk_typed all_texts ask_text [0x30, 0x0A])"
    using talk_types(1) [OF w all_texts_ok(1)] by simp
  moreover have "\<forall>x \<in> set syserr_texts. apart 128 (user_lit all_texts) 0x8300000 x"
  proof
    fix x assume "x \<in> set syserr_texts"
    then have "apart 1024 (user_lit all_texts) 0x8300000 x"
      using all_texts_ok by (intro talk_literal(2)) simp_all
    then show "apart 128 (user_lit all_texts) 0x8300000 x" by (force simp: apart_def)
  qed
  ultimately show ?thesis
    using syserr_passes [where h = quiet_env and bufs = "\<lambda>_. 0x8300000", OF kernel_talk_foreground(1) [OF all_texts_ok(1)] _ _ _ kernel_talk_tests [OF w]]
    by blast
qed

end
