(* ===== verification/Spec2Isabelle.thy ===== *)
theory Spec2Isabelle
  imports Booting Format Counter Syserr
begin

text \<open>
  \<^bold>\<open>The kernel of Small-Linux-OS.\<close>  A 32-bit protected-mode kernel with three text terminals, six
  processes at most, a read-only file system in memory, ten system calls, and round-robin
  scheduling of the terminals.  This development models its C code (\<open>src/student-distrib\<close>) and seven
  of the programs that run on it (\<open>src/syscalls\<close>).

  \<^bold>\<open>How the parts interact.\<close>  \<open>entry\<close> (\<open>kernel.c\<close>) fills the interrupt table, initialises the
  interrupt controller, the clock, the keyboard, the paging, the file system, the terminals and the
  timer, and executes the first shell.  From then on the kernel runs on interrupts and system
  calls.  The keyboard handler translates a scan code, edits the line buffer, echoes on the screen
  and hands a finished line to the terminal that is shown; a program gets it from \<open>terminal_read\<close>.
  The timer handler goes to the process of the next open terminal.  \<open>execute\<close> looks a program up
  in the file system, maps a 4 MB frame at 128 MB, copies the program into it and enters it;
  \<open>halt\<close> returns into the \<open>execute\<close> of the parent.

  \<^bold>\<open>The theories\<close>, in the order of their imports.  The model comes first in each.
  \<^item> \<open>Prelude\<close>: machine words of the C types, memory as a function from addresses to bytes, and
    \<open>overlay\<close>, the closed form of every copy loop, with its simplification rules.
  \<^item> \<open>Lib_Mem\<close>, \<open>Lib_String\<close>: \<open>memset*\<close>, \<open>memcpy\<close>, \<open>memmove\<close> from the inline assembly of \<open>lib.c\<close>, and
    \<open>strlen\<close>, \<open>strncmp\<close>, \<open>strcpy\<close>, \<open>strncpy\<close>, \<open>strrev\<close>, \<open>itoa\<close>.  Each is proved equal to one
    \<open>overlay\<close>.
  \<^item> \<open>Machine\<close>, \<open>I8259\<close>, \<open>Rtc\<close>, \<open>Paging\<close>: \<open>outb\<close>, \<open>cli\<close>, \<open>sti\<close>; \<open>i8259.c\<close>; \<open>rtc.c\<close>; \<open>initpaging.c\<close>.
    \<open>walk\<close> is the translation the processor performs with the page tables.
  \<^item> \<open>Vmem\<close>: memory as the running program addresses it.
  \<^item> \<open>Filesystem\<close>: \<open>filesystem.c\<close>, over the bytes of the image.
  \<^item> \<open>Console\<close>: the variables \<open>lib.c\<close>, \<open>keyboard.c\<close>, \<open>terminal.c\<close> and \<open>schedule.c\<close> share, and the screen
    output of \<open>lib.c\<close> up to \<open>printf\<close>.  \<open>Format\<close>: \<open>printf\<close> on any format.
  \<^item> \<open>Keyboard\<close>, \<open>Terminal\<close>: line editing and key tables of \<open>keyboard.c\<close>; \<open>terminal.c\<close>.
  \<^item> \<open>Syscall\<close>: \<open>syscall.c\<close>, and \<open>file_read\<close>, which works on the descriptors of the running process.
  \<^item> \<open>Descriptors\<close>: the file descriptors as a partial map.
  \<^item> \<open>Key_Handler\<close>: \<open>print_keyboard\<close> of \<open>keyboard.c\<close> and the switches between terminals, which may
    execute a shell.  \<open>Scheduler\<close>: \<open>schedule.c\<close>.  \<open>Idt\<close>, \<open>Boot\<close>: \<open>idt.c\<close>, \<open>x86_desc.h\<close>, \<open>kernel.c\<close>.
  \<^item> \<open>Processes\<close>, \<open>Executing\<close>, \<open>Scheduling\<close>: the chains of processes of the terminals, and \<open>execute\<close>, \<open>halt\<close>
    and the timer tick as operations on the chains.
  \<^item> \<open>Quiet_Calls\<close>, \<open>Start_Stop\<close>, \<open>Kernel_Steps\<close>, \<open>Typed_Descriptors\<close>, \<open>Booting\<close>: the kernel as a transition
    system, its invariants, and the start that establishes them.
  \<^item> \<open>User_Support\<close>, \<open>User_Programs\<close>: \<open>ece391support.c\<close>, and the programs \<open>cat\<close> and \<open>ls\<close> (\<open>src/syscalls\<close>), each as
    what its \<open>main\<close> does to the state of the kernel through the system calls.  \<open>User_Calls\<close>: the calls as a
    program of the terminal that is shown sees them.  \<open>Commands\<close>: a command from \<open>execute\<close> to \<open>halt\<close>.
  \<^item> \<open>Shell\<close>, \<open>Counter\<close>, \<open>Syserr\<close>: programs that read a line: the shell, \<open>hello\<close>, \<open>testprint\<close> and \<open>counter\<close>, and
    \<open>syserr\<close>, the error tests of the system calls.

  \<^bold>\<open>State.\<close>  Every global variable of the C code is one field of one record, built by extension in the
  order \<open>machine\<close>, \<open>pic\<close>, \<open>rtc\<close>, \<open>paging\<close>, \<open>fs\<close>, \<open>console\<close>, \<open>kernel\<close>, \<open>boot\<close>; an operation of a
  component is polymorphic in what later components add, so its frame is part of its type.  Control blocks
  are a map from addresses, defined at the six addresses \<open>8MB - 8KB * (n + 1)\<close> only.

  \<^bold>\<open>Conventions.\<close>  A C integer whose width matters is a word; a screen position or counter declared \<open>int\<close> is
  a HOL integer.  \<open>None\<close> stands for what C does not define (an index outside an array, a pointer to
  no object) and for not returning.  A byte read by \<open>inb\<close>, the registers \<open>esp\<close> and \<open>ebp\<close>, the contents of
  uninitialised locals, the structure the boot loader passes and the addresses chosen by the linker are
  arguments.  \<open>execute\<close> ends in \<open>Returned v\<close> or in \<open>Enter_user\<close> with the entry point and the stack of \<open>iret\<close>;
  \<open>halt\<close> ends in \<open>Resume\<close> with the registers it loads, or in \<open>Fresh_shell\<close>.

  \<^bold>\<open>Loops.\<close>  Structural recursion on the iterations left where C counts to a bound
  (\<open>find_next\<close>: two terminals; \<open>open_loop\<close>: six descriptors, as in the code); \<open>function\<close> with a measure for
  \<open>read_blocks\<close>, \<open>strrev_loop\<close>, \<open>line_size\<close>, \<open>exec_name\<close> and \<open>exec_arg\<close>; \<open>partial_function (option)\<close> for \<open>strlen\<close>,
  \<open>strcpy\<close>, \<open>itoa\<close>, \<open>puts\<close>, \<open>printf\<close> and the tables of the boot loader, with theorems that they return.
  A loop that waits for an interrupt is \<open>spin_while\<close> over the finite list of interrupts taken before it is
  left; it has no value when the list ends with the condition still true.

  \<^bold>\<open>Interfaces.\<close>  \<open>block_copy\<close> (copying a block between separate objects) holds of \<open>memcpy\<close> and \<open>memmove\<close>;
  \<open>open_table\<close> (insert at the least free number, remove) holds of \<open>open_loop\<close> and \<open>sys_close\<close> on the running process;
  \<open>exec_steps\<close> (a transitive fact of the steps of the loader holds of \<open>execute\<close>) is interpreted for \<open>kept\<close>, what
  \<open>execute\<close> leaves of the terminals, and for \<open>keeps_types\<close>, the types of the descriptors; \<open>printing_loop\<close> (read a
  chunk, print it, until a read returns 0) holds of the loops of \<open>cat\<close> and \<open>ls\<close>.

  \<^bold>\<open>What is proved.\<close>
  \<^item> The kernel: \<open>steady s ch\<close> says that the terminals, the process array and the control blocks represent the
    chains \<open>ch\<close>, that exactly the open terminals have processes, and that the running process is the last of its
    chain, mapped at 128 MB.  It holds when the first shell starts and after any sequence of
    \<open>kernel_step\<close>s; from it follow the isolation of the frames and that a tick always finds a process.
  \<^item> Processes: \<open>execute\<close> enters the program of the image with its argument and fresh descriptors, \<open>halt\<close> undoes it,
    and as many ticks as there are open terminals serve each once and come back.
  \<^item> Commands: the shell prompts, reads the line that is typed while it waits, executes the program or reports an
    unknown command; \<open>cat\<close> prints its file and \<open>ls\<close> the names of the directory on the abstract screen, in the
    state in which \<open>execute\<close> enters them, and \<open>halt\<close> gives the shell back its registers and chains.
    \<open>types_line\<close> says what is assumed of the interrupts taken during the wait: when it ends, the line is in
    the terminal and the process runs again with its memory unchanged.
  \<^item> Errors: the kernel passes all eight tests of \<open>syserr\<close>.
  \<^item> Paging and interrupts: which addresses are mapped, where and for whom; the gates of the interrupt table.
  \<^item> Files: directory lookup against the entries, reads as windows of the content, descriptors as a map.
  \<^item> Terminals: \<open>putc\<close> implements an abstract screen, \<open>printf\<close> prints the rendering of its format, typing fills
    the line buffer and echoes, a typed line is what \<open>terminal_read\<close> returns, switching there and back restores.
  \<^item> The theorems of kind bounds state where the code leaves its intended behaviour: reads past the end of a file,
    the wrapped row, the full line, the backspace after a scroll.

  \<^bold>\<open>Scope of \<open>kernel_step\<close>.\<close>  A step is one whole interrupt or system call; an interrupt taken inside a
  system call is modelled in the call's own event list but not as a step.  Three situations are
  outside the relation: a key that starts a shell when \<open>execute\<close> fails, \<open>halt\<close> of a base shell whose
  terminal is not shown, and \<open>halt\<close> of a base shell that cannot be restarted.  In each the code itself
  leaves an open terminal without a process; \<open>halt_restarts_shell\<close> states the second exactly.
  Writes of a program through the page of \<open>vidmap\<close> are not steps.

  \<^bold>\<open>Not modelled.\<close>  The assembly stubs (\<open>boot.S\<close>, \<open>x86_desc.S\<close>, \<open>interrupthandler.S\<close>): no C; what the C
  code relies on, the registers saved and restored and \<open>iret\<close>, appears as arguments and results.  \<open>tests.c\<close> and
  \<open>debug.h\<close>: test drivers that only call the modelled routines.  The machine code of the
  programs: that the bytes \<open>execute\<close> enters are a compiled \<open>main\<close> is outside the model; a program is its C
  \<open>main\<close>.  The programs \<open>grep\<close>, \<open>pingpong\<close> and \<open>sigtest\<close> (the kernel has no
  signals), the animation \<open>fish\<close>, and the emulation of the calls under
  Linux.
\<close>

end
